(* ===== verification/UbiQ_Prelude.thy ===== *)
theory UbiQ_Prelude
  imports Main "HOL-Library.List_Lexorder" "HOL-Library.Char_ord" "HOL-Library.Product_Lexorder"
    "HOL-Library.Word"
begin

text \<open>
  What every theory of the development shares: the Go values the runtime computes with (byte
  strings, 64-bit integers, instants and durations, errors and results), the few constructs of
  SQL the stores are written in, and the generic facts on lists, tables and transition systems
  that the component proofs rest on.

  A Go \<^verbatim>\<open>string\<close> and a \<^verbatim>\<open>[]byte\<close> are both \<open>char list\<close>, one \<open>char\<close> per byte; the order that
  \<open>List_Lexorder\<close> and \<open>Char_ord\<close> give them is the bytewise one that Go's \<open><\<close> and SQLite's
  BINARY collation use.
\<close>

section \<open>Collections of facts\<close>

named_theorems sql_simps \<open>rewrite rules of the SQL constructs\<close>
named_theorems row_simps \<open>projections of updated table rows\<close>

section \<open>Go values\<close>

type_synonym bytes = string

text \<open>An \<^verbatim>\<open>int64\<close> is an \<open>int\<close> kept in range by \<open>to_int64\<close> wherever the code computes with it.\<close>

definition to_int64 :: "int \<Rightarrow> int" where
  "to_int64 x = (x + 2 ^ 63) mod 2 ^ 64 - 2 ^ 63"

definition int64_range :: "int \<Rightarrow> bool" where
  "int64_range x \<longleftrightarrow> - (2 ^ 63) \<le> x \<and> x < 2 ^ 63"

lemma to_int64_id [simp]: "int64_range x \<Longrightarrow> to_int64 x = x"
  by (simp add: to_int64_def int64_range_def)

lemma int64_range_to_int64 [simp]: "int64_range (to_int64 x)"
proof -
  have "0 \<le> (x + 2 ^ 63) mod 2 ^ 64" "(x + 2 ^ 63) mod 2 ^ 64 < (2::int) ^ 64"
    by simp_all
  then show ?thesis
    by (simp add: to_int64_def int64_range_def)
qed

text \<open>
  A \<^verbatim>\<open>time.Duration\<close> is an \<^verbatim>\<open>int64\<close> of nanoseconds and a \<^verbatim>\<open>time.Time\<close> is modelled as the
  nanoseconds since the epoch. \<open>UnixMilli\<close> rounds towards minus infinity, \<open>Milliseconds\<close>
  truncates, and \<open>Sub\<close> saturates at the ends of the range.
\<close>

type_synonym duration = int
type_synonym instant = int

definition Millisecond :: duration where
  "Millisecond = 1000000"

definition Second :: duration where
  "Second = 1000000000"

definition Minute :: duration where
  "Minute = 60 * Second"

definition UnixMilli :: "instant \<Rightarrow> int" where
  "UnixMilli t = t div Millisecond"

definition Unix :: "instant \<Rightarrow> int" where
  "Unix t = t div Second"

definition Milliseconds :: "duration \<Rightarrow> int" where
  "Milliseconds d = sgn d * (\<bar>d\<bar> div Millisecond)"

definition time_Sub :: "instant \<Rightarrow> instant \<Rightarrow> duration" where
  "time_Sub t u = max (- (2 ^ 63)) (min (2 ^ 63 - 1) (t - u))"

subsection \<open>Errors and results\<close>

text \<open>
  The sentinel errors of the runtime are constructors, so that \<^verbatim>\<open>errors.Is\<close> is equality;
  \<open>Errorf fmt args\<close> is an error built by \<^verbatim>\<open>errors.New\<close> or \<^verbatim>\<open>fmt.Errorf\<close>, its format and its
  arguments; \<open>LibError\<close> is an error handed up by a library the code calls.
\<close>

datatype go_error =
    ErrNothingAvailable
  | ErrStaleLease
  | ErrInvalidTransition
  | ErrNoRows
  | Errorf string "string list"
  | LibError string

type_synonym 'a result = "go_error + 'a"

abbreviation errors_New :: "string \<Rightarrow> go_error" where
  "errors_New msg \<equiv> Errorf msg []"

definition is_ok :: "'a result \<Rightarrow> bool" where
  "is_ok r \<longleftrightarrow> (case r of Inl _ \<Rightarrow> False | Inr _ \<Rightarrow> True)"

lemma is_ok_simps [simp]: "is_ok (Inr x)" "\<not> is_ok (Inl e)"
  by (simp_all add: is_ok_def)

section \<open>SQL\<close>

text \<open>
  A table is the list of its rows in insertion order. \<open>sql_update p f\<close> is
  \<^verbatim>\<open>UPDATE \<dots> SET f WHERE p\<close>, \<open>sql_count p\<close> the number of rows it affects, and
  \<open>order_limit k n\<close> is \<^verbatim>\<open>ORDER BY k LIMIT n\<close>.
\<close>

definition sql_update :: "('r \<Rightarrow> bool) \<Rightarrow> ('r \<Rightarrow> 'r) \<Rightarrow> 'r list \<Rightarrow> 'r list" where
  "sql_update p f rows = map (\<lambda>r. if p r then f r else r) rows"

definition sql_count :: "('r \<Rightarrow> bool) \<Rightarrow> 'r list \<Rightarrow> nat" where
  "sql_count p rows = length (filter p rows)"

definition order_limit :: "('r \<Rightarrow> 'k::linorder) \<Rightarrow> nat \<Rightarrow> 'r list \<Rightarrow> 'r list" where
  "order_limit k n rows = take n (sort_key k rows)"

lemma sql_update_simps [sql_simps]:
  "sql_update p f [] = []"
  "sql_update p f (r # rows) = (if p r then f r else r) # sql_update p f rows"
  by (simp_all add: sql_update_def)

lemma set_sql_update [sql_simps]:
  "set (sql_update p f rows) = f ` {r \<in> set rows. p r} \<union> {r \<in> set rows. \<not> p r}"
  by (auto simp: sql_update_def)

lemma length_sql_update [simp]: "length (sql_update p f rows) = length rows"
  by (simp add: sql_update_def)

lemma sql_update_key:
  "(\<And>r. k (f r) = k r) \<Longrightarrow> map k (sql_update p f rows) = map k rows"
  by (auto simp: sql_update_def)

lemma sql_update_none: "(\<And>r. r \<in> set rows \<Longrightarrow> \<not> p r) \<Longrightarrow> sql_update p f rows = rows"
  by (simp add: sql_update_def map_idI)

lemma sql_count_0: "sql_count p rows = 0 \<longleftrightarrow> (\<forall>r \<in> set rows. \<not> p r)"
  by (auto simp: sql_count_def filter_empty_conv)

text \<open>Where a key of the table is unique, a condition that fixes the key affects at most one row.\<close>

lemma sql_count_unique:
  assumes "distinct (map k rows)" and "\<And>r. p r \<Longrightarrow> k r = v"
  shows "sql_count p rows \<le> 1"
  using assms(1)
proof (induction rows)
  case Nil
  then show ?case by (simp add: sql_count_def)
next
  case (Cons r rows)
  show ?case
  proof (cases "p r")
    case True
    then have "\<forall>q \<in> set rows. \<not> p q"
      using Cons.prems assms(2) by (metis distinct.simps(2) image_eqI list.set_map list.simps(9))
    then have "sql_count p rows = 0" by (simp add: sql_count_0)
    with True show ?thesis by (simp add: sql_count_def)
  next
    case False
    with Cons show ?thesis by (simp add: sql_count_def)
  qed
qed

lemma sql_count_eq_1:
  assumes "distinct (map k rows)" and "\<And>r. p r \<Longrightarrow> k r = v"
  shows "sql_count p rows = 1 \<longleftrightarrow> (\<exists>r \<in> set rows. p r)"
proof -
  have "sql_count p rows \<le> 1" by (rule sql_count_unique [OF assms])
  moreover have "sql_count p rows = 0 \<longleftrightarrow> \<not> (\<exists>r \<in> set rows. p r)" by (simp add: sql_count_0)
  ultimately show ?thesis by linarith
qed

lemma distinct_key_eq:
  "distinct (map k rows) \<Longrightarrow> r \<in> set rows \<Longrightarrow> q \<in> set rows \<Longrightarrow> k r = k q \<Longrightarrow> r = q"
  by (auto simp: distinct_map inj_on_def)

lemma sql_update_by_key:
  assumes "distinct (map k rows)" and "r \<in> set rows" and "p r" and "\<And>q. p q \<Longrightarrow> k q = k r"
  shows "sql_update p f rows = sql_update (\<lambda>q. k q = k r) f rows"
proof -
  have "p q \<longleftrightarrow> k q = k r" if "q \<in> set rows" for q
    using assms that distinct_key_eq by metis
  then show ?thesis by (simp add: sql_update_def)
qed

lemma order_limit_subset: "set (order_limit k n rows) \<subseteq> set rows"
  using set_take_subset [of n "sort_key k rows"] by (auto simp: order_limit_def)

lemma order_limit_1_Nil [simp]: "order_limit k 1 rows = [] \<longleftrightarrow> rows = []"
proof -
  have "sort_key k rows = [] \<longleftrightarrow> rows = []"
    by (metis length_0_conv length_sort)
  then show ?thesis by (simp add: order_limit_def)
qed

lemma order_limit_1_min:
  assumes "order_limit k 1 rows = r # rs"
  shows "r \<in> set rows" and "q \<in> set rows \<Longrightarrow> k r \<le> k q"
proof -
  obtain qs where qs: "sort_key k rows = r # qs"
    using assms by (cases "sort_key k rows") (auto simp: order_limit_def)
  then have "set rows = set (r # qs)" by (metis set_sort)
  then show "r \<in> set rows" by simp
  have "sorted (map k (r # qs))" by (metis qs sorted_sort_key)
  then show "k r \<le> k q" if "q \<in> set rows"
    using that \<open>set rows = set (r # qs)\<close> by auto
qed

section \<open>Transition systems\<close>

text \<open>
  Every stateful component is a set of operations on a state. The two locales below are the
  contracts its properties are proved under: an invariant that every step keeps, and a reflexive
  and transitive relation (an order of progress) that every step respects.
\<close>

inductive reachable :: "('s \<Rightarrow> bool) \<Rightarrow> ('s \<Rightarrow> 's \<Rightarrow> bool) \<Rightarrow> 's \<Rightarrow> bool"
  for init :: "'s \<Rightarrow> bool" and trans :: "'s \<Rightarrow> 's \<Rightarrow> bool" where
  reachable_init: "init s \<Longrightarrow> reachable init trans s"
| reachable_step: "reachable init trans s \<Longrightarrow> trans s t \<Longrightarrow> reachable init trans t"

locale invariant_system =
  fixes init :: "'s \<Rightarrow> bool"
    and trans :: "'s \<Rightarrow> 's \<Rightarrow> bool"
    and inv :: "'s \<Rightarrow> bool"
  assumes inv_init: "init s \<Longrightarrow> inv s"
    and inv_step: "inv s \<Longrightarrow> trans s t \<Longrightarrow> inv t"
begin

lemma inv_reachable: "reachable init trans s \<Longrightarrow> inv s"
  by (induction rule: reachable.induct) (auto intro: inv_init inv_step)

lemma inv_steps: "rtranclp trans s t \<Longrightarrow> inv s \<Longrightarrow> inv t"
  by (induction rule: rtranclp_induct) (auto intro: inv_step)

end

locale progress_system = invariant_system +
  fixes le :: "'s \<Rightarrow> 's \<Rightarrow> bool"
  assumes le_refl: "le s s"
    and le_trans: "le s t \<Longrightarrow> le t u \<Longrightarrow> le s u"
    and le_step: "inv s \<Longrightarrow> trans s t \<Longrightarrow> le s t"
begin

lemma le_steps: "rtranclp trans s t \<Longrightarrow> inv s \<Longrightarrow> le s t"
proof (induction rule: rtranclp_induct)
  case base
  show ?case by (rule le_refl)
next
  case (step t u)
  from step.hyps(1) step.prems have "inv t" by (rule inv_steps)
  with step show ?case by (blast intro: le_trans le_step)
qed

end

end
