(* ===== verification/Go_Regexp.thy ===== *)
theory Go_Regexp
  imports UbiQ_Prelude
begin

text \<open>
  The part of Go's \<^verbatim>\<open>regexp\<close> and \<^verbatim>\<open>strings\<close> packages the runtime uses: regular expressions over
  bytes with an executable matcher (\<open>MatchString\<close> on an anchored pattern), proved equivalent to
  the language of the expression, and \<^verbatim>\<open>strings.Split\<close> at one byte.
\<close>

section \<open>Definitions\<close>

datatype rexp =
    Zero
  | One
  | Cls "char \<Rightarrow> bool"
  | Alt rexp rexp
  | Seq rexp rexp
  | Star rexp

text \<open>\<^verbatim>\<open>r{2,}\<close>\<close>

definition AtLeast2 :: "rexp \<Rightarrow> rexp" where
  "AtLeast2 r = Seq r (Seq r (Star r))"

inductive in_lang :: "rexp \<Rightarrow> string \<Rightarrow> bool" where
  lang_One: "in_lang One []"
| lang_Cls: "p c \<Longrightarrow> in_lang (Cls p) [c]"
| lang_AltL: "in_lang r s \<Longrightarrow> in_lang (Alt r q) s"
| lang_AltR: "in_lang q s \<Longrightarrow> in_lang (Alt r q) s"
| lang_Seq: "in_lang r s \<Longrightarrow> in_lang q t \<Longrightarrow> in_lang (Seq r q) (s @ t)"
| lang_StarNil: "in_lang (Star r) []"
| lang_StarCons: "in_lang r s \<Longrightarrow> in_lang (Star r) t \<Longrightarrow> in_lang (Star r) (s @ t)"

fun nullable :: "rexp \<Rightarrow> bool" where
  "nullable Zero = False"
| "nullable One = True"
| "nullable (Cls p) = False"
| "nullable (Alt r q) = (nullable r \<or> nullable q)"
| "nullable (Seq r q) = (nullable r \<and> nullable q)"
| "nullable (Star r) = True"

fun deriv :: "char \<Rightarrow> rexp \<Rightarrow> rexp" where
  "deriv c Zero = Zero"
| "deriv c One = Zero"
| "deriv c (Cls p) = (if p c then One else Zero)"
| "deriv c (Alt r q) = Alt (deriv c r) (deriv c q)"
| "deriv c (Seq r q) =
     (if nullable r then Alt (Seq (deriv c r) q) (deriv c q) else Seq (deriv c r) q)"
| "deriv c (Star r) = Seq (deriv c r) (Star r)"

fun MatchString :: "rexp \<Rightarrow> string \<Rightarrow> bool" where
  "MatchString r [] = nullable r"
| "MatchString r (c # s) = MatchString (deriv c r) s"

text \<open>The byte classes of the runtime's patterns.\<close>

definition is_alpha :: "char \<Rightarrow> bool" where
  "is_alpha c \<longleftrightarrow> CHR ''A'' \<le> c \<and> c \<le> CHR ''Z'' \<or> CHR ''a'' \<le> c \<and> c \<le> CHR ''z''"

definition is_digit :: "char \<Rightarrow> bool" where
  "is_digit c \<longleftrightarrow> CHR ''0'' \<le> c \<and> c \<le> CHR ''9''"

text \<open>\<^verbatim>\<open>strings.Split(s, sep)\<close> for a separator of one byte.\<close>

fun strings_Split :: "string \<Rightarrow> char \<Rightarrow> string list" where
  "strings_Split [] sep = [[]]"
| "strings_Split (c # s) sep =
     (if c = sep then [] # strings_Split s sep
      else (case strings_Split s sep of [] \<Rightarrow> [[c]] | p # ps \<Rightarrow> (c # p) # ps))"

section \<open>The matcher decides the language\<close>

inductive_cases lang_ZeroE [elim!]: "in_lang Zero s"
inductive_cases lang_OneE [elim!]: "in_lang One s"
inductive_cases lang_ClsE [elim!]: "in_lang (Cls p) s"
inductive_cases lang_AltE [elim!]: "in_lang (Alt r q) s"
inductive_cases lang_SeqE [elim!]: "in_lang (Seq r q) s"

lemma in_lang_Nil: "in_lang r [] \<longleftrightarrow> nullable r"
proof
  have "in_lang r s \<Longrightarrow> s = [] \<Longrightarrow> nullable r" for s
    by (induction rule: in_lang.induct) auto
  then show "in_lang r [] \<Longrightarrow> nullable r" by blast
  show "nullable r \<Longrightarrow> in_lang r []"
    by (induction r) (auto intro: in_lang.intros lang_Seq [of _ "[]" _ "[]", simplified])
qed

lemma lang_Star_Cons:
  "in_lang (Star r) (c # s) \<Longrightarrow> \<exists>u v. s = u @ v \<and> in_lang r (c # u) \<and> in_lang (Star r) v"
proof -
  have "in_lang q w \<Longrightarrow> q = Star r \<Longrightarrow> w = c # s \<Longrightarrow>
      \<exists>u v. s = u @ v \<and> in_lang r (c # u) \<and> in_lang (Star r) v" for q w
    by (induction arbitrary: s rule: in_lang.induct) (auto simp: append_eq_Cons_conv)
  then show "in_lang (Star r) (c # s) \<Longrightarrow> \<exists>u v. s = u @ v \<and> in_lang r (c # u) \<and> in_lang (Star r) v"
    by blast
qed

lemma in_lang_deriv: "in_lang r (c # s) \<longleftrightarrow> in_lang (deriv c r) s"
proof (induction r arbitrary: s)
  case (Seq r q)
  have "in_lang (Seq r q) (c # s) \<longleftrightarrow>
      nullable r \<and> in_lang q (c # s) \<or> (\<exists>u v. s = u @ v \<and> in_lang r (c # u) \<and> in_lang q v)"
    (is "?l \<longleftrightarrow> ?r")
  proof
    show "?l \<Longrightarrow> ?r" by (auto simp: Cons_eq_append_conv in_lang_Nil)
    show "?r \<Longrightarrow> ?l"
      using lang_Seq [of r "[]" q "c # s"] lang_Seq [of r "c # u" q v for u v]
      by (auto simp: in_lang_Nil)
  qed
  then show ?case
    using Seq.IH by (auto intro: in_lang.intros)
next
  case (Star r)
  have "in_lang (Star r) (c # s) \<longleftrightarrow>
      (\<exists>u v. s = u @ v \<and> in_lang r (c # u) \<and> in_lang (Star r) v)"
    using lang_Star_Cons [of r c s] lang_StarCons [of r "c # u" v for u v] by auto
  then show ?case
    using Star.IH by (auto intro: in_lang.intros)
qed (auto intro: in_lang.intros)

lemma MatchString_iff: "MatchString r s \<longleftrightarrow> in_lang r s"
  by (induction s arbitrary: r) (simp_all add: in_lang_Nil in_lang_deriv)

section \<open>Languages of the shapes the patterns have\<close>

lemma in_lang_Star_Cls: "in_lang (Star (Cls p)) s \<longleftrightarrow> list_all p s"
proof
  have "in_lang r s \<Longrightarrow> r = Star (Cls p) \<Longrightarrow> list_all p s" for r
    by (induction rule: in_lang.induct) auto
  then show "in_lang (Star (Cls p)) s \<Longrightarrow> list_all p s" by blast
  show "list_all p s \<Longrightarrow> in_lang (Star (Cls p)) s"
  proof (induction s)
    case (Cons c s)
    then show ?case using lang_StarCons [OF lang_Cls, of p c s] by simp
  qed (rule lang_StarNil)
qed

definition ident_like :: "(char \<Rightarrow> bool) \<Rightarrow> (char \<Rightarrow> bool) \<Rightarrow> string \<Rightarrow> bool" where
  "ident_like p q s \<longleftrightarrow> (case s of [] \<Rightarrow> False | c # t \<Rightarrow> p c \<and> list_all q t)"

lemma in_lang_ident: "in_lang (Seq (Cls p) (Star (Cls q))) s \<longleftrightarrow> ident_like p q s"
proof
  show "in_lang (Seq (Cls p) (Star (Cls q))) s \<Longrightarrow> ident_like p q s"
    by (auto simp: ident_like_def in_lang_Star_Cls)
  show "ident_like p q s \<Longrightarrow> in_lang (Seq (Cls p) (Star (Cls q))) s"
    using lang_Seq [OF lang_Cls, of p _ "Star (Cls q)"]
    by (auto simp: ident_like_def in_lang_Star_Cls split: list.splits)
qed

section \<open>Split\<close>

lemma strings_Split_nonempty [simp]: "strings_Split s sep \<noteq> []"
  by (induction s) (auto split: list.splits)

text \<open>Joining the parts again gives the string back, and no part contains the separator.\<close>

fun join_with :: "char \<Rightarrow> string list \<Rightarrow> string" where
  "join_with sep [] = []"
| "join_with sep [p] = p"
| "join_with sep (p # ps) = p @ sep # join_with sep ps"

lemma join_with_Cons: "ps \<noteq> [] \<Longrightarrow> join_with sep (p # ps) = p @ sep # join_with sep ps"
  by (cases ps) simp_all

lemma join_with_Split: "join_with sep (strings_Split s sep) = s"
proof (induction s)
  case (Cons c s)
  obtain p ps where "strings_Split s sep = p # ps"
    by (cases "strings_Split s sep") auto
  with Cons show ?case
    by (cases ps) (auto simp: join_with_Cons)
qed simp

lemma strings_Split_no_sep: "p \<in> set (strings_Split s sep) \<Longrightarrow> sep \<notin> set p"
  by (induction s arbitrary: p) (auto split: list.splits if_splits)

lemma strings_Split_append:
  "sep \<notin> set p \<Longrightarrow> strings_Split (p @ sep # s) sep = p # strings_Split s sep"
  by (induction p) auto

lemma strings_Split_single: "sep \<notin> set p \<Longrightarrow> strings_Split p sep = [p]"
  by (induction p) auto

lemma strings_Split_join:
  "ps \<noteq> [] \<Longrightarrow> (\<And>p. p \<in> set ps \<Longrightarrow> sep \<notin> set p) \<Longrightarrow> strings_Split (join_with sep ps) sep = ps"
  by (induction ps rule: join_with.induct) (auto simp: strings_Split_single strings_Split_append)

end
