(* ===== verification/Go_Json.thy ===== *)
theory Go_Json
  imports Go_Regexp
begin

text \<open>
  What the runtime uses of Go's \<^verbatim>\<open>encoding/json\<close>: the byte scanner with its states, its stack and
  its nesting limit (\<open>json.Valid\<close> and the syntax check of \<open>json.Unmarshal\<close>), the compaction with
  HTML escaping that \<open>json.Marshal\<close> applies to a \<open>json.RawMessage\<close>, the quoting and unquoting of
  strings, decimal integers, base64 for \<^verbatim>\<open>[]byte\<close>, and the encoding and decoding of structs.
  Errors of the package are \<open>LibError\<close> values.
\<close>

section \<open>The scanner\<close>

abbreviation DQ :: char where "DQ \<equiv> CHR 0x22"
abbreviation BS :: char where "BS \<equiv> CHR 0x5C"

definition is_space :: "char \<Rightarrow> bool" where
  "is_space c \<longleftrightarrow> c = CHR 0x20 \<or> c = CHR 0x09 \<or> c = CHR 0x0D \<or> c = CHR 0x0A"

definition is_hex :: "char \<Rightarrow> bool" where
  "is_hex c \<longleftrightarrow> is_digit c \<or> CHR ''a'' \<le> c \<and> c \<le> CHR ''f'' \<or> CHR ''A'' \<le> c \<and> c \<le> CHR ''F''"

datatype jframe = ParseObjectKey | ParseObjectValue | ParseArrayValue

datatype jstate =
    BeginValue | BeginValueOrEmpty | BeginStringOrEmpty | BeginString | EndValue | EndTop
  | InString | InStringEsc | InStringEscU | InStringEscU1 | InStringEscU12 | InStringEscU123
  | SNeg | S1 | S0 | SDot | SDot0 | SE | SESign | SE0
  | ST | STr | STru | SF | SFa | SFal | SFals | SN | SNu | SNul
  | ScanError

type_synonym jconf = "jstate \<times> jframe list"

definition maxNestingDepth :: nat where
  "maxNestingDepth = 10000"

definition scan_fail :: jconf where
  "scan_fail = (ScanError, [])"

definition pushParseState :: "jframe \<Rightarrow> jframe list \<Rightarrow> jstate \<Rightarrow> jconf" where
  "pushParseState f fs st = (if length fs < maxNestingDepth then (st, f # fs) else scan_fail)"

definition popParseState :: "jframe list \<Rightarrow> jconf" where
  "popParseState fs = (if fs = [] then (EndTop, []) else (EndValue, fs))"

fun endValue :: "jframe list \<Rightarrow> char \<Rightarrow> jconf" where
  "endValue [] c = (if is_space c then (EndTop, []) else scan_fail)"
| "endValue (ParseObjectKey # fs) c =
     (if is_space c then (EndValue, ParseObjectKey # fs)
      else if c = CHR '':'' then (BeginValue, ParseObjectValue # fs) else scan_fail)"
| "endValue (ParseObjectValue # fs) c =
     (if is_space c then (EndValue, ParseObjectValue # fs)
      else if c = CHR '','' then (BeginString, ParseObjectKey # fs)
      else if c = CHR ''}'' then popParseState fs else scan_fail)"
| "endValue (ParseArrayValue # fs) c =
     (if is_space c then (EndValue, ParseArrayValue # fs)
      else if c = CHR '','' then (BeginValue, ParseArrayValue # fs)
      else if c = CHR '']'' then popParseState fs else scan_fail)"

definition beginValue :: "jstate \<Rightarrow> jframe list \<Rightarrow> char \<Rightarrow> jconf" where
  "beginValue st fs c =
     (if is_space c then (st, fs)
      else if c = CHR ''{'' then pushParseState ParseObjectKey fs BeginStringOrEmpty
      else if c = CHR ''['' then pushParseState ParseArrayValue fs BeginValueOrEmpty
      else if c = DQ then (InString, fs)
      else if c = CHR ''-'' then (SNeg, fs)
      else if c = CHR ''0'' then (S0, fs)
      else if c = CHR ''t'' then (ST, fs)
      else if c = CHR ''f'' then (SF, fs)
      else if c = CHR ''n'' then (SN, fs)
      else if is_digit c then (S1, fs) else scan_fail)"

definition beginString :: "jstate \<Rightarrow> jframe list \<Rightarrow> char \<Rightarrow> jconf" where
  "beginString st fs c =
     (if is_space c then (st, fs) else if c = DQ then (InString, fs) else scan_fail)"

definition scan_expect :: "bool \<Rightarrow> jstate \<Rightarrow> jframe list \<Rightarrow> jconf" where
  "scan_expect ok st fs = (if ok then (st, fs) else scan_fail)"

text \<open>One step of the scanner: the state function of the current state applied to the next byte.\<close>

fun scan_step :: "jconf \<Rightarrow> char \<Rightarrow> jconf" where
  "scan_step (BeginValue, fs) c = beginValue BeginValue fs c"
| "scan_step (BeginValueOrEmpty, fs) c =
     (if \<not> is_space c \<and> c = CHR '']'' then endValue fs c else beginValue BeginValueOrEmpty fs c)"
| "scan_step (BeginStringOrEmpty, fs) c =
     (if \<not> is_space c \<and> c = CHR ''}'' then endValue (ParseObjectValue # tl fs) c
      else beginString BeginStringOrEmpty fs c)"
| "scan_step (BeginString, fs) c = beginString BeginString fs c"
| "scan_step (EndValue, fs) c = endValue fs c"
| "scan_step (EndTop, fs) c = scan_expect (is_space c) EndTop fs"
| "scan_step (InString, fs) c =
     (if c = DQ then (EndValue, fs) else if c = BS then (InStringEsc, fs)
      else scan_expect (CHR 0x20 \<le> c) InString fs)"
| "scan_step (InStringEsc, fs) c =
     (if c = CHR ''u'' then (InStringEscU, fs)
      else scan_expect (c \<in> set (DQ # BS # ''/bfnrt'')) InString fs)"
| "scan_step (InStringEscU, fs) c = scan_expect (is_hex c) InStringEscU1 fs"
| "scan_step (InStringEscU1, fs) c = scan_expect (is_hex c) InStringEscU12 fs"
| "scan_step (InStringEscU12, fs) c = scan_expect (is_hex c) InStringEscU123 fs"
| "scan_step (InStringEscU123, fs) c = scan_expect (is_hex c) InString fs"
| "scan_step (SNeg, fs) c = (if c = CHR ''0'' then (S0, fs) else scan_expect (is_digit c) S1 fs)"
| "scan_step (S1, fs) c =
     (if is_digit c then (S1, fs) else if c = CHR ''.'' then (SDot, fs)
      else if c = CHR ''e'' \<or> c = CHR ''E'' then (SE, fs) else endValue fs c)"
| "scan_step (S0, fs) c =
     (if c = CHR ''.'' then (SDot, fs)
      else if c = CHR ''e'' \<or> c = CHR ''E'' then (SE, fs) else endValue fs c)"
| "scan_step (SDot, fs) c = scan_expect (is_digit c) SDot0 fs"
| "scan_step (SDot0, fs) c =
     (if is_digit c then (SDot0, fs)
      else if c = CHR ''e'' \<or> c = CHR ''E'' then (SE, fs) else endValue fs c)"
| "scan_step (SE, fs) c =
     (if c = CHR ''+'' \<or> c = CHR ''-'' then (SESign, fs) else scan_expect (is_digit c) SE0 fs)"
| "scan_step (SESign, fs) c = scan_expect (is_digit c) SE0 fs"
| "scan_step (SE0, fs) c = (if is_digit c then (SE0, fs) else endValue fs c)"
| "scan_step (ST, fs) c = scan_expect (c = CHR ''r'') STr fs"
| "scan_step (STr, fs) c = scan_expect (c = CHR ''u'') STru fs"
| "scan_step (STru, fs) c = scan_expect (c = CHR ''e'') EndValue fs"
| "scan_step (SF, fs) c = scan_expect (c = CHR ''a'') SFa fs"
| "scan_step (SFa, fs) c = scan_expect (c = CHR ''l'') SFal fs"
| "scan_step (SFal, fs) c = scan_expect (c = CHR ''s'') SFals fs"
| "scan_step (SFals, fs) c = scan_expect (c = CHR ''e'') EndValue fs"
| "scan_step (SN, fs) c = scan_expect (c = CHR ''u'') SNu fs"
| "scan_step (SNu, fs) c = scan_expect (c = CHR ''l'') SNul fs"
| "scan_step (SNul, fs) c = scan_expect (c = CHR ''l'') EndValue fs"
| "scan_step (ScanError, fs) c = scan_fail"

fun scan_run :: "jconf \<Rightarrow> string \<Rightarrow> jconf" where
  "scan_run k [] = k"
| "scan_run k (c # s) = scan_run (scan_step k c) s"

text \<open>
  \<^verbatim>\<open>json.Valid\<close>: every byte is accepted and the end of the input, which the scanner tries as one
  more space, completes the top-level value.
\<close>

definition json_Valid :: "bytes \<Rightarrow> bool" where
  "json_Valid s \<longleftrightarrow> fst (scan_step (scan_run (BeginValue, []) s) CHR 0x20) = EndTop"

section \<open>Compaction\<close>

definition in_string :: "jstate \<Rightarrow> bool" where
  "in_string st \<longleftrightarrow>
     st \<in> {InString, InStringEsc, InStringEscU, InStringEscU1, InStringEscU12, InStringEscU123}"

definition hexdigit :: "nat \<Rightarrow> char" where
  "hexdigit n = ''0123456789abcdef'' ! (n mod 16)"

definition u00 :: "char \<Rightarrow> string" where
  "u00 c = BS # ''u00'' @ [hexdigit (of_char c div 16), hexdigit (of_char c)]"

definition html_unsafe :: "char \<Rightarrow> bool" where
  "html_unsafe c \<longleftrightarrow> c = CHR ''<'' \<or> c = CHR ''>'' \<or> c = CHR ''&''"

text \<open>
  \<^verbatim>\<open>appendCompact(\<dots>, escape=true)\<close>: the bytes the scanner skips as space are dropped, the HTML
  characters and the separators U+2028 and U+2029 (\<open>E2 80 A8\<close> and \<open>E2 80 A9\<close>) are escaped.
\<close>

fun json_compact :: "jconf \<Rightarrow> bytes \<Rightarrow> bytes" where
  "json_compact k [] = []"
| "json_compact k (c # s) =
     (if is_space c \<and> \<not> in_string (fst k) then json_compact (scan_step k c) s
      else if html_unsafe c then u00 c @ json_compact (scan_step k c) s
      else if c = CHR 0xE2 \<and> take 2 s = [CHR 0x80, CHR 0xA8]
        then BS # ''u2028'' @ json_compact (scan_run k (c # take 2 s)) (drop 2 s)
      else if c = CHR 0xE2 \<and> take 2 s = [CHR 0x80, CHR 0xA9]
        then BS # ''u2029'' @ json_compact (scan_run k (c # take 2 s)) (drop 2 s)
      else c # json_compact (scan_step k c) s)"

text \<open>\<^verbatim>\<open>json.Marshal\<close> of a \<^verbatim>\<open>json.RawMessage\<close> field: nil is \<open>null\<close>, invalid text is an error.\<close>

definition marshal_RawMessage :: "bytes \<Rightarrow> bytes result" where
  "marshal_RawMessage m =
     (if m = [] then Inr ''null''
      else if json_Valid m then Inr (json_compact (BeginValue, []) m)
      else Inl (LibError ''json: error calling MarshalJSON for type json.RawMessage''))"

section \<open>Strings\<close>

definition in_range :: "nat \<Rightarrow> nat \<Rightarrow> char \<Rightarrow> bool" where
  "in_range lo hi c \<longleftrightarrow> lo \<le> of_char c \<and> of_char c \<le> hi"

text \<open>The length of the well-formed UTF-8 sequence at the head of a string, 0 if there is none.\<close>

definition utf8_len :: "string \<Rightarrow> nat" where
  "utf8_len s =
     (case s of
        [] \<Rightarrow> 0
      | c # t \<Rightarrow>
          (let cont = (\<lambda>lo hi i. i < length t \<and> in_range lo hi (t ! i)) in
           if in_range 0 0x7F c then 1
           else if in_range 0xC2 0xDF c then (if cont 0x80 0xBF 0 then 2 else 0)
           else if in_range 0xE0 0xEF c then
             (if cont (if in_range 0xE0 0xE0 c then 0xA0 else 0x80)
                   (if in_range 0xED 0xED c then 0x9F else 0xBF) 0
                 \<and> cont 0x80 0xBF 1 then 3 else 0)
           else if in_range 0xF0 0xF4 c then
             (if cont (if in_range 0xF0 0xF0 c then 0x90 else 0x80)
                   (if in_range 0xF4 0xF4 c then 0x8F else 0xBF) 0
                 \<and> cont 0x80 0xBF 1 \<and> cont 0x80 0xBF 2 then 4 else 0)
           else 0))"

text \<open>\<^verbatim>\<open>appendString\<close> with HTML escaping, without the quotes.\<close>

definition quote_ascii :: "char \<Rightarrow> string" where
  "quote_ascii c =
     (if c = DQ \<or> c = BS then [BS, c]
      else if c = CHR 0x08 then BS # ''b'' else if c = CHR 0x0C then BS # ''f''
      else if c = CHR 0x0A then BS # ''n'' else if c = CHR 0x0D then BS # ''r''
      else if c = CHR 0x09 then BS # ''t''
      else if of_char c < (0x20::nat) \<or> html_unsafe c then u00 c else [c])"

fun quote_body :: "string \<Rightarrow> string" where
  "quote_body [] = []"
| "quote_body (c # s) =
     (if of_char c < (0x80::nat) then quote_ascii c @ quote_body s
      else (let n = utf8_len (c # s) in
            if n = 0 then BS # ''ufffd'' @ quote_body s
            else if take n (c # s) = [CHR 0xE2, CHR 0x80, CHR 0xA8]
              then BS # ''u2028'' @ quote_body (drop (n - 1) s)
            else if take n (c # s) = [CHR 0xE2, CHR 0x80, CHR 0xA9]
              then BS # ''u2029'' @ quote_body (drop (n - 1) s)
            else take n (c # s) @ quote_body (drop (n - 1) s)))"

definition json_quote :: "string \<Rightarrow> bytes" where
  "json_quote s = DQ # quote_body s @ [DQ]"

definition utf8_encode :: "nat \<Rightarrow> string" where
  "utf8_encode r =
     (if r < 0x80 then [char_of r]
      else if r < 0x800 then [char_of (0xC0 + r div 0x40), char_of (0x80 + r mod 0x40)]
      else if r < 0x10000 then
        [char_of (0xE0 + r div 0x1000), char_of (0x80 + r div 0x40 mod 0x40),
         char_of (0x80 + r mod 0x40)]
      else
        [char_of (0xF0 + r div 0x40000), char_of (0x80 + r div 0x1000 mod 0x40),
         char_of (0x80 + r div 0x40 mod 0x40), char_of (0x80 + r mod 0x40)])"

definition hexval :: "char \<Rightarrow> nat" where
  "hexval c =
     (if is_digit c then of_char c - 48
      else if CHR ''a'' \<le> c then of_char c - 87 else of_char c - 55)"

definition hex4 :: "string \<Rightarrow> nat" where
  "hex4 s = foldl (\<lambda>n c. 16 * n + hexval c) 0 (take 4 s)"

definition unesc :: "char \<Rightarrow> char" where
  "unesc c =
     (if c = CHR ''b'' then CHR 0x08 else if c = CHR ''f'' then CHR 0x0C
      else if c = CHR ''n'' then CHR 0x0A else if c = CHR ''r'' then CHR 0x0D
      else if c = CHR ''t'' then CHR 0x09 else c)"

definition RuneError :: string where
  "RuneError = [CHR 0xEF, CHR 0xBF, CHR 0xBD]"

text \<open>
  \<^verbatim>\<open>unquote\<close> on the text between the quotes of a literal the scanner has accepted: escapes, the
  surrogate pairs of \<open>\u\<close> escapes, and the replacement of ill-formed UTF-8 by U+FFFD.
\<close>

fun unquote_body :: "string \<Rightarrow> string" where
  "unquote_body [] = []"
| "unquote_body (c # s) =
     (if c = BS then
        (if s = [] then []
         else if hd s = CHR ''u'' then
           (let r = hex4 (tl s); t = drop 5 s in
            if 0xD800 \<le> r \<and> r \<le> 0xDFFF then
              (if r < 0xDC00 \<and> take 2 t = [BS, CHR ''u''] \<and> 6 \<le> length t
                  \<and> 0xDC00 \<le> hex4 (drop 2 t) \<and> hex4 (drop 2 t) \<le> 0xDFFF
               then utf8_encode (0x10000 + (r - 0xD800) * 0x400 + (hex4 (drop 2 t) - 0xDC00))
                 @ unquote_body (drop 6 t)
               else RuneError @ unquote_body t)
            else utf8_encode r @ unquote_body t)
         else unesc (hd s) # unquote_body (tl s))
      else if of_char c < (0x80::nat) then c # unquote_body s
      else (let n = utf8_len (c # s) in
            if n = 0 then RuneError @ unquote_body s
            else take n (c # s) @ unquote_body (drop (n - 1) s)))"

section \<open>Integers and bytes\<close>

fun nat_dec :: "nat \<Rightarrow> string" where
  "nat_dec n = (if n < 10 then [char_of (48 + n)] else nat_dec (n div 10) @ [char_of (48 + n mod 10)])"

declare nat_dec.simps [simp del]

definition int_dec :: "int \<Rightarrow> string" where
  "int_dec i = (if i < 0 then CHR ''-'' # nat_dec (nat (- i)) else nat_dec (nat i))"

definition dec_nat :: "string \<Rightarrow> nat" where
  "dec_nat s = foldl (\<lambda>n c. 10 * n + (of_char c - 48)) 0 s"

definition strconv_ParseInt :: "string \<Rightarrow> int option" where
  "strconv_ParseInt s =
     (let (neg, ds) = (if s \<noteq> [] \<and> hd s = CHR ''-'' then (True, tl s) else (False, s));
          i = (if neg then - int (dec_nat ds) else int (dec_nat ds))
      in if ds \<noteq> [] \<and> list_all is_digit ds \<and> int64_range i then Some i else None)"

definition strconv_ParseUint :: "string \<Rightarrow> nat option" where
  "strconv_ParseUint s =
     (if s \<noteq> [] \<and> list_all is_digit s \<and> dec_nat s < 2 ^ 64 then Some (dec_nat s) else None)"

definition b64_alphabet :: string where
  "b64_alphabet = ''ABCDEFGHIJKLMNOPQRSTUVWXYZabcdefghijklmnopqrstuvwxyz0123456789+/''"

definition b64_char :: "nat \<Rightarrow> char" where
  "b64_char n = b64_alphabet ! (n mod 64)"

fun b64_index :: "string \<Rightarrow> char \<Rightarrow> nat option" where
  "b64_index [] c = None"
| "b64_index (a # as) c = (if a = c then Some 0 else map_option Suc (b64_index as c))"

fun b64_encode :: "bytes \<Rightarrow> string" where
  "b64_encode [] = []"
| "b64_encode [a] =
     (let n = 0x10000 * of_char a in [b64_char (n div 0x40000), b64_char (n div 0x1000)] @ ''=='')"
| "b64_encode [a, b] =
     (let n = 0x10000 * of_char a + 0x100 * of_char b
      in [b64_char (n div 0x40000), b64_char (n div 0x1000), b64_char (n div 0x40)] @ ''='')"
| "b64_encode (a # b # c # s) =
     (let n = 0x10000 * of_char a + 0x100 * of_char b + of_char c
      in [b64_char (n div 0x40000), b64_char (n div 0x1000), b64_char (n div 0x40), b64_char n]
         @ b64_encode s)"

fun b64_decode :: "string \<Rightarrow> bytes option" where
  "b64_decode [] = Some []"
| "b64_decode (a # b # c # d # s) =
     (case (b64_index b64_alphabet a, b64_index b64_alphabet b) of
        (Some i, Some j) \<Rightarrow>
          (if c = CHR ''='' then
             (if d = CHR ''='' \<and> s = [] then Some [char_of (i * 4 + j div 16)] else None)
           else (case b64_index b64_alphabet c of
                   None \<Rightarrow> None
                 | Some k \<Rightarrow>
                     (let two = [char_of (i * 4 + j div 16), char_of (j mod 16 * 16 + k div 4)] in
                      if d = CHR ''='' then (if s = [] then Some two else None)
                      else (case (b64_index b64_alphabet d, b64_decode s) of
                              (Some l, Some r) \<Rightarrow> Some (two @ char_of (k mod 4 * 64 + l) # r)
                            | _ \<Rightarrow> None))))
      | _ \<Rightarrow> None)"
| "b64_decode s = None"

section \<open>Structs\<close>

text \<open>The encoder writes the members in field order, without spaces.\<close>

definition json_member :: "string \<times> bytes \<Rightarrow> bytes" where
  "json_member kv = json_quote (fst kv) @ CHR '':'' # snd kv"

definition json_object :: "(string \<times> bytes) list \<Rightarrow> bytes" where
  "json_object kvs = CHR ''{'' # join_with CHR '','' (map json_member kvs) @ ''}''"

definition json_bytes :: "bytes \<Rightarrow> bytes" where
  "json_bytes b = DQ # b64_encode b @ [DQ]"

text \<open>
  The decoder works on text the scanner has accepted. \<open>split_top\<close> cuts such a text at a byte that
  stands outside every string, object and array.
\<close>

definition split_next :: "nat \<times> bool \<times> bool \<Rightarrow> char \<Rightarrow> nat \<times> bool \<times> bool" where
  "split_next k c =
     (case k of (d, q, e) \<Rightarrow>
        if q then
          (if e then (d, True, False) else if c = BS then (d, True, True) else (d, c \<noteq> DQ, False))
        else if c = DQ then (d, True, False)
        else if c = CHR ''{'' \<or> c = CHR ''['' then (Suc d, False, False)
        else if c = CHR ''}'' \<or> c = CHR '']'' then (d - 1, False, False)
        else (d, False, False))"

fun split_top :: "nat \<times> bool \<times> bool \<Rightarrow> char \<Rightarrow> bytes \<Rightarrow> bytes list" where
  "split_top k sep [] = [[]]"
| "split_top k sep (c # s) =
     (if fst k = 0 \<and> \<not> fst (snd k) \<and> c = sep then [] # split_top k sep s
      else (case split_top (split_next k c) sep s of
              [] \<Rightarrow> [[c]]
            | p # ps \<Rightarrow> (c # p) # ps))"

definition json_trim :: "bytes \<Rightarrow> bytes" where
  "json_trim s = rev (dropWhile is_space (rev (dropWhile is_space s)))"

definition unquote_literal :: "bytes \<Rightarrow> string" where
  "unquote_literal s = unquote_body (butlast (tl s))"

definition parse_member :: "bytes \<Rightarrow> string \<times> bytes" where
  "parse_member m =
     (case split_top (0, False, False) CHR '':'' m of
        [k, v] \<Rightarrow> (unquote_literal (json_trim k), json_trim v)
      | _ \<Rightarrow> ([], []))"

text \<open>The members of an object's text: the decoded key and the raw text of the value.\<close>

definition object_members :: "bytes \<Rightarrow> (string \<times> bytes) list" where
  "object_members s =
     (let body = butlast (tl s) in
      if json_trim body = [] then [] else map parse_member (split_top (0, False, False) CHR '','' body))"

text \<open>
  Field names match exactly or, failing that, up to case folding (ASCII letters, the long s and
  the Kelvin sign).
\<close>

definition ascii_lower :: "char \<Rightarrow> char" where
  "ascii_lower c =
     (if CHR ''A'' \<le> c \<and> c \<le> CHR ''Z'' then char_of (of_char c + (32::nat)) else c)"

fun fold_name :: "string \<Rightarrow> string" where
  "fold_name [] = []"
| "fold_name (c # s) =
     (if c = CHR 0xC5 \<and> take 1 s = [CHR 0xBF] then CHR ''s'' # fold_name (drop 1 s)
      else if c = CHR 0xE2 \<and> take 2 s = [CHR 0x84, CHR 0xAA] then CHR ''k'' # fold_name (drop 2 s)
      else ascii_lower c # fold_name s)"

definition match_field :: "string list \<Rightarrow> string \<Rightarrow> string option" where
  "match_field names k =
     (if k \<in> set names then Some k else find (\<lambda>n. fold_name n = fold_name k) names)"

definition type_error :: "string \<Rightarrow> go_error" where
  "type_error t = LibError (''json: cannot unmarshal into Go value of type '' @ t)"

definition is_null :: "bytes \<Rightarrow> bool" where
  "is_null raw \<longleftrightarrow> raw = ''null''"

definition dec_string :: "bytes \<Rightarrow> string \<Rightarrow> string result" where
  "dec_string raw cur =
     (if is_null raw then Inr cur
      else if raw \<noteq> [] \<and> hd raw = DQ then Inr (unquote_literal raw)
      else Inl (type_error ''string''))"

definition dec_int64 :: "bytes \<Rightarrow> int \<Rightarrow> int result" where
  "dec_int64 raw cur =
     (if is_null raw then Inr cur
      else (case strconv_ParseInt raw of Some i \<Rightarrow> Inr i | None \<Rightarrow> Inl (type_error ''int64'')))"

definition dec_uint64 :: "bytes \<Rightarrow> nat \<Rightarrow> nat result" where
  "dec_uint64 raw cur =
     (if is_null raw then Inr cur
      else (case strconv_ParseUint raw of Some i \<Rightarrow> Inr i | None \<Rightarrow> Inl (type_error ''uint64'')))"

definition dec_bool :: "bytes \<Rightarrow> bool \<Rightarrow> bool result" where
  "dec_bool raw cur =
     (if is_null raw then Inr cur else if raw = ''true'' then Inr True
      else if raw = ''false'' then Inr False else Inl (type_error ''bool''))"

definition dec_bytes :: "bytes \<Rightarrow> bytes \<Rightarrow> bytes result" where
  "dec_bytes raw cur =
     (if is_null raw then Inr []
      else if raw \<noteq> [] \<and> hd raw = DQ then
        (case b64_decode (filter (\<lambda>c. c \<noteq> CHR 0x0D \<and> c \<noteq> CHR 0x0A) (unquote_literal raw)) of
           Some b \<Rightarrow> Inr b
         | None \<Rightarrow> Inl (LibError ''illegal base64 data''))
      else Inl (type_error ''[]uint8''))"

definition dec_raw :: "bytes \<Rightarrow> bytes \<Rightarrow> bytes result" where
  "dec_raw raw cur = Inr raw"

text \<open>
  Decoding a struct stores every member it can and reports the first error at the end. \<open>store\<close>
  stores the raw value of a known field; with \<open>strict\<close> (\<^verbatim>\<open>DisallowUnknownFields\<close>) an unknown one
  is an error.
\<close>

fun dec_members ::
  "bool \<Rightarrow> string list \<Rightarrow> (string \<Rightarrow> bytes \<Rightarrow> 'r \<Rightarrow> 'r result) \<Rightarrow> (string \<times> bytes) list \<Rightarrow> 'r
    \<Rightarrow> go_error option \<Rightarrow> 'r result" where
  "dec_members strict names store [] r err = (case err of None \<Rightarrow> Inr r | Some e \<Rightarrow> Inl e)"
| "dec_members strict names store ((k, raw) # ms) r err =
     (let save = (\<lambda>e. case err of None \<Rightarrow> Some e | Some e0 \<Rightarrow> Some e0) in
      case match_field names k of
        None \<Rightarrow>
          dec_members strict names store ms r
            (if strict then save (LibError (''json: unknown field '' @ k)) else err)
      | Some n \<Rightarrow>
          (case store n raw r of
             Inl e \<Rightarrow> dec_members strict names store ms r (save e)
           | Inr r' \<Rightarrow> dec_members strict names store ms r' err))"

definition dec_struct ::
  "bool \<Rightarrow> string list \<Rightarrow> (string \<Rightarrow> bytes \<Rightarrow> 'r \<Rightarrow> 'r result) \<Rightarrow> bytes \<Rightarrow> 'r \<Rightarrow> 'r result" where
  "dec_struct strict names store raw cur =
     (if is_null raw then Inr cur
      else if raw \<noteq> [] \<and> hd raw = CHR ''{''
        then dec_members strict names store (object_members raw) cur None
      else Inl (type_error ''struct''))"

definition json_Unmarshal ::
  "bool \<Rightarrow> string list \<Rightarrow> (string \<Rightarrow> bytes \<Rightarrow> 'r \<Rightarrow> 'r result) \<Rightarrow> bytes \<Rightarrow> 'r \<Rightarrow> 'r result" where
  "json_Unmarshal strict names store s zero =
     (if json_Valid s then dec_struct strict names store (json_trim s) zero
      else Inl (LibError ''json: syntax error''))"

end
