(* ===== verification/UbiQ_Model.thy ===== *)
theory UbiQ_Model
  imports Go_Json
begin

text \<open>
  The data model of the runtime (\<^verbatim>\<open>model.go\<close>, with the security attachments an envelope carries
  from \<^verbatim>\<open>crypto.go\<close> and \<^verbatim>\<open>secure_transport.go\<close>): canonical event names and their states,
  envelopes with their validation, JSON form and digest, leases and control frames.
  SHA-256 is an argument (\<open>sha256\<close>) of the digest functions.
\<close>

section \<open>Definitions\<close>

subsection \<open>Enumerations\<close>

text \<open>
  Event states, guarantees and control kinds arrive in JSON as arbitrary strings, which the code
  compares with its constants. Delivery states are only written by the control store.
\<close>

type_synonym EventState = string

definition StateRequest :: EventState where "StateRequest = ''request''"
definition StateOK :: EventState where "StateOK = ''ok''"
definition StateError :: EventState where "StateError = ''error''"

type_synonym DeliveryGuarantee = string

definition GuaranteeBestEffort :: DeliveryGuarantee where
  "GuaranteeBestEffort = ''best_effort''"
definition GuaranteeReceived :: DeliveryGuarantee where
  "GuaranteeReceived = ''received''"
definition GuaranteeProcessed :: DeliveryGuarantee where
  "GuaranteeProcessed = ''processed''"

datatype DeliveryState =
    DeliveryPublished
  | DeliveryLeased
  | DeliveryReceived
  | DeliverySettledOK
  | DeliverySettledError
  | DeliveryExpired

type_synonym ControlKind = string

definition ControlReceived :: ControlKind where "ControlReceived = ''RECEIVED''"
definition ControlSettledOK :: ControlKind where "ControlSettledOK = ''SETTLED_OK''"
definition ControlSettledError :: ControlKind where "ControlSettledError = ''SETTLED_ERROR''"
definition ControlLeaseExpired :: ControlKind where "ControlLeaseExpired = ''LEASE_EXPIRED''"

subsection \<open>Structs\<close>

text \<open>A \<^verbatim>\<open>[]byte\<close> whose nil value shows in JSON is an option.\<close>

record HybridSignature =
  sig_Ed25519 :: "bytes option"
  sig_MLDSA44 :: "bytes option"

record ProofOfPossession =
  pop_Holder :: string
  pop_CreatedAtMS :: int
  pop_Nonce :: string
  pop_Method :: string
  pop_Target :: string
  pop_EnvelopeHash :: string
  pop_Signature :: HybridSignature

record MessageSecurity =
  ms_KeyID :: string
  ms_Proof :: ProofOfPossession

record Envelope =
  env_ID :: string
  env_Event :: string
  env_CorrelationID :: string
  env_CausationID :: string
  env_IdempotencyKey :: string
  env_SchemaID :: string
  env_Payload :: bytes
  env_Guarantee :: DeliveryGuarantee
  env_CreatedAtMS :: int
  env_Security :: "MessageSecurity option"

record Lease =
  lease_EventID :: string
  lease_WorkerID :: string
  lease_UntilMS :: int
  lease_Attempt :: int
  lease_FencingToken :: nat

record ControlFrame =
  cf_Kind :: ControlKind
  cf_EventID :: string
  cf_WorkerID :: string
  cf_FencingToken :: nat
  cf_AtMS :: int
  cf_Evidence :: bytes

record ClaimedEvent =
  ce_Envelope :: Envelope
  ce_Lease :: Lease
  ce_State :: DeliveryState

definition zero_Envelope :: Envelope where
  "zero_Envelope =
     \<lparr>env_ID = [], env_Event = [], env_CorrelationID = [], env_CausationID = [],
      env_IdempotencyKey = [], env_SchemaID = [], env_Payload = [], env_Guarantee = [],
      env_CreatedAtMS = 0, env_Security = None\<rparr>"

subsection \<open>Canonical events and validation\<close>

definition is_name_char :: "char \<Rightarrow> bool" where
  "is_name_char c \<longleftrightarrow> is_alpha c \<or> is_digit c \<or> c = CHR ''_'' \<or> c = CHR ''-''"

definition name_rexp :: rexp where
  "name_rexp = Seq (Cls is_alpha) (Star (Cls is_name_char))"

definition canonicalEventPattern :: rexp where
  "canonicalEventPattern = Seq name_rexp (AtLeast2 (Seq (Cls (\<lambda>c. c = CHR ''.'')) name_rexp))"

definition Envelope_State :: "Envelope \<Rightarrow> EventState result" where
  "Envelope_State e =
     (if \<not> MatchString canonicalEventPattern (env_Event e)
      then Inl (Errorf ''invalid canonical event %q'' [env_Event e])
      else (let parts = strings_Split (env_Event e) CHR ''.''; state = last parts in
            if state = StateRequest \<or> state = StateOK \<or> state = StateError then Inr state
            else Inl (Errorf ''invalid event state %q'' [state])))"

definition Envelope_Validate :: "Envelope \<Rightarrow> unit result" where
  "Envelope_Validate e =
     (if env_ID e = [] \<or> env_IdempotencyKey e = [] \<or> env_SchemaID e = [] \<or> env_CorrelationID e = []
      then Inl (errors_New ''id, idempotency_key, schema_id and correlation_id are required'')
      else (case Envelope_State e of
              Inl err \<Rightarrow> Inl err
            | Inr _ \<Rightarrow>
                if \<not> (env_Guarantee e = GuaranteeBestEffort \<or> env_Guarantee e = GuaranteeReceived
                      \<or> env_Guarantee e = GuaranteeProcessed)
                then Inl (Errorf ''invalid guarantee %q'' [env_Guarantee e])
                else if env_Payload e = [] \<or> \<not> json_Valid (env_Payload e)
                then Inl (errors_New ''payload must be valid JSON'')
                else Inr ()))"

subsection \<open>JSON form\<close>

definition slice :: "bytes option \<Rightarrow> bytes" where
  "slice b = (case b of None \<Rightarrow> [] | Some x \<Rightarrow> x)"

definition marshal_bytes :: "bytes option \<Rightarrow> bytes" where
  "marshal_bytes b = (case b of None \<Rightarrow> ''null'' | Some x \<Rightarrow> json_bytes x)"

definition marshal_HybridSignature :: "HybridSignature \<Rightarrow> bytes" where
  "marshal_HybridSignature s =
     json_object [(''ed25519'', marshal_bytes (sig_Ed25519 s)),
       (''mldsa44'', marshal_bytes (sig_MLDSA44 s))]"

definition marshal_ProofOfPossession :: "ProofOfPossession \<Rightarrow> bytes" where
  "marshal_ProofOfPossession p =
     json_object [(''holder'', json_quote (pop_Holder p)),
       (''created_at_ms'', int_dec (pop_CreatedAtMS p)),
       (''nonce'', json_quote (pop_Nonce p)),
       (''method'', json_quote (pop_Method p)),
       (''target'', json_quote (pop_Target p)),
       (''envelope_hash'', json_quote (pop_EnvelopeHash p)),
       (''signature'', marshal_HybridSignature (pop_Signature p))]"

definition marshal_MessageSecurity :: "MessageSecurity \<Rightarrow> bytes" where
  "marshal_MessageSecurity m =
     json_object [(''key_id'', json_quote (ms_KeyID m)),
       (''proof'', marshal_ProofOfPossession (ms_Proof m))]"

definition marshal_Envelope :: "Envelope \<Rightarrow> bytes result" where
  "marshal_Envelope e =
     (case marshal_RawMessage (env_Payload e) of
        Inl err \<Rightarrow> Inl err
      | Inr payload \<Rightarrow>
          Inr (json_object
            ([(''id'', json_quote (env_ID e)),
              (''event'', json_quote (env_Event e)),
              (''correlation_id'', json_quote (env_CorrelationID e)),
              (''causation_id'', json_quote (env_CausationID e)),
              (''idempotency_key'', json_quote (env_IdempotencyKey e)),
              (''schema_id'', json_quote (env_SchemaID e)),
              (''payload'', payload),
              (''guarantee'', json_quote (env_Guarantee e)),
              (''created_at_ms'', int_dec (env_CreatedAtMS e))]
             @ (case env_Security e of
                  None \<Rightarrow> []
                | Some m \<Rightarrow> [(''security'', marshal_MessageSecurity m)]))))"

definition map_result :: "('a \<Rightarrow> 'b) \<Rightarrow> 'a result \<Rightarrow> 'b result" where
  "map_result f r = (case r of Inl e \<Rightarrow> Inl e | Inr x \<Rightarrow> Inr (f x))"

definition dec_slice :: "bytes \<Rightarrow> bytes option \<Rightarrow> bytes option result" where
  "dec_slice raw cur = (if is_null raw then Inr None else map_result Some (dec_bytes raw (slice cur)))"

definition store_HybridSignature ::
  "string \<Rightarrow> bytes \<Rightarrow> HybridSignature \<Rightarrow> HybridSignature result" where
  "store_HybridSignature n raw s =
     (if n = ''ed25519''
      then map_result (\<lambda>v. s\<lparr>sig_Ed25519 := v\<rparr>) (dec_slice raw (sig_Ed25519 s))
      else map_result (\<lambda>v. s\<lparr>sig_MLDSA44 := v\<rparr>) (dec_slice raw (sig_MLDSA44 s)))"

definition store_ProofOfPossession ::
  "bool \<Rightarrow> string \<Rightarrow> bytes \<Rightarrow> ProofOfPossession \<Rightarrow> ProofOfPossession result" where
  "store_ProofOfPossession strict n raw p =
     (if n = ''holder'' then map_result (\<lambda>v. p\<lparr>pop_Holder := v\<rparr>) (dec_string raw (pop_Holder p))
      else if n = ''created_at_ms''
        then map_result (\<lambda>v. p\<lparr>pop_CreatedAtMS := v\<rparr>) (dec_int64 raw (pop_CreatedAtMS p))
      else if n = ''nonce'' then map_result (\<lambda>v. p\<lparr>pop_Nonce := v\<rparr>) (dec_string raw (pop_Nonce p))
      else if n = ''method'' then map_result (\<lambda>v. p\<lparr>pop_Method := v\<rparr>) (dec_string raw (pop_Method p))
      else if n = ''target'' then map_result (\<lambda>v. p\<lparr>pop_Target := v\<rparr>) (dec_string raw (pop_Target p))
      else if n = ''envelope_hash''
        then map_result (\<lambda>v. p\<lparr>pop_EnvelopeHash := v\<rparr>) (dec_string raw (pop_EnvelopeHash p))
      else map_result (\<lambda>v. p\<lparr>pop_Signature := v\<rparr>)
        (dec_struct strict [''ed25519'', ''mldsa44''] store_HybridSignature raw (pop_Signature p)))"

definition store_MessageSecurity ::
  "bool \<Rightarrow> string \<Rightarrow> bytes \<Rightarrow> MessageSecurity \<Rightarrow> MessageSecurity result" where
  "store_MessageSecurity strict n raw m =
     (if n = ''key_id'' then map_result (\<lambda>v. m\<lparr>ms_KeyID := v\<rparr>) (dec_string raw (ms_KeyID m))
      else map_result (\<lambda>v. m\<lparr>ms_Proof := v\<rparr>)
        (dec_struct strict
           [''holder'', ''created_at_ms'', ''nonce'', ''method'', ''target'', ''envelope_hash'',
            ''signature'']
           (store_ProofOfPossession strict) raw (ms_Proof m)))"

definition zero_MessageSecurity :: MessageSecurity where
  "zero_MessageSecurity =
     \<lparr>ms_KeyID = [],
      ms_Proof = \<lparr>pop_Holder = [], pop_CreatedAtMS = 0, pop_Nonce = [], pop_Method = [],
        pop_Target = [], pop_EnvelopeHash = [],
        pop_Signature = \<lparr>sig_Ed25519 = None, sig_MLDSA44 = None\<rparr>\<rparr>\<rparr>"

definition dec_security ::
  "bool \<Rightarrow> bytes \<Rightarrow> MessageSecurity option \<Rightarrow> MessageSecurity option result" where
  "dec_security strict raw cur =
     (if is_null raw then Inr None
      else map_result Some
        (dec_struct strict [''key_id'', ''proof''] (store_MessageSecurity strict) raw
           (case cur of None \<Rightarrow> zero_MessageSecurity | Some m \<Rightarrow> m)))"

definition store_Envelope :: "bool \<Rightarrow> string \<Rightarrow> bytes \<Rightarrow> Envelope \<Rightarrow> Envelope result" where
  "store_Envelope strict n raw e =
     (if n = ''id'' then map_result (\<lambda>v. e\<lparr>env_ID := v\<rparr>) (dec_string raw (env_ID e))
      else if n = ''event'' then map_result (\<lambda>v. e\<lparr>env_Event := v\<rparr>) (dec_string raw (env_Event e))
      else if n = ''correlation_id''
        then map_result (\<lambda>v. e\<lparr>env_CorrelationID := v\<rparr>) (dec_string raw (env_CorrelationID e))
      else if n = ''causation_id''
        then map_result (\<lambda>v. e\<lparr>env_CausationID := v\<rparr>) (dec_string raw (env_CausationID e))
      else if n = ''idempotency_key''
        then map_result (\<lambda>v. e\<lparr>env_IdempotencyKey := v\<rparr>) (dec_string raw (env_IdempotencyKey e))
      else if n = ''schema_id''
        then map_result (\<lambda>v. e\<lparr>env_SchemaID := v\<rparr>) (dec_string raw (env_SchemaID e))
      else if n = ''payload''
        then map_result (\<lambda>v. e\<lparr>env_Payload := v\<rparr>) (dec_raw raw (env_Payload e))
      else if n = ''guarantee''
        then map_result (\<lambda>v. e\<lparr>env_Guarantee := v\<rparr>) (dec_string raw (env_Guarantee e))
      else if n = ''created_at_ms''
        then map_result (\<lambda>v. e\<lparr>env_CreatedAtMS := v\<rparr>) (dec_int64 raw (env_CreatedAtMS e))
      else map_result (\<lambda>v. e\<lparr>env_Security := v\<rparr>) (dec_security strict raw (env_Security e)))"

definition Envelope_fields :: "string list" where
  "Envelope_fields =
     [''id'', ''event'', ''correlation_id'', ''causation_id'', ''idempotency_key'', ''schema_id'',
      ''payload'', ''guarantee'', ''created_at_ms'', ''security'']"

definition unmarshal_Envelope :: "bytes \<Rightarrow> Envelope result" where
  "unmarshal_Envelope raw =
     json_Unmarshal False Envelope_fields (store_Envelope False) raw zero_Envelope"

definition encodeEnvelope :: "Envelope \<Rightarrow> bytes result" where
  "encodeEnvelope env =
     (case Envelope_Validate env of Inl e \<Rightarrow> Inl e | Inr _ \<Rightarrow> marshal_Envelope env)"

definition decodeEnvelope :: "bytes \<Rightarrow> Envelope result" where
  "decodeEnvelope b =
     (case unmarshal_Envelope b of
        Inl e \<Rightarrow> Inl e
      | Inr env \<Rightarrow> (case Envelope_Validate env of Inl e \<Rightarrow> Inl e | Inr _ \<Rightarrow> Inr env))"

subsection \<open>Digest\<close>

definition CanonicalBytes :: "Envelope \<Rightarrow> bytes result" where
  "CanonicalBytes e =
     (case Envelope_Validate e of
        Inl err \<Rightarrow> Inl err
      | Inr _ \<Rightarrow> marshal_Envelope (e\<lparr>env_Security := None\<rparr>))"

definition Digest :: "(bytes \<Rightarrow> bytes) \<Rightarrow> Envelope \<Rightarrow> bytes result" where
  "Digest sha256 e = (case CanonicalBytes e of Inl err \<Rightarrow> Inl err | Inr b \<Rightarrow> Inr (sha256 b))"

definition hex_EncodeToString :: "bytes \<Rightarrow> string" where
  "hex_EncodeToString b = concat (map (\<lambda>c. [hexdigit (of_char c div 16), hexdigit (of_char c)]) b)"

definition DigestHex :: "(bytes \<Rightarrow> bytes) \<Rightarrow> Envelope \<Rightarrow> string result" where
  "DigestHex sha256 e =
     (case Digest sha256 e of Inl err \<Rightarrow> Inl err | Inr d \<Rightarrow> Inr (hex_EncodeToString d))"

subsection \<open>Leases and control frames\<close>

definition Lease_Active :: "Lease \<Rightarrow> instant \<Rightarrow> bool" where
  "Lease_Active l now \<longleftrightarrow> UnixMilli now < lease_UntilMS l"

definition ControlFrame_Validate :: "ControlFrame \<Rightarrow> unit result" where
  "ControlFrame_Validate f =
     (if \<not> (cf_Kind f = ControlReceived \<or> cf_Kind f = ControlSettledOK
           \<or> cf_Kind f = ControlSettledError \<or> cf_Kind f = ControlLeaseExpired)
      then Inl (Errorf ''invalid control kind %q'' [cf_Kind f])
      else if cf_EventID f = [] \<or> cf_WorkerID f = [] \<or> cf_FencingToken f = 0
      then Inl (errors_New ''event_id, worker_id and fencing_token are required'')
      else Inr ())"

section \<open>Properties\<close>

subsection \<open>Canonical event names\<close>

definition event_segment :: "string \<Rightarrow> bool" where
  "event_segment p \<longleftrightarrow> ident_like is_alpha is_name_char p"

definition canonical_name :: "string \<Rightarrow> bool" where
  "canonical_name s \<longleftrightarrow>
     3 \<le> length (strings_Split s CHR ''.'') \<and> list_all event_segment (strings_Split s CHR ''.'')"

lemma dot_not_name_char: "\<not> is_alpha CHR ''.''" "\<not> is_name_char CHR ''.''"
  by (simp_all add: is_alpha_def is_name_char_def is_digit_def less_eq_char_def)

lemma event_segment_no_dot: "event_segment p \<Longrightarrow> CHR ''.'' \<notin> set p"
  using dot_not_name_char
  by (auto simp: event_segment_def ident_like_def list_all_iff split: list.splits)

lemma in_lang_name: "in_lang name_rexp s \<longleftrightarrow> event_segment s"
  by (simp add: name_rexp_def in_lang_ident event_segment_def)

lemma in_lang_dotted:
  "in_lang (Seq (Cls (\<lambda>c. c = CHR ''.'')) name_rexp) s \<longleftrightarrow> (\<exists>p. s = CHR ''.'' # p \<and> event_segment p)"
proof
  show "\<exists>p. s = CHR ''.'' # p \<and> event_segment p \<Longrightarrow>
      in_lang (Seq (Cls (\<lambda>c. c = CHR ''.'')) name_rexp) s"
    using lang_Seq [OF lang_Cls, of "\<lambda>c. c = CHR ''.''" "CHR ''.''" name_rexp]
    by (auto simp: in_lang_name)
qed (auto simp: in_lang_name)

lemma in_lang_dotted_star:
  "in_lang (Star (Seq (Cls (\<lambda>c. c = CHR ''.'')) name_rexp)) s \<longleftrightarrow>
     (\<exists>ps. s = concat (map ((#) CHR ''.'') ps) \<and> list_all event_segment ps)"
  (is "in_lang (Star ?r) s \<longleftrightarrow> _")
proof
  have "in_lang q s \<Longrightarrow> q = Star ?r \<Longrightarrow>
      \<exists>ps. s = concat (map ((#) CHR ''.'') ps) \<and> list_all event_segment ps" for q
  proof (induction rule: in_lang.induct)
    case (lang_StarCons r s t)
    then obtain p ps where "s = CHR ''.'' # p" "event_segment p"
      "t = concat (map ((#) CHR ''.'') ps)" "list_all event_segment ps"
      using in_lang_dotted by auto
    then show ?case by (intro exI [of _ "p # ps"]) simp
  qed (auto intro: exI [of _ "[]"])
  then show "in_lang (Star ?r) s \<Longrightarrow>
      \<exists>ps. s = concat (map ((#) CHR ''.'') ps) \<and> list_all event_segment ps"
    by blast
  have "list_all event_segment ps \<Longrightarrow> in_lang (Star ?r) (concat (map ((#) CHR ''.'') ps))" for ps
  proof (induction ps)
    case (Cons p ps)
    then have "in_lang ?r (CHR ''.'' # p)" by (auto simp: in_lang_dotted)
    from lang_StarCons [OF this, of "concat (map ((#) CHR ''.'') ps)"] Cons show ?case by simp
  qed (simp add: lang_StarNil)
  then show "\<exists>ps. s = concat (map ((#) CHR ''.'') ps) \<and> list_all event_segment ps \<Longrightarrow>
      in_lang (Star ?r) s"
    by blast
qed

lemma join_with_dots: "join_with sep (p # ps) = p @ concat (map ((#) sep) ps)"
  by (induction ps arbitrary: p) (simp_all add: join_with_Cons)

lemma in_lang_canonical:
  "in_lang canonicalEventPattern s \<longleftrightarrow>
     (\<exists>p q r ps. s = join_with CHR ''.'' (p # q # r # ps) \<and> list_all event_segment (p # q # r # ps))"
  (is "_ \<longleftrightarrow> ?R")
proof
  show "in_lang canonicalEventPattern s \<Longrightarrow> ?R"
    by (auto simp: canonicalEventPattern_def AtLeast2_def in_lang_name in_lang_dotted
        in_lang_dotted_star simp del: join_with.simps simp: join_with_dots) blast
  show "?R \<Longrightarrow> in_lang canonicalEventPattern s"
  proof -
    assume ?R
    then obtain p q r ps where s: "s = join_with CHR ''.'' (p # q # r # ps)"
      and seg: "list_all event_segment (p # q # r # ps)" by blast
    have "s = p @ (CHR ''.'' # q) @ (CHR ''.'' # r) @ concat (map ((#) CHR ''.'') ps)"
      by (simp add: s join_with_dots del: join_with.simps)
    moreover have "in_lang (Star (Seq (Cls (\<lambda>c. c = CHR ''.'')) name_rexp))
        (concat (map ((#) CHR ''.'') ps))"
      using seg by (auto simp: in_lang_dotted_star)
    ultimately show ?thesis
      using seg unfolding canonicalEventPattern_def AtLeast2_def
      by (auto intro!: lang_Seq simp: in_lang_name in_lang_dotted simp del: append_Cons)
  qed
qed

lemma canonical_name_join:
  "canonical_name s \<longleftrightarrow>
     (\<exists>p q r ps. s = join_with CHR ''.'' (p # q # r # ps) \<and> list_all event_segment (p # q # r # ps))"
  (is "_ \<longleftrightarrow> ?R")
proof
  assume "canonical_name s"
  moreover from this obtain p q r ps where eq: "strings_Split s CHR ''.'' = p # q # r # ps"
    by (auto simp: canonical_name_def numeral_3_eq_3 Suc_le_length_iff)
  moreover have "s = join_with CHR ''.'' (p # q # r # ps)"
    using join_with_Split [of "CHR ''.''" s] eq by simp
  ultimately show ?R
    by (auto simp: canonical_name_def simp del: join_with.simps)
next
  assume ?R
  then obtain p q r ps where s: "s = join_with CHR ''.'' (p # q # r # ps)"
    and seg: "list_all event_segment (p # q # r # ps)" by blast
  have "strings_Split s CHR ''.'' = p # q # r # ps"
    unfolding s using seg by (intro strings_Split_join) (auto simp: list_all_iff event_segment_no_dot)
  with seg show "canonical_name s" by (simp add: canonical_name_def)
qed

text \<open>
  The regular expression accepts exactly the names of three or more dot-separated segments.
\<close>

lemma MatchString_canonical: "MatchString canonicalEventPattern s \<longleftrightarrow> canonical_name s"
  by (simp add: MatchString_iff in_lang_canonical canonical_name_join)

subsection \<open>Validation\<close>

definition event_state_ok :: "string \<Rightarrow> bool" where
  "event_state_ok s \<longleftrightarrow> last (strings_Split s CHR ''.'') \<in> {StateRequest, StateOK, StateError}"

lemma Envelope_State_ok:
  "Envelope_State e = Inr st \<longleftrightarrow>
     canonical_name (env_Event e) \<and> event_state_ok (env_Event e)
     \<and> st = last (strings_Split (env_Event e) CHR ''.'')"
  by (auto simp: Envelope_State_def MatchString_canonical event_state_ok_def Let_def)

text \<open>
  C34: Validate accepts an envelope exactly when its four required identifiers are present, its
  event is a canonical name (three or more dot-separated segments) that ends in request, ok or
  error, its guarantee is one of the three known ones and its payload is valid JSON.
\<close>

theorem Envelope_Validate_ok_iff:
  "Envelope_Validate e = Inr () \<longleftrightarrow>
     env_ID e \<noteq> [] \<and> env_IdempotencyKey e \<noteq> [] \<and> env_SchemaID e \<noteq> [] \<and> env_CorrelationID e \<noteq> []
     \<and> canonical_name (env_Event e) \<and> event_state_ok (env_Event e)
     \<and> env_Guarantee e \<in> {GuaranteeBestEffort, GuaranteeReceived, GuaranteeProcessed}
     \<and> env_Payload e \<noteq> [] \<and> json_Valid (env_Payload e)"
proof (cases "Envelope_State e")
  case (Inl err)
  then have "\<not> (canonical_name (env_Event e) \<and> event_state_ok (env_Event e))"
    using Envelope_State_ok [of e] by (metis Inr_Inl_False)
  with Inl show ?thesis by (auto simp: Envelope_Validate_def)
next
  case (Inr st)
  then have "canonical_name (env_Event e)" "event_state_ok (env_Event e)"
    using Envelope_State_ok by auto
  with Inr show ?thesis by (auto simp: Envelope_Validate_def)
qed

lemma Validate_payload:
  "Envelope_Validate e = Inr u \<Longrightarrow> env_Payload e \<noteq> [] \<and> json_Valid (env_Payload e)"
  by (auto simp: Envelope_Validate_def split: if_splits sum.splits)

lemma Validate_required:
  "Envelope_Validate e = Inr u \<Longrightarrow> env_ID e \<noteq> [] \<and> env_IdempotencyKey e \<noteq> []"
  by (auto simp: Envelope_Validate_def split: if_splits)

lemma Validate_Security [simp]: "Envelope_Validate (e\<lparr>env_Security := m\<rparr>) = Envelope_Validate e"
  by (simp add: Envelope_Validate_def Envelope_State_def cong: sum.case_cong)

text \<open>A validated envelope always has a JSON form.\<close>

lemma marshal_Envelope_ok:
  "Envelope_Validate e = Inr u \<Longrightarrow> \<exists>raw. marshal_Envelope e = Inr raw"
  using Validate_payload [of e u] by (simp add: marshal_Envelope_def marshal_RawMessage_def)

subsection \<open>Digest\<close>

lemma hexdigit_inj: "m < 16 \<Longrightarrow> n < 16 \<Longrightarrow> hexdigit m = hexdigit n \<Longrightarrow> m = n"
proof -
  have d: "distinct ''0123456789abcdef''" by simp
  show "m < 16 \<Longrightarrow> n < 16 \<Longrightarrow> hexdigit m = hexdigit n \<Longrightarrow> m = n"
    using nth_eq_iff_index_eq [OF d, of m n] by (simp add: hexdigit_def)
qed

lemma hexdigit_mod: "hexdigit (n mod 16) = hexdigit n"
  by (simp add: hexdigit_def)

lemma hex_byte_inj:
  assumes "hexdigit (of_char a div 16) = hexdigit (of_char b div 16)"
    and "hexdigit (of_char a) = hexdigit (of_char b)"
  shows "a = b"
proof -
  let ?a = "of_char a :: nat" and ?b = "of_char b :: nat"
  have "of_char c < (16 * 16 :: nat)" for c :: char by simp
  then have lt: "?a div 16 < 16" "?b div 16 < 16" by (rule less_mult_imp_div_less)+
  have "?a div 16 = ?b div 16" using lt assms(1) by (rule hexdigit_inj)
  moreover have "?a mod 16 = ?b mod 16"
    using assms(2) by (intro hexdigit_inj) (simp_all add: hexdigit_mod)
  ultimately have "?a = ?b" by (metis div_mult_mod_eq)
  then show ?thesis by simp
qed

lemma hex_EncodeToString_inj: "hex_EncodeToString a = hex_EncodeToString b \<longleftrightarrow> a = b"
proof
  show "hex_EncodeToString a = hex_EncodeToString b \<Longrightarrow> a = b"
  proof (induction a arbitrary: b)
    case Nil
    then show ?case by (cases b) (simp_all add: hex_EncodeToString_def)
  next
    case (Cons x a)
    then obtain y b' where "b = y # b'"
      by (cases b) (simp_all add: hex_EncodeToString_def)
    with Cons show ?case using hex_byte_inj [of x y] by (simp add: hex_EncodeToString_def)
  qed
qed simp

text \<open>
  The digest of an envelope is defined exactly for the envelopes that pass validation, does
  not depend on the security attachment, and (hex encoding being injective) two valid envelopes
  have the same hex digest exactly when SHA-256 maps their canonical bytes to the same value.
\<close>

theorem DigestHex_binding:
  "(is_ok (DigestHex sha256 e) \<longleftrightarrow> is_ok (Envelope_Validate e))
   \<and> DigestHex sha256 (e\<lparr>env_Security := m\<rparr>) = DigestHex sha256 e
   \<and> (is_ok (Envelope_Validate e) \<and> is_ok (Envelope_Validate f) \<longrightarrow>
        (DigestHex sha256 e = DigestHex sha256 f \<longleftrightarrow>
           (\<exists>a b. CanonicalBytes e = Inr a \<and> CanonicalBytes f = Inr b \<and> sha256 a = sha256 b)))"
proof -
  have ok: "is_ok (Envelope_Validate g) \<Longrightarrow> \<exists>b. CanonicalBytes g = Inr b" for g
    using marshal_Envelope_ok [of "g\<lparr>env_Security := None\<rparr>"]
    by (auto simp: CanonicalBytes_def is_ok_def split: sum.splits)
  have bad: "\<not> is_ok (Envelope_Validate g) \<Longrightarrow> \<exists>x. CanonicalBytes g = Inl x" for g
    by (auto simp: CanonicalBytes_def is_ok_def split: sum.splits)
  show ?thesis
  proof (intro conjI)
    show "is_ok (DigestHex sha256 e) \<longleftrightarrow> is_ok (Envelope_Validate e)"
      using ok [of e] bad [of e]
      by (cases "is_ok (Envelope_Validate e)") (auto simp: DigestHex_def Digest_def)
    show "DigestHex sha256 (e\<lparr>env_Security := m\<rparr>) = DigestHex sha256 e"
      by (simp add: DigestHex_def Digest_def CanonicalBytes_def cong: sum.case_cong)
    show "is_ok (Envelope_Validate e) \<and> is_ok (Envelope_Validate f) \<longrightarrow>
        (DigestHex sha256 e = DigestHex sha256 f \<longleftrightarrow>
           (\<exists>a b. CanonicalBytes e = Inr a \<and> CanonicalBytes f = Inr b \<and> sha256 a = sha256 b))"
      using ok [of e] ok [of f]
      by (auto simp: DigestHex_def Digest_def hex_EncodeToString_inj)
  qed
qed

subsection \<open>Control frames\<close>

lemma ControlFrame_Validate_ok:
  "ControlFrame_Validate f = Inr () \<longleftrightarrow>
     cf_Kind f \<in> {ControlReceived, ControlSettledOK, ControlSettledError, ControlLeaseExpired}
     \<and> cf_EventID f \<noteq> [] \<and> cf_WorkerID f \<noteq> [] \<and> cf_FencingToken f \<noteq> 0"
  by (auto simp: ControlFrame_Validate_def)

lemma ControlFrame_Validate_cases:
  "ControlFrame_Validate f = Inr u \<or> (\<exists>e. ControlFrame_Validate f = Inl e \<and> e \<noteq> ErrStaleLease)"
  by (auto simp: ControlFrame_Validate_def)

lemma control_kinds_distinct [simp]:
  "ControlReceived \<noteq> ControlSettledOK" "ControlReceived \<noteq> ControlSettledError"
  "ControlSettledOK \<noteq> ControlSettledError" "ControlSettledOK \<noteq> ControlReceived"
  "ControlSettledError \<noteq> ControlReceived" "ControlSettledError \<noteq> ControlSettledOK"
  by (simp_all add: ControlReceived_def ControlSettledOK_def ControlSettledError_def)

section \<open>A sample envelope\<close>

text \<open>The envelope on which the theorems of the library are instantiated.\<close>

definition sample_envelope :: "string \<Rightarrow> string \<Rightarrow> Envelope" where
  "sample_envelope i k =
     \<lparr>env_ID = i, env_Event = ''Fin.createInvoice.request'', env_CorrelationID = ''c'',
      env_CausationID = ''a'', env_IdempotencyKey = k, env_SchemaID = ''F@1'',
      env_Payload = ''{\"n\":1}'', env_Guarantee = GuaranteeProcessed, env_CreatedAtMS = 5,
      env_Security = None\<rparr>"

end
