(* ===== verification/UbiQ_Store.thy ===== *)
theory UbiQ_Store
  imports UbiQ_Model
begin

text \<open>
  The durable control store (\<^verbatim>\<open>store.go\<close>): its four tables and the operations on them, statement
  by statement. SQLite is reached through one connection (\<^verbatim>\<open>SetMaxOpenConns(1)\<close>), so statements
  run one at a time and a transaction runs alone.

  Any statement may fail: \<open>db_faults\<close> says which ones do and with which error, and a failing
  statement changes nothing. Errors the code ignores are ignored here too. The clock readings
  (\<^verbatim>\<open>time.Now().UnixMilli()\<close>) are arguments.
\<close>

section \<open>Tables\<close>

record event_row =
  er_id :: string
  er_idempotency_key :: string
  er_event_name :: string
  er_envelope :: bytes
  er_state :: DeliveryState
  er_owner :: "string option"
  er_lease_until_ms :: "int option"
  er_attempt :: nat
  er_fencing_token :: nat
  er_created_at_ms :: int
  er_updated_at_ms :: int

record settlement_row =
  st_event_id :: string
  st_kind :: ControlKind
  st_worker_id :: string
  st_fencing_token :: nat
  st_at_ms :: int
  st_evidence :: bytes

record history_row =
  dh_seq :: nat
  dh_event_id :: string
  dh_state :: DeliveryState
  dh_worker_id :: "string option"
  dh_fencing_token :: "nat option"
  dh_at_ms :: int
  dh_details :: bytes

record outbox_row =
  ob_seq :: nat
  ob_event_id :: string
  ob_transport :: string
  ob_payload :: bytes
  ob_attempts :: nat
  ob_available_at_ms :: int
  ob_delivered_at_ms :: "int option"

text \<open>The two counters are SQLite's record of the last AUTOINCREMENT value of a table.\<close>

record ControlStore =
  events :: "event_row list"
  settlements :: "settlement_row list"
  delivery_history :: "history_row list"
  outbox :: "outbox_row list"
  history_seq :: nat
  outbox_seq :: nat

record OutboxRecord =
  or_Seq :: nat
  or_EventID :: string
  or_Transport :: string
  or_Payload :: bytes
  or_Attempts :: nat

text \<open>\<open>migrate\<close> creates what a database file does not have yet and leaves existing tables alone.\<close>

definition empty_store :: ControlStore where
  "empty_store =
     \<lparr>events = [], settlements = [], delivery_history = [], outbox = [],
      history_seq = 0, outbox_seq = 0\<rparr>"

definition migrate :: "ControlStore option \<Rightarrow> ControlStore" where
  "migrate file = (case file of None \<Rightarrow> empty_store | Some s \<Rightarrow> s)"

section \<open>Statements\<close>

datatype stmt =
    OpenDB | Migrate
  | PublishInsert | PublishRows | PublishHistory | PublishSelect
  | ClaimUpdate | ClaimHistory
  | ReceivedUpdate | ReceivedHistory
  | SettleBegin | SettleUpdate | SettleInsert | SettleHistory | SettleCommit
  | RequeueUpdate | RequeueRows | StateSelect
  | OutboxInsert | OutboxSelect | OutboxUpdate

type_synonym db_faults = "stmt \<Rightarrow> go_error option"

definition no_faults :: db_faults where
  "no_faults q = None"

definition OpenControlStore :: "db_faults \<Rightarrow> ControlStore option \<Rightarrow> ControlStore result" where
  "OpenControlStore fl file =
     (case fl OpenDB of
        Some e \<Rightarrow> Inl e
      | None \<Rightarrow> (case fl Migrate of Some e \<Rightarrow> Inl e | None \<Rightarrow> Inr (migrate file)))"

definition append_history ::
  "db_faults \<Rightarrow> stmt \<Rightarrow> string \<Rightarrow> DeliveryState \<Rightarrow> string option \<Rightarrow> nat option \<Rightarrow> int \<Rightarrow> bytes
    \<Rightarrow> ControlStore \<Rightarrow> ControlStore" where
  "append_history fl q event_id state worker token at details s =
     (case fl q of
        Some _ \<Rightarrow> s
      | None \<Rightarrow>
          s\<lparr>delivery_history := delivery_history s @
              [\<lparr>dh_seq = Suc (history_seq s), dh_event_id = event_id, dh_state = state,
                dh_worker_id = worker, dh_fencing_token = token, dh_at_ms = at,
                dh_details = details\<rparr>],
            history_seq := Suc (history_seq s)\<rparr>)"

section \<open>Operations\<close>

definition new_event_row :: "Envelope \<Rightarrow> bytes \<Rightarrow> int \<Rightarrow> event_row" where
  "new_event_row env raw now =
     \<lparr>er_id = env_ID env, er_idempotency_key = env_IdempotencyKey env,
      er_event_name = env_Event env, er_envelope = raw, er_state = DeliveryPublished,
      er_owner = None, er_lease_until_ms = None, er_attempt = 0, er_fencing_token = 0,
      er_created_at_ms = env_CreatedAtMS env, er_updated_at_ms = now\<rparr>"

text \<open>
  \<^verbatim>\<open>INSERT \<dots> ON CONFLICT(idempotency_key) DO NOTHING\<close>: SQLite checks the conflict target first, so
  a known idempotency key inserts nothing; a known id under a new key violates the primary key.
\<close>

definition insert_event :: "event_row \<Rightarrow> event_row list \<Rightarrow> (nat \<times> event_row list) result" where
  "insert_event r rows =
     (if er_idempotency_key r \<in> er_idempotency_key ` set rows then Inr (0, rows)
      else if er_id r \<in> er_id ` set rows
        then Inl (LibError ''UNIQUE constraint failed: events.id'')
      else Inr (1, rows @ [r]))"

definition ControlStore_Publish ::
  "db_faults \<Rightarrow> int \<Rightarrow> Envelope \<Rightarrow> ControlStore \<Rightarrow> (Envelope \<times> bool) result \<times> ControlStore" where
  "ControlStore_Publish fl now env s =
     (case Envelope_Validate env of Inl e \<Rightarrow> (Inl e, s) | Inr _ \<Rightarrow>
      case marshal_Envelope env of Inl e \<Rightarrow> (Inl e, s) | Inr raw \<Rightarrow>
      case fl PublishInsert of Some e \<Rightarrow> (Inl e, s) | None \<Rightarrow>
      case insert_event (new_event_row env raw now) (events s) of Inl e \<Rightarrow> (Inl e, s)
      | Inr (n, rows) \<Rightarrow>
      let s1 = s\<lparr>events := rows\<rparr> in
      case fl PublishRows of Some e \<Rightarrow> (Inl e, s1) | None \<Rightarrow>
      if n = 1 then
        (Inr (env, True),
         append_history fl PublishHistory (env_ID env) DeliveryPublished None None now [] s1)
      else
        (case fl PublishSelect of Some e \<Rightarrow> (Inl e, s1) | None \<Rightarrow>
         case find (\<lambda>r. er_idempotency_key r = env_IdempotencyKey env) rows of
           None \<Rightarrow> (Inl ErrNoRows, s1)
         | Some r \<Rightarrow>
             (case unmarshal_Envelope (er_envelope r) of
                Inl e \<Rightarrow> (Inl e, s1)
              | Inr existing \<Rightarrow> (Inr (existing, False), s1))))"

definition claimable :: "event_row \<Rightarrow> bool" where
  "claimable r \<longleftrightarrow> er_state r = DeliveryPublished \<or> er_state r = DeliveryExpired"

definition claim_candidate :: "event_row list \<Rightarrow> event_row option" where
  "claim_candidate rows =
     (case order_limit (\<lambda>r. (er_created_at_ms r, er_id r)) 1 (filter claimable rows) of
        [] \<Rightarrow> None
      | r # _ \<Rightarrow> Some r)"

definition lease_row :: "string \<Rightarrow> int \<Rightarrow> int \<Rightarrow> event_row \<Rightarrow> event_row" where
  "lease_row workerID until now r =
     r\<lparr>er_state := DeliveryLeased, er_owner := Some workerID, er_lease_until_ms := Some until,
       er_attempt := er_attempt r + 1, er_fencing_token := er_fencing_token r + 1,
       er_updated_at_ms := now\<rparr>"

definition ControlStore_Claim ::
  "db_faults \<Rightarrow> int \<Rightarrow> string \<Rightarrow> duration \<Rightarrow> ControlStore \<Rightarrow> ClaimedEvent result \<times> ControlStore" where
  "ControlStore_Claim fl now workerID lease s =
     (if workerID = [] \<or> lease \<le> 0
      then (Inl (errors_New ''worker and positive lease are required''), s)
      else
        let until = to_int64 (now + Milliseconds lease) in
        case fl ClaimUpdate of Some e \<Rightarrow> (Inl e, s) | None \<Rightarrow>
        case claim_candidate (events s) of
          None \<Rightarrow> (Inl ErrNothingAvailable, s)
        | Some c \<Rightarrow>
            let row = lease_row workerID until now c;
                s1 = s\<lparr>events :=
                  sql_update (\<lambda>r. er_id r = er_id c) (lease_row workerID until now) (events s)\<rparr>
            in case unmarshal_Envelope (er_envelope row) of
                 Inl e \<Rightarrow> (Inl e, s1)
               | Inr env \<Rightarrow>
                   (Inr \<lparr>ce_Envelope = env,
                      ce_Lease = \<lparr>lease_EventID = env_ID env, lease_WorkerID = workerID,
                        lease_UntilMS = until, lease_Attempt = int (er_attempt row),
                        lease_FencingToken = er_fencing_token row\<rparr>,
                      ce_State = er_state row\<rparr>,
                    append_history fl ClaimHistory (env_ID env) DeliveryLeased (Some workerID)
                      (Some (er_fencing_token row)) now [] s1))"

text \<open>The guard of the two control updates: the frame's worker and token own a live lease.\<close>

definition owns_lease :: "ControlFrame \<Rightarrow> DeliveryState list \<Rightarrow> int \<Rightarrow> event_row \<Rightarrow> bool" where
  "owns_lease f states now r \<longleftrightarrow>
     er_id r = cf_EventID f \<and> er_owner r = Some (cf_WorkerID f)
     \<and> er_fencing_token r = cf_FencingToken f \<and> er_state r \<in> set states
     \<and> (case er_lease_until_ms r of None \<Rightarrow> False | Some u \<Rightarrow> u > now)"

definition receive_row :: "int \<Rightarrow> event_row \<Rightarrow> event_row" where
  "receive_row now r = r\<lparr>er_state := DeliveryReceived, er_updated_at_ms := now\<rparr>"

definition ControlStore_MarkReceived ::
  "db_faults \<Rightarrow> int \<Rightarrow> ControlFrame \<Rightarrow> ControlStore \<Rightarrow> unit result \<times> ControlStore" where
  "ControlStore_MarkReceived fl now f s =
     (if cf_Kind f \<noteq> ControlReceived then (Inl ErrInvalidTransition, s)
      else case ControlFrame_Validate f of Inl e \<Rightarrow> (Inl e, s) | Inr _ \<Rightarrow>
      case fl ReceivedUpdate of Some e \<Rightarrow> (Inl e, s) | None \<Rightarrow>
      let p = owns_lease f [DeliveryLeased] now; n = sql_count p (events s);
          s1 = s\<lparr>events := sql_update p (receive_row now) (events s)\<rparr>
      in if n \<noteq> 1 then (Inl ErrStaleLease, s1)
         else (Inr (),
               append_history fl ReceivedHistory (cf_EventID f) DeliveryReceived
                 (Some (cf_WorkerID f)) (Some (cf_FencingToken f)) (cf_AtMS f) (cf_Evidence f) s1))"

definition settle_target :: "ControlKind \<Rightarrow> DeliveryState" where
  "settle_target k = (if k = ControlSettledError then DeliverySettledError else DeliverySettledOK)"

definition release_row :: "DeliveryState \<Rightarrow> int \<Rightarrow> event_row \<Rightarrow> event_row" where
  "release_row target now r =
     r\<lparr>er_state := target, er_owner := None, er_lease_until_ms := None, er_updated_at_ms := now\<rparr>"

text \<open>\<^verbatim>\<open>INSERT INTO settlements \<dots> ON CONFLICT(event_id) DO NOTHING\<close>\<close>

definition insert_settlement :: "ControlFrame \<Rightarrow> settlement_row list \<Rightarrow> settlement_row list" where
  "insert_settlement f rows =
     (if cf_EventID f \<in> st_event_id ` set rows then rows
      else rows @ [\<lparr>st_event_id = cf_EventID f, st_kind = cf_Kind f, st_worker_id = cf_WorkerID f,
                    st_fencing_token = cf_FencingToken f, st_at_ms = cf_AtMS f,
                    st_evidence = cf_Evidence f\<rparr>])"

text \<open>The transaction of Settle: every early return rolls back to the store it began with.\<close>

definition ControlStore_Settle ::
  "db_faults \<Rightarrow> int \<Rightarrow> ControlFrame \<Rightarrow> ControlStore \<Rightarrow> unit result \<times> ControlStore" where
  "ControlStore_Settle fl now f s =
     (if cf_Kind f \<noteq> ControlSettledOK \<and> cf_Kind f \<noteq> ControlSettledError
      then (Inl ErrInvalidTransition, s)
      else case ControlFrame_Validate f of Inl e \<Rightarrow> (Inl e, s) | Inr _ \<Rightarrow>
      let target = settle_target (cf_Kind f) in
      case fl SettleBegin of Some e \<Rightarrow> (Inl e, s) | None \<Rightarrow>
      case fl SettleUpdate of Some e \<Rightarrow> (Inl e, s) | None \<Rightarrow>
      let p = owns_lease f [DeliveryLeased, DeliveryReceived] now; n = sql_count p (events s);
          s1 = s\<lparr>events := sql_update p (release_row target now) (events s)\<rparr>
      in if n \<noteq> 1 then (Inl ErrStaleLease, s)
      else case fl SettleInsert of Some e \<Rightarrow> (Inl e, s) | None \<Rightarrow>
      let s2 = s1\<lparr>settlements := insert_settlement f (settlements s1)\<rparr> in
      case fl SettleHistory of Some e \<Rightarrow> (Inl e, s) | None \<Rightarrow>
      let s3 = append_history fl SettleHistory (cf_EventID f) target (Some (cf_WorkerID f))
                 (Some (cf_FencingToken f)) (cf_AtMS f) (cf_Evidence f) s2 in
      case fl SettleCommit of Some e \<Rightarrow> (Inl e, s) | None \<Rightarrow> (Inr (), s3))"

definition lease_over :: "int \<Rightarrow> event_row \<Rightarrow> bool" where
  "lease_over now r \<longleftrightarrow>
     (er_state r = DeliveryLeased \<or> er_state r = DeliveryReceived)
     \<and> (case er_lease_until_ms r of None \<Rightarrow> False | Some u \<Rightarrow> u \<le> now)"

definition ControlStore_RequeueExpired ::
  "db_faults \<Rightarrow> instant \<Rightarrow> ControlStore \<Rightarrow> nat result \<times> ControlStore" where
  "ControlStore_RequeueExpired fl now s =
     (case fl RequeueUpdate of Some e \<Rightarrow> (Inl e, s) | None \<Rightarrow>
      let p = lease_over (UnixMilli now);
          s1 = s\<lparr>events := sql_update p (release_row DeliveryExpired (UnixMilli now)) (events s)\<rparr>
      in case fl RequeueRows of Some e \<Rightarrow> (Inl e, s1) | None \<Rightarrow> (Inr (sql_count p (events s)), s1))"

definition ControlStore_State :: "db_faults \<Rightarrow> string \<Rightarrow> ControlStore \<Rightarrow> DeliveryState result" where
  "ControlStore_State fl eventID s =
     (case fl StateSelect of Some e \<Rightarrow> Inl e | None \<Rightarrow>
      case find (\<lambda>r. er_id r = eventID) (events s) of
        None \<Rightarrow> Inl ErrNoRows
      | Some r \<Rightarrow> Inr (er_state r))"

subsection \<open>Outbox\<close>

definition ControlStore_EnqueueOutbox ::
  "db_faults \<Rightarrow> string \<Rightarrow> string \<Rightarrow> bytes \<Rightarrow> instant \<Rightarrow> ControlStore \<Rightarrow> unit result \<times> ControlStore" where
  "ControlStore_EnqueueOutbox fl eventID transport payload availableAt s =
     (if eventID = [] \<or> transport = [] \<or> payload = []
      then (Inl (errors_New ''invalid outbox record''), s)
      else case fl OutboxInsert of Some e \<Rightarrow> (Inl e, s) | None \<Rightarrow>
        (Inr (),
         s\<lparr>outbox := outbox s @
             [\<lparr>ob_seq = Suc (outbox_seq s), ob_event_id = eventID, ob_transport = transport,
               ob_payload = payload, ob_attempts = 0, ob_available_at_ms = UnixMilli availableAt,
               ob_delivered_at_ms = None\<rparr>],
           outbox_seq := Suc (outbox_seq s)\<rparr>))"

definition outbox_pending :: "outbox_row \<Rightarrow> bool" where
  "outbox_pending r \<longleftrightarrow> ob_delivered_at_ms r = None"

definition ControlStore_NextOutbox ::
  "db_faults \<Rightarrow> instant \<Rightarrow> ControlStore \<Rightarrow> OutboxRecord result" where
  "ControlStore_NextOutbox fl now s =
     (case fl OutboxSelect of Some e \<Rightarrow> Inl e | None \<Rightarrow>
      case order_limit ob_seq 1
        (filter (\<lambda>r. outbox_pending r \<and> ob_available_at_ms r \<le> UnixMilli now) (outbox s)) of
        [] \<Rightarrow> Inl ErrNothingAvailable
      | r # _ \<Rightarrow>
          Inr \<lparr>or_Seq = ob_seq r, or_EventID = ob_event_id r, or_Transport = ob_transport r,
               or_Payload = ob_payload r, or_Attempts = ob_attempts r\<rparr>)"

definition ControlStore_MarkOutboxDelivered ::
  "db_faults \<Rightarrow> nat \<Rightarrow> instant \<Rightarrow> ControlStore \<Rightarrow> unit result \<times> ControlStore" where
  "ControlStore_MarkOutboxDelivered fl seq at s =
     (case fl OutboxUpdate of Some e \<Rightarrow> (Inl e, s) | None \<Rightarrow>
      let p = (\<lambda>r. ob_seq r = seq \<and> outbox_pending r); n = sql_count p (outbox s);
          s1 = s\<lparr>outbox :=
            sql_update p (\<lambda>r. r\<lparr>ob_delivered_at_ms := Some (UnixMilli at)\<rparr>) (outbox s)\<rparr>
      in if n \<noteq> 1 then (Inl (Errorf ''outbox record %d not pending'' [nat_dec seq]), s1)
         else (Inr (), s1))"

section \<open>The store as a transition system\<close>

text \<open>One operation of any client or of the maintenance loop, under any faults, at any time.\<close>

datatype store_op =
    OpPublish Envelope
  | OpClaim string duration
  | OpMarkReceived ControlFrame
  | OpSettle ControlFrame
  | OpRequeueExpired
  | OpEnqueueOutbox string string bytes instant
  | OpMarkOutboxDelivered nat

fun store_apply :: "db_faults \<Rightarrow> instant \<Rightarrow> store_op \<Rightarrow> ControlStore \<Rightarrow> ControlStore" where
  "store_apply fl now (OpPublish env) s = snd (ControlStore_Publish fl (UnixMilli now) env s)"
| "store_apply fl now (OpClaim w lease) s = snd (ControlStore_Claim fl (UnixMilli now) w lease s)"
| "store_apply fl now (OpMarkReceived f) s = snd (ControlStore_MarkReceived fl (UnixMilli now) f s)"
| "store_apply fl now (OpSettle f) s = snd (ControlStore_Settle fl (UnixMilli now) f s)"
| "store_apply fl now OpRequeueExpired s = snd (ControlStore_RequeueExpired fl now s)"
| "store_apply fl now (OpEnqueueOutbox e t p at) s = snd (ControlStore_EnqueueOutbox fl e t p at s)"
| "store_apply fl now (OpMarkOutboxDelivered q) s = snd (ControlStore_MarkOutboxDelivered fl q now s)"

inductive store_trans :: "ControlStore \<Rightarrow> ControlStore \<Rightarrow> bool" where
  store_transI: "store_trans s (store_apply fl now op s)"

definition store_init :: "ControlStore \<Rightarrow> bool" where
  "store_init s \<longleftrightarrow> s = empty_store"

abbreviation store_reachable :: "ControlStore \<Rightarrow> bool" where
  "store_reachable \<equiv> reachable store_init store_trans"

abbreviation store_steps :: "ControlStore \<Rightarrow> ControlStore \<Rightarrow> bool" where
  "store_steps \<equiv> rtranclp store_trans"

section \<open>What an operation does to the tables\<close>

text \<open>
  Every operation changes the event table in one of four ways: not at all, by one new row, by
  one update of the row with a given id, or by the release of the rows whose lease is over.
  The lemmas below give the shape for each operation; the invariant, the order of progress and
  the refinement are proved from them.
\<close>

definition held :: "event_row \<Rightarrow> bool" where
  "held r \<longleftrightarrow> er_state r = DeliveryLeased \<or> er_state r = DeliveryReceived"

definition settled :: "event_row \<Rightarrow> bool" where
  "settled r \<longleftrightarrow> er_state r = DeliverySettledOK \<or> er_state r = DeliverySettledError"

lemmas row_ops = lease_row_def receive_row_def release_row_def

lemma row_identity [simp]:
  "er_id (lease_row w u now r) = er_id r"
  "er_idempotency_key (lease_row w u now r) = er_idempotency_key r"
  "er_event_name (lease_row w u now r) = er_event_name r"
  "er_envelope (lease_row w u now r) = er_envelope r"
  "er_created_at_ms (lease_row w u now r) = er_created_at_ms r"
  "er_id (receive_row now r) = er_id r"
  "er_idempotency_key (receive_row now r) = er_idempotency_key r"
  "er_event_name (receive_row now r) = er_event_name r"
  "er_envelope (receive_row now r) = er_envelope r"
  "er_created_at_ms (receive_row now r) = er_created_at_ms r"
  "er_id (release_row st now r) = er_id r"
  "er_idempotency_key (release_row st now r) = er_idempotency_key r"
  "er_event_name (release_row st now r) = er_event_name r"
  "er_envelope (release_row st now r) = er_envelope r"
  "er_created_at_ms (release_row st now r) = er_created_at_ms r"
  by (simp_all add: row_ops)

lemma append_history_simps [simp]:
  "events (append_history fl q i st w k at d s) = events s"
  "settlements (append_history fl q i st w k at d s) = settlements s"
  "outbox (append_history fl q i st w k at d s) = outbox s"
  "outbox_seq (append_history fl q i st w k at d s) = outbox_seq s"
  by (simp_all add: append_history_def split: option.splits)

lemma claim_candidate_Some:
  assumes "claim_candidate rows = Some c"
  shows "c \<in> set rows" and "claimable c"
    and "r \<in> set rows \<Longrightarrow> claimable r \<Longrightarrow>
      (er_created_at_ms c, er_id c) \<le> (er_created_at_ms r, er_id r)"
proof -
  let ?k = "\<lambda>r. (er_created_at_ms r, er_id r)"
  obtain rs where "order_limit ?k 1 (filter claimable rows) = c # rs"
    using assms by (auto simp: claim_candidate_def split: list.splits)
  note min = order_limit_1_min [OF this]
  from min(1) show "c \<in> set rows" "claimable c" by auto
  show "?k c \<le> ?k r" if "r \<in> set rows" "claimable r"
    using that min(2) by simp
qed

lemma claim_candidate_None: "claim_candidate rows = None \<longleftrightarrow> (\<forall>r \<in> set rows. \<not> claimable r)"
proof -
  have "claim_candidate rows = None \<longleftrightarrow>
      order_limit (\<lambda>r. (er_created_at_ms r, er_id r)) 1 (filter claimable rows) = []"
    by (simp add: claim_candidate_def split: list.splits)
  also have "\<dots> \<longleftrightarrow> (\<forall>r \<in> set rows. \<not> claimable r)"
    by (simp only: order_limit_1_Nil filter_empty_conv)
  finally show ?thesis .
qed

text \<open>The outcomes of each operation.\<close>

lemma Publish_cases:
  assumes "ControlStore_Publish fl now env s = (res, t)"
  obtains (unchanged) "t = s"
    | (fresh) raw where "Envelope_Validate env = Inr ()" "marshal_Envelope env = Inr raw"
        "env_IdempotencyKey env \<notin> er_idempotency_key ` set (events s)"
        "env_ID env \<notin> er_id ` set (events s)"
        "t = s\<lparr>events := events s @ [new_event_row env raw now]\<rparr> \<or>
         t = append_history fl PublishHistory (env_ID env) DeliveryPublished None None now []
               (s\<lparr>events := events s @ [new_event_row env raw now]\<rparr>)"
proof (cases "\<exists>raw. Envelope_Validate env = Inr () \<and> marshal_Envelope env = Inr raw
    \<and> fl PublishInsert = None \<and> env_IdempotencyKey env \<notin> er_idempotency_key ` set (events s)
    \<and> env_ID env \<notin> er_id ` set (events s)")
  case True
  then obtain raw where v: "Envelope_Validate env = Inr ()" and m: "marshal_Envelope env = Inr raw"
    and nf: "fl PublishInsert = None"
    and k: "env_IdempotencyKey env \<notin> er_idempotency_key ` set (events s)"
    and i: "env_ID env \<notin> er_id ` set (events s)" by blast
  have "insert_event (new_event_row env raw now) (events s) =
      Inr (1, events s @ [new_event_row env raw now])"
    using k i by (simp add: insert_event_def new_event_row_def)
  with assms v m nf
  have "t = s\<lparr>events := events s @ [new_event_row env raw now]\<rparr> \<or>
         t = append_history fl PublishHistory (env_ID env) DeliveryPublished None None now []
               (s\<lparr>events := events s @ [new_event_row env raw now]\<rparr>)"
    by (cases "fl PublishRows") (auto simp: ControlStore_Publish_def)
  with v m k i show thesis by (rule fresh)
next
  case False
  have "t = s"
  proof (cases "Envelope_Validate env")
    case (Inr u)
    then obtain raw where m: "marshal_Envelope env = Inr raw" using marshal_Envelope_ok by blast
    show ?thesis
    proof (cases "fl PublishInsert")
      case None
      with False Inr m consider
          (key) "env_IdempotencyKey env \<in> er_idempotency_key ` set (events s)"
        | (id) "env_IdempotencyKey env \<notin> er_idempotency_key ` set (events s)"
            "env_ID env \<in> er_id ` set (events s)" by auto
      then show ?thesis
      proof cases
        case key
        then have "insert_event (new_event_row env raw now) (events s) = Inr (0, events s)"
          by (simp add: insert_event_def new_event_row_def)
        with assms Inr m None show ?thesis
          by (auto simp: ControlStore_Publish_def split: option.splits sum.splits)
      next
        case id
        then have "insert_event (new_event_row env raw now) (events s) =
            Inl (LibError ''UNIQUE constraint failed: events.id'')"
          by (simp add: insert_event_def new_event_row_def)
        with assms Inr m None show ?thesis by (simp add: ControlStore_Publish_def)
      qed
    qed (use assms Inr m in \<open>simp add: ControlStore_Publish_def\<close>)
  qed (use assms in \<open>simp add: ControlStore_Publish_def\<close>)
  then show thesis by (rule unchanged)
qed

lemma Claim_cases:
  assumes "ControlStore_Claim fl now w lease s = (res, t)"
  obtains (unchanged) "t = s" "\<exists>e. res = Inl e"
    | (claimed) c where "w \<noteq> []" "0 < lease" "claim_candidate (events s) = Some c"
        "events t = sql_update (\<lambda>r. er_id r = er_id c)
           (lease_row w (to_int64 (now + Milliseconds lease)) now) (events s)"
        "settlements t = settlements s" "outbox t = outbox s" "outbox_seq t = outbox_seq s"
        "t = s\<lparr>events := events t\<rparr> \<or>
         (\<exists>i. t = append_history fl ClaimHistory i DeliveryLeased (Some w)
               (Some (er_fencing_token c + 1)) now [] (s\<lparr>events := events t\<rparr>))"
proof (cases "w \<noteq> [] \<and> 0 < lease \<and> fl ClaimUpdate = None \<and> (\<exists>c. claim_candidate (events s) = Some c)")
  case True
  then obtain c where w: "w \<noteq> []" "0 < lease" and nf: "fl ClaimUpdate = None"
    and c: "claim_candidate (events s) = Some c" by blast
  let ?until = "to_int64 (now + Milliseconds lease)"
  let ?ev = "sql_update (\<lambda>r. er_id r = er_id c) (lease_row w ?until now) (events s)"
  have t: "t = s\<lparr>events := ?ev\<rparr> \<or>
      (\<exists>i. t = append_history fl ClaimHistory i DeliveryLeased (Some w)
            (Some (er_fencing_token c + 1)) now [] (s\<lparr>events := ?ev\<rparr>))"
    using assms w nf c
    by (cases "unmarshal_Envelope (er_envelope c)")
      (auto simp: ControlStore_Claim_def Let_def lease_row_def)
  then have "events t = ?ev" "settlements t = settlements s" "outbox t = outbox s"
    "outbox_seq t = outbox_seq s"
    by auto
  with w c t show thesis by (intro claimed) auto
next
  case False
  then have "t = s" "\<exists>e. res = Inl e"
    using assms
    by (auto simp: ControlStore_Claim_def Let_def split: if_splits option.splits)
  then show thesis by (rule unchanged)
qed

lemma owns_lease_id: "owns_lease f sts now r \<Longrightarrow> er_id r = cf_EventID f"
  by (simp add: owns_lease_def)

lemma MarkReceived_cases:
  assumes "ControlStore_MarkReceived fl now f s = (res, t)" and "distinct (map er_id (events s))"
  obtains (unchanged) e where "t = s" "res = Inl e"
    | (received) r where "res = Inr ()" "ControlFrame_Validate f = Inr ()" "r \<in> set (events s)"
        "owns_lease f [DeliveryLeased] now r"
        "t = append_history fl ReceivedHistory (cf_EventID f) DeliveryReceived
               (Some (cf_WorkerID f)) (Some (cf_FencingToken f)) (cf_AtMS f) (cf_Evidence f)
               (s\<lparr>events := sql_update (\<lambda>q. er_id q = er_id r) (receive_row now) (events s)\<rparr>)"
proof (cases "cf_Kind f = ControlReceived \<and> ControlFrame_Validate f = Inr () \<and> fl ReceivedUpdate = None")
  case True
  let ?p = "owns_lease f [DeliveryLeased] now"
  show thesis
  proof (cases "\<exists>r \<in> set (events s). ?p r")
    case ex: True
    then obtain r where r: "r \<in> set (events s)" "?p r" by blast
    have "sql_count ?p (events s) = 1"
      using ex sql_count_eq_1 [OF assms(2), of ?p, OF owns_lease_id] by simp
    moreover have "sql_update ?p g (events s) = sql_update (\<lambda>q. er_id q = er_id r) g (events s)" for g
      using r by (intro sql_update_by_key [OF assms(2)]) (auto simp: owns_lease_id)
    ultimately show thesis
      using r True assms(1) by (intro received [of r]) (auto simp: ControlStore_MarkReceived_def)
  next
    case none: False
    then have "sql_count ?p (events s) = 0" "sql_update ?p (receive_row now) (events s) = events s"
      by (simp_all add: sql_count_0 sql_update_none)
    then show thesis
      using True assms(1) by (intro unchanged) (auto simp: ControlStore_MarkReceived_def)
  qed
next
  case False
  then have "snd (ControlStore_MarkReceived fl now f s) = s"
    "\<not> is_ok (fst (ControlStore_MarkReceived fl now f s))"
    by (auto simp: ControlStore_MarkReceived_def split: option.splits sum.splits)
  then show thesis using assms(1) unchanged by (cases res) auto
qed

lemma Settle_cases:
  assumes "ControlStore_Settle fl now f s = (res, t)" and "distinct (map er_id (events s))"
  obtains (unchanged) e where "t = s" "res = Inl e"
    | (settled) r where "res = Inr ()" "ControlFrame_Validate f = Inr ()"
        "cf_Kind f = ControlSettledOK \<or> cf_Kind f = ControlSettledError"
        "r \<in> set (events s)" "owns_lease f [DeliveryLeased, DeliveryReceived] now r"
        "t = append_history fl SettleHistory (cf_EventID f) (settle_target (cf_Kind f))
               (Some (cf_WorkerID f)) (Some (cf_FencingToken f)) (cf_AtMS f) (cf_Evidence f)
               (s\<lparr>events := sql_update (\<lambda>q. er_id q = er_id r)
                     (release_row (settle_target (cf_Kind f)) now) (events s),
                  settlements := insert_settlement f (settlements s)\<rparr>)"
proof (cases "(cf_Kind f = ControlSettledOK \<or> cf_Kind f = ControlSettledError)
    \<and> ControlFrame_Validate f = Inr () \<and> fl SettleBegin = None \<and> fl SettleUpdate = None
    \<and> fl SettleInsert = None \<and> fl SettleHistory = None \<and> fl SettleCommit = None
    \<and> (\<exists>r \<in> set (events s). owns_lease f [DeliveryLeased, DeliveryReceived] now r)")
  case True
  let ?p = "owns_lease f [DeliveryLeased, DeliveryReceived] now"
  obtain r where r: "r \<in> set (events s)" "?p r" using True by blast
  have "sql_count ?p (events s) = 1"
    using True sql_count_eq_1 [OF assms(2), of ?p, OF owns_lease_id] by simp
  moreover have "sql_update ?p g (events s) = sql_update (\<lambda>q. er_id q = er_id r) g (events s)" for g
    using r by (intro sql_update_by_key [OF assms(2)]) (auto simp: owns_lease_id)
  ultimately show thesis
    using r True assms(1) by (intro settled [of r]) (auto simp: ControlStore_Settle_def Let_def)
next
  case False
  have none: "sql_count (owns_lease f [DeliveryLeased, DeliveryReceived] now) (events s) \<noteq> 1"
    if "\<not> (\<exists>r \<in> set (events s). owns_lease f [DeliveryLeased, DeliveryReceived] now r)"
    using that sql_count_0 [of _ "events s"] by (metis zero_neq_one)
  have "snd (ControlStore_Settle fl now f s) = s"
    "\<not> is_ok (fst (ControlStore_Settle fl now f s))"
    using False none
    by (auto simp: ControlStore_Settle_def Let_def split: option.splits sum.splits)
  then show thesis using assms(1) unchanged by (cases res) auto
qed

lemma RequeueExpired_events:
  "ControlStore_RequeueExpired fl now s = (res, t) \<Longrightarrow>
     t = s \<or> t = s\<lparr>events := sql_update (lease_over (UnixMilli now))
       (release_row DeliveryExpired (UnixMilli now)) (events s)\<rparr>"
  by (auto simp: ControlStore_RequeueExpired_def Let_def split: option.splits)

lemma EnqueueOutbox_frame:
  "ControlStore_EnqueueOutbox fl e tr p at s = (res, t) \<Longrightarrow>
     events t = events s \<and> settlements t = settlements s \<and> delivery_history t = delivery_history s
     \<and> history_seq t = history_seq s"
  by (auto simp: ControlStore_EnqueueOutbox_def split: option.splits if_splits)

lemma MarkOutboxDelivered_frame:
  "ControlStore_MarkOutboxDelivered fl q at s = (res, t) \<Longrightarrow>
     events t = events s \<and> settlements t = settlements s \<and> delivery_history t = delivery_history s
     \<and> history_seq t = history_seq s"
  by (auto simp: ControlStore_MarkOutboxDelivered_def Let_def split: option.splits if_splits)

text \<open>
  The six ways in which one operation can change the event and settlement tables.
\<close>

inductive store_effect ::
  "event_row list \<Rightarrow> settlement_row list \<Rightarrow> event_row list \<Rightarrow> settlement_row list \<Rightarrow> bool" where
  eff_none: "store_effect ev se ev se"
| eff_publish: "Envelope_Validate env = Inr () \<Longrightarrow> marshal_Envelope env = Inr raw \<Longrightarrow>
    env_IdempotencyKey env \<notin> er_idempotency_key ` set ev \<Longrightarrow> env_ID env \<notin> er_id ` set ev \<Longrightarrow>
    store_effect ev se (ev @ [new_event_row env raw now]) se"
| eff_claim: "claim_candidate ev = Some c \<Longrightarrow> w \<noteq> [] \<Longrightarrow>
    store_effect ev se (sql_update (\<lambda>r. er_id r = er_id c) (lease_row w until now) ev) se"
| eff_receive: "r \<in> set ev \<Longrightarrow> owns_lease f [DeliveryLeased] now r \<Longrightarrow>
    store_effect ev se (sql_update (\<lambda>q. er_id q = er_id r) (receive_row now) ev) se"
| eff_settle: "cf_Kind f = ControlSettledOK \<or> cf_Kind f = ControlSettledError \<Longrightarrow>
    r \<in> set ev \<Longrightarrow> owns_lease f [DeliveryLeased, DeliveryReceived] now r \<Longrightarrow>
    store_effect ev se
      (sql_update (\<lambda>q. er_id q = er_id r) (release_row (settle_target (cf_Kind f)) now) ev)
      (insert_settlement f se)"
| eff_requeue: "store_effect ev se (sql_update (lease_over now) (release_row DeliveryExpired now) ev) se"

lemma store_trans_effect:
  assumes "store_trans s t" and "distinct (map er_id (events s))"
  shows "store_effect (events s) (settlements s) (events t) (settlements t)"
  using assms(1)
proof cases
  case (store_transI fl now op)
  show ?thesis
  proof (cases op)
    case (OpPublish env)
    obtain res where "ControlStore_Publish fl (UnixMilli now) env s = (res, t)"
      using store_transI OpPublish by (metis prod.collapse store_apply.simps(1))
    then show ?thesis
      by (rule Publish_cases) (auto intro: eff_none eff_publish)
  next
    case (OpClaim w lease)
    obtain res where "ControlStore_Claim fl (UnixMilli now) w lease s = (res, t)"
      using store_transI OpClaim by (metis prod.collapse store_apply.simps(2))
    then show ?thesis
      by (rule Claim_cases) (auto intro: eff_none eff_claim)
  next
    case (OpMarkReceived f)
    obtain res where "ControlStore_MarkReceived fl (UnixMilli now) f s = (res, t)"
      using store_transI OpMarkReceived by (metis prod.collapse store_apply.simps(3))
    from this assms(2) show ?thesis
      by (rule MarkReceived_cases) (auto intro: eff_none eff_receive)
  next
    case (OpSettle f)
    obtain res where "ControlStore_Settle fl (UnixMilli now) f s = (res, t)"
      using store_transI OpSettle by (metis prod.collapse store_apply.simps(4))
    from this assms(2) show ?thesis
      by (rule Settle_cases) (auto intro: eff_none eff_settle)
  next
    case OpRequeueExpired
    then show ?thesis
      using store_transI RequeueExpired_events [of fl now s]
      by (metis ControlStore.ext_inject ControlStore.surjective ControlStore.update_convs(1)
          eff_none eff_requeue prod.collapse store_apply.simps(5))
  next
    case (OpEnqueueOutbox e tr p at)
    then show ?thesis
      using store_transI EnqueueOutbox_frame [of fl e tr p at s]
      by (metis eff_none prod.collapse store_apply.simps(6))
  next
    case (OpMarkOutboxDelivered q)
    then show ?thesis
      using store_transI MarkOutboxDelivered_frame [of fl q now s]
      by (metis eff_none prod.collapse store_apply.simps(7))
  qed
qed

section \<open>The invariant\<close>

text \<open>
  A row is well formed when a lease (owner and deadline) is recorded exactly while the event is
  leased or received, attempts and fencing tokens count together, only a row that was never
  claimed is in state published, and the stored bytes are the JSON form of a valid envelope with
  the row's identity.
\<close>

definition row_wf :: "event_row \<Rightarrow> bool" where
  "row_wf r \<longleftrightarrow>
     (held r \<longleftrightarrow> er_owner r \<noteq> None) \<and> (held r \<longleftrightarrow> er_lease_until_ms r \<noteq> None)
     \<and> er_attempt r = er_fencing_token r
     \<and> (er_state r = DeliveryPublished \<longleftrightarrow> er_fencing_token r = 0)
     \<and> (\<exists>env. Envelope_Validate env = Inr () \<and> marshal_Envelope env = Inr (er_envelope r)
          \<and> er_id r = env_ID env \<and> er_idempotency_key r = env_IdempotencyKey env
          \<and> er_event_name r = env_Event env \<and> er_created_at_ms r = env_CreatedAtMS env)"

text \<open>A settlement belongs to the settled row of its event, with the token that settled it.\<close>

definition settles :: "settlement_row \<Rightarrow> event_row \<Rightarrow> bool" where
  "settles st r \<longleftrightarrow>
     er_id r = st_event_id st \<and> er_state r = settle_target (st_kind st)
     \<and> er_fencing_token r = st_fencing_token st
     \<and> (st_kind st = ControlSettledOK \<or> st_kind st = ControlSettledError)"

definition tables_inv :: "event_row list \<Rightarrow> settlement_row list \<Rightarrow> bool" where
  "tables_inv ev se \<longleftrightarrow>
     distinct (map er_id ev) \<and> distinct (map er_idempotency_key ev)
     \<and> (\<forall>r \<in> set ev. row_wf r)
     \<and> distinct (map st_event_id se)
     \<and> (\<forall>st \<in> set se. \<exists>r \<in> set ev. settles st r)
     \<and> (\<forall>r \<in> set ev. settled r \<longrightarrow> (\<exists>st \<in> set se. settles st r))"

definition store_inv :: "ControlStore \<Rightarrow> bool" where
  "store_inv s \<longleftrightarrow>
     tables_inv (events s) (settlements s)
     \<and> sorted_wrt (<) (map dh_seq (delivery_history s))
     \<and> (\<forall>h \<in> set (delivery_history s). dh_seq h \<le> history_seq s)
     \<and> sorted_wrt (<) (map ob_seq (outbox s))
     \<and> (\<forall>b \<in> set (outbox s). ob_seq b \<le> outbox_seq s)"

lemma tables_invD:
  assumes "tables_inv ev se"
  shows "distinct (map er_id ev)" and "distinct (map er_idempotency_key ev)"
    and "distinct (map st_event_id se)"
    and "r \<in> set ev \<Longrightarrow> row_wf r"
    and "st \<in> set se \<Longrightarrow> \<exists>r \<in> set ev. settles st r"
    and "r \<in> set ev \<Longrightarrow> settled r \<Longrightarrow> \<exists>st \<in> set se. settles st r"
  using assms by (auto simp: tables_inv_def)

lemma settle_target_cases [simp]:
  "settle_target ControlSettledOK = DeliverySettledOK"
  "settle_target ControlSettledError = DeliverySettledError"
  by (simp_all add: settle_target_def)

lemma settles_settled: "settles st r \<Longrightarrow> settled r"
  by (auto simp: settles_def settled_def)

lemma settled_not_held: "settled r \<Longrightarrow> \<not> held r \<and> \<not> claimable r"
  by (auto simp: settled_def held_def claimable_def)

lemma row_wf_update:
  assumes "row_wf r"
  shows "w \<noteq> [] \<Longrightarrow> row_wf (lease_row w until now r)"
    and "held r \<Longrightarrow> row_wf (receive_row now r)"
    and "held r \<Longrightarrow> st \<noteq> DeliveryPublished \<Longrightarrow> st \<noteq> DeliveryLeased \<Longrightarrow> st \<noteq> DeliveryReceived \<Longrightarrow>
      row_wf (release_row st now r)"
  using assms by (auto simp: row_wf_def row_ops held_def)

lemma row_wf_new:
  "Envelope_Validate env = Inr () \<Longrightarrow> marshal_Envelope env = Inr raw \<Longrightarrow>
     row_wf (new_event_row env raw now)"
  by (auto simp: row_wf_def new_event_row_def held_def)

text \<open>An update of one unsettled row that does not settle it keeps the tables consistent.\<close>

lemma tables_inv_update:
  assumes inv: "tables_inv ev se"
    and g: "\<And>r. er_id (g r) = er_id r" "\<And>r. er_idempotency_key (g r) = er_idempotency_key r"
    and p: "\<And>r. r \<in> set ev \<Longrightarrow> p r \<Longrightarrow> \<not> settled r \<and> row_wf (g r) \<and> \<not> settled (g r)"
  shows "tables_inv (sql_update p g ev) se"
  unfolding tables_inv_def
proof (intro conjI ballI impI)
  show "distinct (map er_id (sql_update p g ev))"
    using tables_invD(1) [OF inv] by (simp add: sql_update_key g)
  show "distinct (map er_idempotency_key (sql_update p g ev))"
    using tables_invD(2) [OF inv] by (simp add: sql_update_key g)
  show "row_wf r" if "r \<in> set (sql_update p g ev)" for r
    using that p tables_invD(4) [OF inv] by (auto simp: set_sql_update)
  show "distinct (map st_event_id se)" by (rule tables_invD(3) [OF inv])
  show "\<exists>r \<in> set (sql_update p g ev). settles st r" if "st \<in> set se" for st
  proof -
    obtain r where r: "r \<in> set ev" "settles st r" using tables_invD(5) [OF inv \<open>st \<in> set se\<close>] by blast
    then have "\<not> p r" using p settles_settled by blast
    with r show ?thesis by (auto simp: set_sql_update)
  qed
  show "\<exists>st \<in> set se. settles st r" if "r \<in> set (sql_update p g ev)" "settled r" for r
    using that p tables_invD(6) [OF inv] by (auto simp: set_sql_update)
qed

lemma tables_inv_settle:
  assumes inv: "tables_inv ev se"
    and k: "cf_Kind f = ControlSettledOK \<or> cf_Kind f = ControlSettledError"
    and r: "r \<in> set ev" "owns_lease f sts now r" "held r"
  shows "tables_inv (sql_update (\<lambda>q. er_id q = er_id r) (release_row (settle_target (cf_Kind f)) now) ev)
    (insert_settlement f se)"
proof -
  let ?g = "release_row (settle_target (cf_Kind f)) now"
  let ?ev = "sql_update (\<lambda>q. er_id q = er_id r) ?g ev"
  let ?st = "\<lparr>st_event_id = cf_EventID f, st_kind = cf_Kind f, st_worker_id = cf_WorkerID f,
    st_fencing_token = cf_FencingToken f, st_at_ms = cf_AtMS f, st_evidence = cf_Evidence f\<rparr>"
  have id: "er_id r = cf_EventID f" "er_fencing_token r = cf_FencingToken f"
    using r(2) by (simp_all add: owns_lease_def)
  have fresh: "cf_EventID f \<notin> st_event_id ` set se"
  proof
    assume "cf_EventID f \<in> st_event_id ` set se"
    then obtain st q where "st \<in> set se" "st_event_id st = cf_EventID f" "q \<in> set ev" "settles st q"
      using tables_invD(5) [OF inv] by (metis imageE)
    then have "q = r"
      using distinct_key_eq [OF tables_invD(1) [OF inv], of q r] r(1) id by (simp add: settles_def)
    with \<open>settles st q\<close> r(3) show False using settles_settled settled_not_held by blast
  qed
  have "er_id q = er_id r \<longleftrightarrow> q = r" if "q \<in> set ev" for q
    using that r(1) distinct_key_eq [OF tables_invD(1) [OF inv]] by blast
  then have "{q \<in> set ev. er_id q = er_id r} = {r}" "{q \<in> set ev. er_id q \<noteq> er_id r} = set ev - {r}"
    using r(1) by auto
  then have ev: "set ?ev = insert (?g r) (set ev - {r})"
    by (simp add: set_sql_update)
  have st: "settles ?st (?g r)"
    using k id by (auto simp: settles_def release_row_def)
  show ?thesis
    unfolding tables_inv_def insert_settlement_def if_not_P [OF fresh]
  proof (intro conjI ballI impI)
    show "distinct (map er_id ?ev)"
      using tables_invD(1) [OF inv] by (simp add: sql_update_key)
    show "distinct (map er_idempotency_key ?ev)"
      using tables_invD(2) [OF inv] by (simp add: sql_update_key)
    show "row_wf q" if "q \<in> set ?ev" for q
      using that r k tables_invD(4) [OF inv] row_wf_update(3) [of r "settle_target (cf_Kind f)" now]
      by (auto simp: ev)
    show "distinct (map st_event_id (se @ [?st]))"
      using tables_invD(3) [OF inv] fresh by simp
    show "\<exists>q \<in> set ?ev. settles u q" if "u \<in> set (se @ [?st])" for u
    proof (cases "u = ?st")
      case True
      with st show ?thesis by (auto simp: ev)
    next
      case False
      with that obtain q where "q \<in> set ev" "settles u q" using tables_invD(5) [OF inv] by auto
      moreover from this have "q \<noteq> r" using r(3) settles_settled settled_not_held by blast
      ultimately show ?thesis by (auto simp: ev)
    qed
    show "\<exists>u \<in> set (se @ [?st]). settles u q" if "q \<in> set ?ev" "settled q" for q
      using that st tables_invD(6) [OF inv] by (auto simp: ev)
  qed
qed

lemma tables_inv_publish:
  assumes inv: "tables_inv ev se" and "Envelope_Validate env = Inr ()" "marshal_Envelope env = Inr raw"
    and "env_IdempotencyKey env \<notin> er_idempotency_key ` set ev" "env_ID env \<notin> er_id ` set ev"
  shows "tables_inv (ev @ [new_event_row env raw now]) se"
proof -
  have "\<not> settled (new_event_row env raw now)" by (simp add: settled_def new_event_row_def)
  with assms row_wf_new [of env raw now] show ?thesis
    by (auto simp: tables_inv_def new_event_row_def)
qed

lemma owns_lease_held: "owns_lease f [DeliveryLeased, DeliveryReceived] now r \<Longrightarrow> held r"
  by (auto simp: owns_lease_def held_def)

lemma owns_lease_leased: "owns_lease f [DeliveryLeased] now r \<Longrightarrow> er_state r = DeliveryLeased"
  by (simp add: owns_lease_def)

lemma settled_update [simp]:
  "\<not> settled (lease_row w until now r)" "\<not> settled (receive_row now r)"
  "\<not> settled (release_row DeliveryExpired now r)"
  by (simp_all add: settled_def row_ops)

lemma tables_inv_update_row:
  assumes inv: "tables_inv ev se" and r: "r \<in> set ev" "\<not> settled r" "row_wf (g r)" "\<not> settled (g r)"
    and g: "\<And>r. er_id (g r) = er_id r" "\<And>r. er_idempotency_key (g r) = er_idempotency_key r"
  shows "tables_inv (sql_update (\<lambda>q. er_id q = er_id r) g ev) se"
proof (rule tables_inv_update [OF inv g])
  fix q
  assume "q \<in> set ev" "er_id q = er_id r"
  then have "q = r" using r(1) by (intro distinct_key_eq [OF tables_invD(1) [OF inv]])
  with r show "\<not> settled q \<and> row_wf (g q) \<and> \<not> settled (g q)" by simp
qed

lemma tables_inv_effect:
  assumes "store_effect ev se ev' se'" and inv: "tables_inv ev se"
  shows "tables_inv ev' se'"
  using assms(1)
proof cases
  case eff_none
  with inv show ?thesis by simp
next
  case (eff_publish env raw now)
  with inv show ?thesis by (auto intro: tables_inv_publish)
next
  case (eff_claim c w until now)
  note c = claim_candidate_Some(1,2) [OF eff_claim(3)]
  from c(2) have "\<not> settled c" using settled_not_held by blast
  with c eff_claim show ?thesis
    using row_wf_update(1) [OF tables_invD(4) [OF inv c(1)]]
    by (auto intro: tables_inv_update_row [OF inv])
next
  case (eff_receive r f now)
  then have "held r" by (simp add: owns_lease_def held_def)
  moreover from this have "\<not> settled r" using settled_not_held by blast
  ultimately show ?thesis
    using eff_receive row_wf_update(2) [OF tables_invD(4) [OF inv eff_receive(3)]]
    by (auto intro: tables_inv_update_row [OF inv])
next
  case (eff_settle f r now)
  then show ?thesis using tables_inv_settle [OF inv] owns_lease_held by blast
next
  case (eff_requeue now)
  have "\<not> settled r \<and> row_wf (release_row DeliveryExpired now r)" if "r \<in> set ev" "lease_over now r" for r
    using that row_wf_update(3) [OF tables_invD(4) [OF inv that(1)], of DeliveryExpired now]
      settled_not_held [of r]
    by (auto simp: lease_over_def held_def)
  then show ?thesis
    unfolding eff_requeue by (intro tables_inv_update [OF inv]) auto
qed

subsection \<open>The logs\<close>

definition history_grows :: "ControlStore \<Rightarrow> ControlStore \<Rightarrow> bool" where
  "history_grows s t \<longleftrightarrow>
     delivery_history t = delivery_history s \<and> history_seq t = history_seq s
     \<or> (\<exists>h. delivery_history t = delivery_history s @ [h] \<and> dh_seq h = Suc (history_seq s)
          \<and> history_seq t = Suc (history_seq s))"

definition outbox_changes :: "ControlStore \<Rightarrow> ControlStore \<Rightarrow> bool" where
  "outbox_changes s t \<longleftrightarrow>
     (\<exists>p u. (\<forall>b. p b \<longrightarrow> outbox_pending b)
        \<and> outbox t = sql_update p (\<lambda>b. b\<lparr>ob_delivered_at_ms := u\<rparr>) (outbox s)
        \<and> outbox_seq t = outbox_seq s)
     \<or> (\<exists>b. outbox t = outbox s @ [b] \<and> ob_seq b = Suc (outbox_seq s)
          \<and> outbox_seq t = Suc (outbox_seq s))"

lemma outbox_changes_same [simp]:
  "outbox t = outbox s \<Longrightarrow> outbox_seq t = outbox_seq s \<Longrightarrow> outbox_changes s t"
  unfolding outbox_changes_def
  by (intro disjI1 exI [of _ "\<lambda>_. False"]) (simp add: sql_update_def)

lemma outbox_changes_update [simp]:
  "outbox_changes s (s\<lparr>outbox := sql_update (\<lambda>b. ob_seq b = q \<and> outbox_pending b)
     (\<lambda>b. b\<lparr>ob_delivered_at_ms := u\<rparr>) (outbox s)\<rparr>)"
  unfolding outbox_changes_def
  by (intro disjI1 exI [of _ "\<lambda>b. ob_seq b = q \<and> outbox_pending b"] exI [of _ u]) simp

lemma outbox_changes_append [simp]:
  "ob_seq b = Suc (outbox_seq s) \<Longrightarrow>
     outbox_changes s (s\<lparr>outbox := outbox s @ [b], outbox_seq := Suc (outbox_seq s)\<rparr>)"
  by (auto simp: outbox_changes_def)

lemma history_grows_append [simp]:
  "history_grows s (append_history fl q i st w k at d (s\<lparr>events := ev\<rparr>))"
  "history_grows s (append_history fl q i st w k at d (s\<lparr>events := ev, settlements := se\<rparr>))"
  by (auto simp: history_grows_def append_history_def split: option.splits)

lemma history_grows_same [simp]: "history_grows s s" "history_grows s (s\<lparr>events := ev\<rparr>)"
  by (simp_all add: history_grows_def)

lemma store_trans_logs:
  assumes "store_trans s t" and "distinct (map er_id (events s))"
  shows "history_grows s t \<and> outbox_changes s t"
  using assms(1)
proof cases
  case (store_transI fl now op)
  show ?thesis
  proof (cases op)
    case (OpPublish env)
    obtain res where "ControlStore_Publish fl (UnixMilli now) env s = (res, t)"
      using store_transI OpPublish by (metis prod.collapse store_apply.simps(1))
    then show ?thesis by (rule Publish_cases) auto
  next
    case (OpClaim w lease)
    obtain res where "ControlStore_Claim fl (UnixMilli now) w lease s = (res, t)"
      using store_transI OpClaim by (metis prod.collapse store_apply.simps(2))
    then show ?thesis
    proof (rule Claim_cases)
      assume "t = s"
      then show ?thesis by simp
    next
      fix c
      assume "t = s\<lparr>events := events t\<rparr> \<or>
        (\<exists>i. t = append_history fl ClaimHistory i DeliveryLeased (Some w)
           (Some (er_fencing_token c + 1)) (UnixMilli now) [] (s\<lparr>events := events t\<rparr>))"
      then have "history_grows s t" by (metis history_grows_same(2) history_grows_append(1))
      moreover assume "outbox t = outbox s" "outbox_seq t = outbox_seq s"
      ultimately show ?thesis by simp
    qed
  next
    case (OpMarkReceived f)
    obtain res where "ControlStore_MarkReceived fl (UnixMilli now) f s = (res, t)"
      using store_transI OpMarkReceived by (metis prod.collapse store_apply.simps(3))
    from this assms(2) show ?thesis by (rule MarkReceived_cases) auto
  next
    case (OpSettle f)
    obtain res where "ControlStore_Settle fl (UnixMilli now) f s = (res, t)"
      using store_transI OpSettle by (metis prod.collapse store_apply.simps(4))
    from this assms(2) show ?thesis by (rule Settle_cases) auto
  next
    case OpRequeueExpired
    then show ?thesis
      using store_transI
      by (auto simp: ControlStore_RequeueExpired_def Let_def split: option.splits)
  next
    case (OpEnqueueOutbox e tr p at)
    then show ?thesis
      using store_transI
      by (auto simp: ControlStore_EnqueueOutbox_def history_grows_def split: option.splits)
  next
    case (OpMarkOutboxDelivered q)
    then show ?thesis
      using store_transI
      by (auto simp: ControlStore_MarkOutboxDelivered_def Let_def history_grows_def
          split: option.splits)
  qed
qed

lemma sorted_wrt_snoc_bound:
  "sorted_wrt (<) (map k xs) \<Longrightarrow> (\<forall>x \<in> set xs. k x \<le> n) \<Longrightarrow> k y = Suc n \<Longrightarrow>
     sorted_wrt (<) (map k (xs @ [y]))"
  by (auto simp: sorted_wrt_append less_Suc_eq_le)

lemma store_inv_step:
  assumes "store_inv s" and "store_trans s t"
  shows "store_inv t"
proof -
  have ids: "distinct (map er_id (events s))"
    using assms(1) by (simp add: store_inv_def tables_inv_def)
  from store_trans_effect [OF assms(2) ids] assms(1) have "tables_inv (events t) (settlements t)"
    by (auto simp: store_inv_def intro: tables_inv_effect)
  moreover from store_trans_logs [OF assms(2) ids] assms(1)
  have "sorted_wrt (<) (map dh_seq (delivery_history t))
      \<and> (\<forall>h \<in> set (delivery_history t). dh_seq h \<le> history_seq t)"
    by (auto simp: store_inv_def history_grows_def sorted_wrt_append less_Suc_eq_le le_SucI)
  moreover from store_trans_logs [OF assms(2) ids] assms(1)
  have "sorted_wrt (<) (map ob_seq (outbox t)) \<and> (\<forall>b \<in> set (outbox t). ob_seq b \<le> outbox_seq t)"
    by (auto simp: store_inv_def outbox_changes_def sorted_wrt_append less_Suc_eq_le le_SucI
        sql_update_key set_sql_update)
  ultimately show ?thesis by (simp add: store_inv_def)
qed

lemma store_inv_init: "store_init s \<Longrightarrow> store_inv s"
  by (simp add: store_init_def empty_store_def store_inv_def tables_inv_def)

section \<open>Progress\<close>

text \<open>
  How a row may change while the store runs: its identity never does; a new fencing token comes
  only to an unsettled row; under one token the state only moves forward (leased, received, then
  expired or settled) and the lease, while it lasts, stays with its owner.
\<close>

fun state_rank :: "DeliveryState \<Rightarrow> nat" where
  "state_rank DeliveryPublished = 0"
| "state_rank DeliveryLeased = 1"
| "state_rank DeliveryReceived = 2"
| "state_rank DeliveryExpired = 3"
| "state_rank DeliverySettledOK = 3"
| "state_rank DeliverySettledError = 3"

definition same_identity :: "event_row \<Rightarrow> event_row \<Rightarrow> bool" where
  "same_identity r q \<longleftrightarrow>
     er_id q = er_id r \<and> er_idempotency_key q = er_idempotency_key r
     \<and> er_event_name q = er_event_name r \<and> er_envelope q = er_envelope r
     \<and> er_created_at_ms q = er_created_at_ms r"

definition row_le :: "event_row \<Rightarrow> event_row \<Rightarrow> bool" where
  "row_le r q \<longleftrightarrow>
     same_identity r q
     \<and> (er_fencing_token r < er_fencing_token q \<and> \<not> settled r
        \<or> er_fencing_token r = er_fencing_token q
          \<and> state_rank (er_state r) \<le> state_rank (er_state q)
          \<and> (state_rank (er_state r) = state_rank (er_state q) \<longrightarrow> er_state r = er_state q)
          \<and> (held q \<longrightarrow> held r \<and> er_owner q = er_owner r
               \<and> er_lease_until_ms q = er_lease_until_ms r))"

text \<open>An outbox row only ever changes by being marked delivered, once.\<close>

definition outbox_le :: "outbox_row \<Rightarrow> outbox_row \<Rightarrow> bool" where
  "outbox_le b c \<longleftrightarrow>
     c\<lparr>ob_delivered_at_ms := None\<rparr> = b\<lparr>ob_delivered_at_ms := None\<rparr> \<and> (outbox_pending b \<or> c = b)"

definition store_le :: "ControlStore \<Rightarrow> ControlStore \<Rightarrow> bool" where
  "store_le s t \<longleftrightarrow>
     (\<forall>r \<in> set (events s). \<exists>q \<in> set (events t). row_le r q)
     \<and> set (settlements s) \<subseteq> set (settlements t)
     \<and> (\<exists>hs. delivery_history t = delivery_history s @ hs)
     \<and> (\<forall>b \<in> set (outbox s). \<exists>c \<in> set (outbox t). outbox_le b c)"

lemma outbox_le_refl [simp]: "outbox_le b b"
  by (simp add: outbox_le_def)

lemma outbox_le_trans: "outbox_le a b \<Longrightarrow> outbox_le b c \<Longrightarrow> outbox_le a c"
  by (auto simp: outbox_le_def)

lemma outbox_changes_le:
  assumes "outbox_changes s t" and "b \<in> set (outbox s)"
  shows "\<exists>c \<in> set (outbox t). outbox_le b c"
  using assms(1) unfolding outbox_changes_def
proof (elim disjE exE conjE)
  fix p u
  assume "\<forall>b. p b \<longrightarrow> outbox_pending b"
    and "outbox t = sql_update p (\<lambda>b. b\<lparr>ob_delivered_at_ms := u\<rparr>) (outbox s)"
  with assms(2) show ?thesis
    by (intro bexI [of _ "if p b then b\<lparr>ob_delivered_at_ms := u\<rparr> else b"])
      (auto simp: set_sql_update outbox_le_def)
next
  fix c
  assume "outbox t = outbox s @ [c]"
  with assms(2) show ?thesis by (intro bexI [of _ b]) simp_all
qed

lemma row_le_refl [simp]: "row_le r r"
  by (simp add: row_le_def same_identity_def)

lemma row_le_trans:
  assumes "row_le r q" and "row_le q p"
  shows "row_le r p"
proof -
  have "same_identity r p" using assms by (simp add: row_le_def same_identity_def)
  moreover have "settled r \<Longrightarrow> er_fencing_token q = er_fencing_token r \<Longrightarrow> settled q"
    using assms(1) by (cases "er_state r"; cases "er_state q") (auto simp: row_le_def settled_def)
  ultimately show ?thesis using assms unfolding row_le_def by force
qed

lemma store_le_refl: "store_le s s"
proof -
  have "\<exists>q \<in> set (events s). row_le r q" if "r \<in> set (events s)" for r
    using that row_le_refl by (intro bexI [of _ r])
  moreover have "\<exists>c \<in> set (outbox s). outbox_le b c" if "b \<in> set (outbox s)" for b
    using that outbox_le_refl by (intro bexI [of _ b])
  ultimately show ?thesis by (simp add: store_le_def)
qed

lemma store_le_trans:
  assumes "store_le s t" and "store_le t u"
  shows "store_le s u"
  unfolding store_le_def
proof (intro conjI ballI)
  show "\<exists>q \<in> set (events u). row_le r q" if "r \<in> set (events s)" for r
    using assms that row_le_trans unfolding store_le_def by blast
  show "set (settlements s) \<subseteq> set (settlements u)"
    using assms unfolding store_le_def by blast
  show "\<exists>hs. delivery_history u = delivery_history s @ hs"
    using assms unfolding store_le_def by auto
  show "\<exists>c \<in> set (outbox u). outbox_le b c" if "b \<in> set (outbox s)" for b
  proof -
    from assms(1) that obtain c where "c \<in> set (outbox t)" and bc: "outbox_le b c"
      unfolding store_le_def by blast
    then obtain d where "d \<in> set (outbox u)" and "outbox_le c d"
      using assms(2) unfolding store_le_def by blast
    then show ?thesis using outbox_le_trans [OF bc] by blast
  qed
qed

text \<open>Every operation respects the order of progress.\<close>

lemma row_le_new_token:
  "\<not> settled r \<Longrightarrow> row_le r (lease_row w until now r)"
  by (simp add: row_le_def same_identity_def lease_row_def)

lemma row_le_receive: "er_state r = DeliveryLeased \<Longrightarrow> row_le r (receive_row now r)"
  by (simp add: row_le_def same_identity_def receive_row_def held_def)

lemma row_le_release:
  "held r \<Longrightarrow> st \<in> {DeliveryExpired, DeliverySettledOK, DeliverySettledError} \<Longrightarrow>
     row_le r (release_row st now r)"
  by (auto simp: row_le_def same_identity_def release_row_def held_def)

lemma rows_le_update:
  assumes "\<And>r. r \<in> set ev \<Longrightarrow> p r \<Longrightarrow> row_le r (g r)" and "r \<in> set ev"
  shows "\<exists>q \<in> set (sql_update p g ev). row_le r q"
  using assms by (cases "p r") (auto simp: set_sql_update intro: bexI [of _ "g r"] bexI [of _ r])

lemma rows_le_update_row:
  assumes "distinct (map er_id ev)" and "c \<in> set ev" and "row_le c (g c)" and "r \<in> set ev"
  shows "\<exists>q \<in> set (sql_update (\<lambda>q. er_id q = er_id c) g ev). row_le r q"
proof (rule rows_le_update [where p = "\<lambda>q. er_id q = er_id c" and g = g, OF _ assms(4)])
  fix q
  assume "q \<in> set ev" "er_id q = er_id c"
  then have "q = c" using assms(2) by (intro distinct_key_eq [OF assms(1)])
  with assms(3) show "row_le q (g q)" by simp
qed

lemma effect_rows_le:
  assumes "store_effect ev se ev' se'" and inv: "tables_inv ev se" and r: "r \<in> set ev"
  shows "\<exists>q \<in> set ev'. row_le r q"
  using assms(1)
proof cases
  case eff_none
  with r show ?thesis using row_le_refl by blast
next
  case eff_publish
  with r show ?thesis by (intro bexI [of _ r]) auto
next
  case (eff_claim c w until now)
  note c = claim_candidate_Some(1,2) [OF eff_claim(3)]
  then have "row_le c (lease_row w until now c)"
    using settled_not_held row_le_new_token by blast
  then show ?thesis
    unfolding eff_claim using rows_le_update_row [OF tables_invD(1) [OF inv] c(1) _ r] by blast
next
  case (eff_receive c f now)
  then have "row_le c (receive_row now c)" by (intro row_le_receive owns_lease_leased)
  then show ?thesis
    unfolding eff_receive
    using rows_le_update_row [OF tables_invD(1) [OF inv] eff_receive(3) _ r] by blast
next
  case (eff_settle f c now)
  then have "row_le c (release_row (settle_target (cf_Kind f)) now c)"
    by (intro row_le_release owns_lease_held) auto
  then show ?thesis
    unfolding eff_settle
    using rows_le_update_row [OF tables_invD(1) [OF inv] eff_settle(4) _ r] by blast
next
  case (eff_requeue now)
  have "row_le q (release_row DeliveryExpired now q)" if "lease_over now q" for q
    using that by (intro row_le_release) (auto simp: lease_over_def held_def)
  then show ?thesis unfolding eff_requeue using rows_le_update r by blast
qed

lemma effect_settlements: "store_effect ev se ev' se' \<Longrightarrow> set se \<subseteq> set se'"
  by (induction rule: store_effect.induct) (auto simp: insert_settlement_def)

lemma store_le_step:
  assumes "store_inv s" and "store_trans s t"
  shows "store_le s t"
proof -
  have inv: "tables_inv (events s) (settlements s)" using assms(1) by (simp add: store_inv_def)
  note ids = tables_invD(1) [OF inv]
  note eff = store_trans_effect [OF assms(2) ids]
  have "\<exists>hs. delivery_history t = delivery_history s @ hs"
    using store_trans_logs [OF assms(2) ids] by (auto simp: history_grows_def)
  moreover have "\<forall>b \<in> set (outbox s). \<exists>c \<in> set (outbox t). outbox_le b c"
    using store_trans_logs [OF assms(2) ids] outbox_changes_le by blast
  ultimately show ?thesis
    unfolding store_le_def using effect_rows_le [OF eff inv] effect_settlements [OF eff] by blast
qed

interpretation store: progress_system store_init store_trans store_inv store_le
proof unfold_locales
  show "store_init s \<Longrightarrow> store_inv s" for s by (rule store_inv_init)
  show "store_inv s \<Longrightarrow> store_trans s t \<Longrightarrow> store_inv t" for s t by (rule store_inv_step)
  show "store_le s s" for s by (rule store_le_refl)
  show "store_le s t \<Longrightarrow> store_le t u \<Longrightarrow> store_le s u" for s t u by (rule store_le_trans)
  show "store_inv s \<Longrightarrow> store_trans s t \<Longrightarrow> store_le s t" for s t by (rule store_le_step)
qed

end
