(* ===== verification/UbiQ_Delivery.thy ===== *)
theory UbiQ_Delivery
  imports UbiQ_Store
begin

text \<open>
  The guarantees of the control store (\<^verbatim>\<open>src/runtime/go/ubiq/store.go\<close>) over whole
  runs. A run is any sequence of store operations by any number of workers and by the maintenance
  loop, each under arbitrary statement failures. The theorems are about claiming in order, fencing
  of stale workers, atomic and final settlement, idempotent publication, redelivery after a lease
  runs out, the refinement of the delivery protocol, and the outbox. The last section holds one
  concrete run on which each theorem is applied.
\<close>

section \<open>Rows and rejected frames\<close>

lemma store_inv_ids: "store_inv s \<Longrightarrow> distinct (map er_id (events s))"
  by (simp add: store_inv_def tables_inv_def)

lemma store_inv_tables: "store_inv s \<Longrightarrow> tables_inv (events s) (settlements s)"
  by (simp add: store_inv_def)

lemma store_row_unique:
  "store_inv s \<Longrightarrow> r \<in> set (events s) \<Longrightarrow> q \<in> set (events s) \<Longrightarrow> er_id r = er_id q \<Longrightarrow> r = q"
  by (rule distinct_key_eq [OF store_inv_ids])

text \<open>
  In later states of a run the row of an event is the successor, in the order of progress, of
  the row it had before.
\<close>

lemma store_row_later:
  assumes "store_inv s" and "store_steps s t" and "r \<in> set (events s)"
    and "q \<in> set (events t)" and "er_id q = er_id r"
  shows "row_le r q"
proof -
  obtain p where "p \<in> set (events t)" "row_le r p"
    using store.le_steps [OF assms(2,1)] assms(3) by (auto simp: store_le_def)
  moreover from this have "p = q"
    using store_row_unique [OF store.inv_steps [OF assms(2,1)]] assms(4,5)
    by (simp add: row_le_def same_identity_def)
  ultimately show ?thesis by simp
qed

lemma store_row_exists:
  assumes "store_inv s" and "store_steps s t" and "r \<in> set (events s)"
  obtains q where "q \<in> set (events t)" and "row_le r q" and "er_id q = er_id r"
  using store.le_steps [OF assms(2,1)] assms(3)
  by (auto simp: store_le_def row_le_def same_identity_def)

text \<open>A frame that owns no live lease changes nothing, whatever fails.\<close>

definition frame_owns :: "ControlFrame \<Rightarrow> ControlStore \<Rightarrow> bool" where
  "frame_owns f s \<longleftrightarrow> (\<exists>r \<in> set (events s).
     er_id r = cf_EventID f \<and> er_owner r = Some (cf_WorkerID f)
     \<and> er_fencing_token r = cf_FencingToken f \<and> held r)"

lemma owns_lease_frame:
  "owns_lease f sts now r \<Longrightarrow> set sts \<subseteq> {DeliveryLeased, DeliveryReceived} \<Longrightarrow>
     r \<in> set (events s) \<Longrightarrow> frame_owns f s"
  by (auto simp: owns_lease_def frame_owns_def held_def)

lemma frame_without_lease:
  assumes "store_inv s" and "\<not> frame_owns f s"
  shows "\<exists>e. ControlStore_Settle fl now f s = (Inl e, s)"
    and "\<exists>e. ControlStore_MarkReceived fl now f s = (Inl e, s)"
proof -
  have none: "r \<in> set (events s) \<Longrightarrow> owns_lease f sts now r \<Longrightarrow>
      set sts \<subseteq> {DeliveryLeased, DeliveryReceived} \<Longrightarrow> False" for r sts
    using owns_lease_frame assms(2) by blast
  obtain res t where st: "ControlStore_Settle fl now f s = (res, t)" by fastforce
  from st store_inv_ids [OF assms(1)] show "\<exists>e. ControlStore_Settle fl now f s = (Inl e, s)"
    by (rule Settle_cases) (use st none [of _ "[DeliveryLeased, DeliveryReceived]"] in simp_all)
  obtain res' t' where rc: "ControlStore_MarkReceived fl now f s = (res', t')" by fastforce
  from rc store_inv_ids [OF assms(1)]
  show "\<exists>e. ControlStore_MarkReceived fl now f s = (Inl e, s)"
    by (rule MarkReceived_cases) (use rc none [of _ "[DeliveryLeased]"] in simp_all)
qed

lemma frame_without_lease_stale:
  assumes "store_inv s" and "\<not> frame_owns f s" and "ControlFrame_Validate f = Inr ()"
  shows "cf_Kind f = ControlSettledOK \<or> cf_Kind f = ControlSettledError \<Longrightarrow>
      ControlStore_Settle no_faults now f s = (Inl ErrStaleLease, s)"
    and "cf_Kind f = ControlReceived \<Longrightarrow>
      ControlStore_MarkReceived no_faults now f s = (Inl ErrStaleLease, s)"
proof -
  have none: "\<not> owns_lease f sts now r"
    if "set sts \<subseteq> {DeliveryLeased, DeliveryReceived}" "r \<in> set (events s)" for sts r
    using that assms(2) owns_lease_frame by blast
  then have "sql_count (owns_lease f [DeliveryLeased, DeliveryReceived] now) (events s) = 0"
    by (simp add: sql_count_0)
  then show "cf_Kind f = ControlSettledOK \<or> cf_Kind f = ControlSettledError \<Longrightarrow>
      ControlStore_Settle no_faults now f s = (Inl ErrStaleLease, s)"
    using assms(3) by (auto simp: ControlStore_Settle_def no_faults_def)
  have "sql_count (owns_lease f [DeliveryLeased] now) (events s) = 0"
    "sql_update (owns_lease f [DeliveryLeased] now) (receive_row now) (events s) = events s"
    using none [of "[DeliveryLeased]"] by (simp_all add: sql_count_0 sql_update_none)
  then show "cf_Kind f = ControlReceived \<Longrightarrow>
      ControlStore_MarkReceived no_faults now f s = (Inl ErrStaleLease, s)"
    using assms(3) by (auto simp: ControlStore_MarkReceived_def no_faults_def)
qed

section \<open>Claims\<close>

lemma Claim_ok:
  assumes "ControlStore_Claim fl now w lease s = (Inr c, t)"
  obtains r where "claim_candidate (events s) = Some r" and "w \<noteq> []" and "0 < lease"
    and "unmarshal_Envelope (er_envelope r) = Inr (ce_Envelope c)"
    and "ce_Lease c = \<lparr>lease_EventID = env_ID (ce_Envelope c), lease_WorkerID = w,
           lease_UntilMS = to_int64 (now + Milliseconds lease),
           lease_Attempt = int (er_attempt r + 1), lease_FencingToken = er_fencing_token r + 1\<rparr>"
    and "ce_State c = DeliveryLeased"
    and "events t = sql_update (\<lambda>q. er_id q = er_id r)
           (lease_row w (to_int64 (now + Milliseconds lease)) now) (events s)"
proof -
  have "w \<noteq> [] \<and> 0 < lease \<and> fl ClaimUpdate = None"
    using assms by (auto simp: ControlStore_Claim_def Let_def split: if_splits option.splits)
  moreover from this obtain r where r: "claim_candidate (events s) = Some r"
    using assms by (cases "claim_candidate (events s)") (auto simp: ControlStore_Claim_def Let_def)
  ultimately show thesis
    using assms that [of r]
    by (cases "unmarshal_Envelope (er_envelope r)")
      (auto simp: ControlStore_Claim_def Let_def lease_row_def)
qed

lemma set_update_row:
  assumes "distinct (map er_id ev)" and "r \<in> set ev"
  shows "set (sql_update (\<lambda>q. er_id q = er_id r) g ev) = insert (g r) (set ev - {r})"
proof -
  have "er_id q = er_id r \<longleftrightarrow> q = r" if "q \<in> set ev" for q
    using that assms(2) distinct_key_eq [OF assms(1)] by blast
  then have "{q \<in> set ev. er_id q = er_id r} = {r}" "{q \<in> set ev. er_id q \<noteq> er_id r} = set ev - {r}"
    using assms(2) by auto
  then show ?thesis by (simp add: set_sql_update)
qed

text \<open>
  C8: A successful claim takes the oldest claimable event (by creation time, then id): the claim
  returns its stored envelope with a lease for the asking worker, the attempt and fencing token
  one higher than before, and no other row changes.
\<close>

theorem Claim_takes_oldest:
  assumes "store_reachable s" and "ControlStore_Claim fl now w lease s = (Inr c, t)"
  shows "\<exists>r \<in> set (events s). claimable r
     \<and> (\<forall>q \<in> set (events s). claimable q \<longrightarrow>
          (er_created_at_ms r, er_id r) \<le> (er_created_at_ms q, er_id q))
     \<and> unmarshal_Envelope (er_envelope r) = Inr (ce_Envelope c)
     \<and> lease_WorkerID (ce_Lease c) = w
     \<and> lease_UntilMS (ce_Lease c) = to_int64 (now + Milliseconds lease)
     \<and> lease_FencingToken (ce_Lease c) = Suc (er_fencing_token r)
     \<and> lease_Attempt (ce_Lease c) = int (lease_FencingToken (ce_Lease c))
     \<and> set (events t) =
         insert (lease_row w (lease_UntilMS (ce_Lease c)) now r) (set (events s) - {r})"
proof -
  have inv: "store_inv s" using assms(1) by (rule store.inv_reachable)
  from assms(2) obtain r where r: "claim_candidate (events s) = Some r"
    "unmarshal_Envelope (er_envelope r) = Inr (ce_Envelope c)"
    and l: "ce_Lease c = \<lparr>lease_EventID = env_ID (ce_Envelope c), lease_WorkerID = w,
           lease_UntilMS = to_int64 (now + Milliseconds lease),
           lease_Attempt = int (er_attempt r + 1), lease_FencingToken = er_fencing_token r + 1\<rparr>"
    and t: "events t = sql_update (\<lambda>q. er_id q = er_id r)
           (lease_row w (to_int64 (now + Milliseconds lease)) now) (events s)"
    by (rule Claim_ok)
  note c = claim_candidate_Some [OF r(1)]
  have "er_attempt r = er_fencing_token r"
    using tables_invD(4) [OF store_inv_tables [OF inv] c(1)] by (simp add: row_wf_def)
  with c r l t show ?thesis
    by (intro bexI [of _ r]) (auto simp: set_update_row [OF store_inv_ids [OF inv]])
qed

lemma Claim_new_row:
  assumes "store_inv s" and "ControlStore_Claim fl now w lease s = (Inr c, t)"
    and "claim_candidate (events s) = Some r"
  shows "\<exists>q \<in> set (events t). er_id q = er_id r \<and> er_fencing_token q = Suc (er_fencing_token r)"
    and "lease_FencingToken (ce_Lease c) = Suc (er_fencing_token r)"
proof -
  let ?g = "lease_row w (to_int64 (now + Milliseconds lease)) now"
  have ev: "events t = sql_update (\<lambda>q. er_id q = er_id r) ?g (events s)"
    and "lease_FencingToken (ce_Lease c) = er_fencing_token r + 1"
    by (rule Claim_ok [OF assms(2)], use assms(3) in simp)+
  then show "lease_FencingToken (ce_Lease c) = Suc (er_fencing_token r)" by simp
  have "?g r \<in> set (events t)"
    using claim_candidate_Some(1) [OF assms(3)] store_inv_ids [OF assms(1)]
    by (simp add: ev set_update_row)
  then show "\<exists>q \<in> set (events t). er_id q = er_id r \<and> er_fencing_token q = Suc (er_fencing_token r)"
    by (rule bexI [rotated]) (simp add: lease_row_def)
qed

lemma Claim_trans: "ControlStore_Claim fl now w d s = (res, t) \<Longrightarrow> store_trans s t"
  using store_transI [of s fl "now * Millisecond" "OpClaim w d"]
  by (simp add: UnixMilli_def Millisecond_def)

section \<open>Fencing\<close>

text \<open>
  C2: Fencing. When an event that one worker has claimed is claimed again later, the second claim
  carries a strictly larger fencing token, and from then on, in every later state of the store, a
  control frame with the first token is refused as stale and changes nothing.
\<close>

theorem stale_token_rejected:
  assumes "store_reachable s"
    and "ControlStore_Claim fl1 now1 w1 d1 s = (Inr c1, s1)" and "claim_candidate (events s) = Some r1"
    and "store_steps s1 t"
    and "ControlStore_Claim fl2 now2 w2 d2 t = (Inr c2, t1)" and "claim_candidate (events t) = Some r2"
    and "er_id r2 = er_id r1"
    and "store_steps t1 u"
    and "cf_EventID f = er_id r1" and "cf_FencingToken f = lease_FencingToken (ce_Lease c1)"
  shows "lease_FencingToken (ce_Lease c1) < lease_FencingToken (ce_Lease c2)
     \<and> (\<exists>e. ControlStore_Settle fl now f u = (Inl e, u))
     \<and> (\<exists>e. ControlStore_MarkReceived fl now f u = (Inl e, u))
     \<and> (ControlFrame_Validate f = Inr () \<and> cf_Kind f \<in> {ControlSettledOK, ControlSettledError} \<longrightarrow>
          ControlStore_Settle no_faults now f u = (Inl ErrStaleLease, u))"
proof -
  have inv: "store_inv s" using assms(1) by (rule store.inv_reachable)
  have inv1: "store_inv s1" by (rule store_inv_step [OF inv Claim_trans [OF assms(2)]])
  have invt: "store_inv t" by (rule store.inv_steps [OF assms(4) inv1])
  have invt1: "store_inv t1" by (rule store_inv_step [OF invt Claim_trans [OF assms(5)]])
  have invu: "store_inv u" by (rule store.inv_steps [OF assms(8) invt1])
  note tok1 = Claim_new_row [OF inv assms(2,3)] and tok2 = Claim_new_row [OF invt assms(5,6)]
  obtain q1 where q1: "q1 \<in> set (events s1)" "er_id q1 = er_id r1"
    "er_fencing_token q1 = Suc (er_fencing_token r1)"
    using tok1(1) by blast
  obtain q2 where q2: "q2 \<in> set (events t1)" "er_id q2 = er_id r2"
    "er_fencing_token q2 = Suc (er_fencing_token r2)"
    using tok2(1) by blast
  have "row_le q1 r2"
    using claim_candidate_Some(1) [OF assms(6)] q1 assms(7)
    by (intro store_row_later [OF inv1 assms(4)]) simp_all
  then have lt: "er_fencing_token q1 \<le> er_fencing_token r2" by (auto simp: row_le_def)
  have "\<not> frame_owns f u"
  proof
    assume "frame_owns f u"
    then obtain p where p: "p \<in> set (events u)" "er_id p = cf_EventID f"
      "er_fencing_token p = cf_FencingToken f"
      by (auto simp: frame_owns_def)
    then have "row_le q2 p"
      using q2 assms(7,9) by (intro store_row_later [OF invt1 assms(8)]) simp_all
    then have "er_fencing_token q2 \<le> er_fencing_token p" by (auto simp: row_le_def)
    with p(3) lt q1(3) q2(3) tok1(2) assms(10) show False by simp
  qed
  with invu lt q1(3) tok1(2) tok2(2) show ?thesis
    using frame_without_lease [of u f fl now] frame_without_lease_stale(1) [of u f now] by simp
qed

section \<open>Settlement\<close>

lemma Settle_trans: "ControlStore_Settle fl now f s = (res, t) \<Longrightarrow> store_trans s t"
  using store_transI [of s fl "now * Millisecond" "OpSettle f"]
  by (simp add: UnixMilli_def Millisecond_def)

definition settlement_of :: "ControlFrame \<Rightarrow> settlement_row" where
  "settlement_of f =
     \<lparr>st_event_id = cf_EventID f, st_kind = cf_Kind f, st_worker_id = cf_WorkerID f,
      st_fencing_token = cf_FencingToken f, st_at_ms = cf_AtMS f, st_evidence = cf_Evidence f\<rparr>"

text \<open>An event whose lease is still open has no settlement yet.\<close>

lemma held_no_settlement:
  assumes "tables_inv ev se" and "r \<in> set ev" and "held r"
  shows "er_id r \<notin> st_event_id ` set se"
proof
  assume "er_id r \<in> st_event_id ` set se"
  then obtain st q where "st \<in> set se" "st_event_id st = er_id r" "q \<in> set ev" "settles st q"
    using tables_invD(5) [OF assms(1)] by (metis imageE)
  then have "q = r"
    using distinct_key_eq [OF tables_invD(1) [OF assms(1)], of q r] assms(2) by (simp add: settles_def)
  with \<open>settles st q\<close> assms(3) show False using settles_settled settled_not_held by blast
qed

lemma Settle_ok:
  assumes inv: "store_inv s" and st: "ControlStore_Settle fl now f s = (Inr u, t)"
  obtains r where "r \<in> set (events s)" and "owns_lease f [DeliveryLeased, DeliveryReceived] now r"
    and "set (events t) =
            insert (release_row (settle_target (cf_Kind f)) now r) (set (events s) - {r})"
    and "settlements t = settlements s @ [settlement_of f]"
    and "\<exists>h. delivery_history t = delivery_history s @ [h] \<and> dh_event_id h = cf_EventID f
             \<and> dh_state h = settle_target (cf_Kind f) \<and> dh_fencing_token h = Some (cf_FencingToken f)"
    and "outbox t = outbox s"
  using st store_inv_ids [OF inv]
proof (rule Settle_cases)
  fix r
  assume r: "r \<in> set (events s)" and own: "owns_lease f [DeliveryLeased, DeliveryReceived] now r"
    and t: "t = append_history fl SettleHistory (cf_EventID f) (settle_target (cf_Kind f))
             (Some (cf_WorkerID f)) (Some (cf_FencingToken f)) (cf_AtMS f) (cf_Evidence f)
             (s\<lparr>events := sql_update (\<lambda>q. er_id q = er_id r)
                   (release_row (settle_target (cf_Kind f)) now) (events s),
                settlements := insert_settlement f (settlements s)\<rparr>)"
  have "cf_EventID f \<notin> st_event_id ` set (settlements s)"
    using held_no_settlement [OF store_inv_tables [OF inv] r] own
    by (simp add: owns_lease_id owns_lease_held)
  then have se: "settlements t = settlements s @ [settlement_of f]"
    by (simp add: t insert_settlement_def settlement_of_def)
  have ev: "set (events t) =
      insert (release_row (settle_target (cf_Kind f)) now r) (set (events s) - {r})"
    by (simp add: t set_update_row [OF store_inv_ids [OF inv] r])
  have "fl SettleHistory = None"
    using st
    by (auto simp: ControlStore_Settle_def Let_def split: if_splits option.splits sum.splits)
  then have "\<exists>h. delivery_history t = delivery_history s @ [h] \<and> dh_event_id h = cf_EventID f
      \<and> dh_state h = settle_target (cf_Kind f) \<and> dh_fencing_token h = Some (cf_FencingToken f)"
    by (simp add: t append_history_def)
  moreover have "outbox t = outbox s" by (simp add: t)
  ultimately show thesis using r own ev se by (rule that [rotated -2])
qed simp

text \<open>
  C4: Settle is all or nothing under any failure. If it reports an error the store is exactly what
  it was; if it succeeds, the frame owned a live lease, the event is released into the settled
  state of the frame's kind, the settlement with the frame's evidence is recorded, one history
  row is appended and nothing else changes.
\<close>

theorem Settle_all_or_nothing:
  assumes "store_reachable s"
  shows "case ControlStore_Settle fl now f s of
      (Inl e, t) \<Rightarrow> t = s
    | (Inr u, t) \<Rightarrow> \<exists>r \<in> set (events s).
        owns_lease f [DeliveryLeased, DeliveryReceived] now r
        \<and> set (events t) =
            insert (release_row (settle_target (cf_Kind f)) now r) (set (events s) - {r})
        \<and> settlements t = settlements s @ [settlement_of f]
        \<and> (\<exists>h. delivery_history t = delivery_history s @ [h] \<and> dh_event_id h = cf_EventID f
             \<and> dh_state h = settle_target (cf_Kind f) \<and> dh_fencing_token h = Some (cf_FencingToken f))
        \<and> outbox t = outbox s"
proof -
  have inv: "store_inv s" using assms by (rule store.inv_reachable)
  obtain res t where st: "ControlStore_Settle fl now f s = (res, t)" by fastforce
  show ?thesis
  proof (cases res)
    case (Inl e)
    from st store_inv_ids [OF inv] have "t = s" by (rule Settle_cases) (use Inl in simp_all)
    with st Inl show ?thesis by simp
  next
    case (Inr u)
    from inv st [unfolded Inr] show ?thesis by (rule Settle_ok) (use st Inr in auto)
  qed
qed

text \<open>
  C3: A settlement is final. After a successful Settle, in every later state of the store the
  event keeps its settled state and its one settlement record, is never offered to a claim again,
  and every further control frame for it, from any worker with any token, is refused without
  effect.
\<close>

theorem settlement_is_final:
  assumes "store_reachable s" and "ControlStore_Settle fl now f s = (Inr (), t)"
    and "store_steps t u"
  shows "(\<exists>r \<in> set (events u). er_id r = cf_EventID f \<and> er_state r = settle_target (cf_Kind f))
     \<and> {st \<in> set (settlements u). st_event_id st = cf_EventID f} = {settlement_of f}
     \<and> (\<forall>c. claim_candidate (events u) = Some c \<longrightarrow> er_id c \<noteq> cf_EventID f)
     \<and> (\<forall>g fl' now'. cf_EventID g = cf_EventID f \<longrightarrow>
          (\<exists>e. ControlStore_Settle fl' now' g u = (Inl e, u))
          \<and> (\<exists>e. ControlStore_MarkReceived fl' now' g u = (Inl e, u)))"
proof -
  have inv: "store_inv s" using assms(1) by (rule store.inv_reachable)
  have invt: "store_inv t" by (rule store_inv_step [OF inv Settle_trans [OF assms(2)]])
  have invu: "store_inv u" by (rule store.inv_steps [OF assms(3) invt])
  obtain r where own: "owns_lease f [DeliveryLeased, DeliveryReceived] now r"
    and ev: "set (events t) =
        insert (release_row (settle_target (cf_Kind f)) now r) (set (events s) - {r})"
    and se: "settlements t = settlements s @ [settlement_of f]"
    by (rule Settle_ok [OF inv assms(2)])
  let ?r = "release_row (settle_target (cf_Kind f)) now r"
  have r: "?r \<in> set (events t)" "er_id ?r = cf_EventID f" "settled ?r"
    "er_state ?r = settle_target (cf_Kind f)"
    using ev own by (auto simp: owns_lease_def release_row_def settled_def settle_target_def)
  obtain q where q: "q \<in> set (events u)" "row_le ?r q" "er_id q = er_id ?r"
    using store_row_exists [OF invt assms(3) r(1)] .
  have q_state: "er_state q = settle_target (cf_Kind f)"
    using q(2) r(3,4) by (cases "er_state q") (auto simp: row_le_def settle_target_def split: if_splits)
  then have q_settled: "settled q" using r(3,4) by (simp add: settled_def)
  have only: "p = q" if "p \<in> set (events u)" "er_id p = cf_EventID f" for p
    using store_row_unique [OF invu that(1) q(1)] that(2) q(3) r(2) by simp
  have "settlement_of f \<in> set (settlements u)"
    using store.le_steps [OF assms(3) invt] se by (auto simp: store_le_def)
  moreover have "st_event_id (settlement_of f) = cf_EventID f" by (simp add: settlement_of_def)
  moreover have "distinct (map st_event_id (settlements u))"
    by (rule tables_invD(3) [OF store_inv_tables [OF invu]])
  ultimately have sett: "{st \<in> set (settlements u). st_event_id st = cf_EventID f} = {settlement_of f}"
    using distinct_key_eq [of st_event_id "settlements u"] by fastforce
  have claim: "er_id c \<noteq> cf_EventID f" if "claim_candidate (events u) = Some c" for c
    using only [OF claim_candidate_Some(1) [OF that]] claim_candidate_Some(2) [OF that]
      settled_not_held [OF q_settled] by blast
  have "\<not> frame_owns g u" if "cf_EventID g = cf_EventID f" for g
    using only settled_not_held [OF q_settled] that by (auto simp: frame_owns_def)
  then have "cf_EventID g = cf_EventID f \<longrightarrow>
      (\<exists>e. ControlStore_Settle fl' now' g u = (Inl e, u))
      \<and> (\<exists>e. ControlStore_MarkReceived fl' now' g u = (Inl e, u))" for g fl' now'
    using frame_without_lease [OF invu] by blast
  with q r(2) q_state sett claim show ?thesis by auto
qed

section \<open>Publication\<close>

lemma Publish_trans: "ControlStore_Publish fl now env s = (res, t) \<Longrightarrow> store_trans s t"
  using store_transI [of s fl "now * Millisecond" "OpPublish env"]
  by (simp add: UnixMilli_def Millisecond_def)

lemma find_by_key:
  assumes "distinct (map k rows)" and "r \<in> set rows"
  shows "find (\<lambda>q. k q = k r) rows = Some r"
  using assms by (induction rows) (auto simp: rev_image_eqI)

lemma Publish_created:
  assumes "ControlStore_Publish fl now env s = (Inr (e, True), t)"
  shows "e = env" and "\<exists>raw. marshal_Envelope env = Inr raw \<and> new_event_row env raw now \<in> set (events t)"
proof -
  obtain raw where raw: "marshal_Envelope env = Inr raw" and v: "\<exists>u. Envelope_Validate env = Inr u"
    using assms by (cases "Envelope_Validate env"; cases "marshal_Envelope env")
      (auto simp: ControlStore_Publish_def)
  from assms v raw
  have *: "e = env \<and> new_event_row env raw now \<in> set (events t)"
    by (auto simp: ControlStore_Publish_def insert_event_def Let_def
        split: option.splits sum.splits if_splits)
  then show "e = env" by simp
  from * raw show "\<exists>raw. marshal_Envelope env = Inr raw \<and> new_event_row env raw now \<in> set (events t)"
    by blast
qed

lemma Publish_known_key:
  assumes "store_inv s" and "r \<in> set (events s)" and "er_idempotency_key r = env_IdempotencyKey env"
    and "Envelope_Validate env = Inr ()"
  shows "snd (ControlStore_Publish fl now env s) = s"
    and "fst (ControlStore_Publish no_faults now env s) =
      (case unmarshal_Envelope (er_envelope r) of Inl e \<Rightarrow> Inl e | Inr old \<Rightarrow> Inr (old, False))"
proof -
  obtain raw where raw: "marshal_Envelope env = Inr raw" using marshal_Envelope_ok assms(4) by blast
  have ins: "insert_event (new_event_row env raw now) (events s) = Inr (0, events s)"
    using assms(2,3) by (auto simp: insert_event_def new_event_row_def rev_image_eqI)
  have "find (\<lambda>q. er_idempotency_key q = env_IdempotencyKey env) (events s) = Some r"
    using find_by_key [OF tables_invD(2) [OF store_inv_tables [OF assms(1)]] assms(2)] assms(3) by simp
  with assms(4) raw ins
  show "snd (ControlStore_Publish fl now env s) = s"
    and "fst (ControlStore_Publish no_faults now env s) =
      (case unmarshal_Envelope (er_envelope r) of Inl e \<Rightarrow> Inl e | Inr old \<Rightarrow> Inr (old, False))"
    by (simp_all add: ControlStore_Publish_def no_faults_def split: option.splits sum.splits)
qed

text \<open>
  C7: Publication is idempotent. Once an envelope has been stored, publishing any envelope with
  the same idempotency key at any later time leaves the store unchanged and, when no statement
  fails, reports it as not created together with the envelope decoded from the bytes stored first.
\<close>

theorem Publish_idempotent:
  assumes "store_reachable s" and "ControlStore_Publish fl now env s = (Inr (e, True), t)"
    and "store_steps t u"
    and "env_IdempotencyKey env' = env_IdempotencyKey env" and "Envelope_Validate env' = Inr ()"
  shows "snd (ControlStore_Publish fl' now' env' u) = u
     \<and> (\<exists>raw. marshal_Envelope env = Inr raw
          \<and> fst (ControlStore_Publish no_faults now' env' u) =
              (case unmarshal_Envelope raw of Inl err \<Rightarrow> Inl err | Inr old \<Rightarrow> Inr (old, False)))"
proof -
  have inv: "store_inv s" using assms(1) by (rule store.inv_reachable)
  have invt: "store_inv t" by (rule store_inv_step [OF inv Publish_trans [OF assms(2)]])
  have invu: "store_inv u" by (rule store.inv_steps [OF assms(3) invt])
  obtain raw where raw: "marshal_Envelope env = Inr raw"
    and row: "new_event_row env raw now \<in> set (events t)"
    using Publish_created(2) [OF assms(2)] by blast
  obtain q where q: "q \<in> set (events u)" "row_le (new_event_row env raw now) q"
    using store_row_exists [OF invt assms(3) row] .
  then have "er_idempotency_key q = env_IdempotencyKey env'" "er_envelope q = raw"
    using assms(4) by (simp_all add: row_le_def same_identity_def new_event_row_def)
  with Publish_known_key [OF invu q(1), of env'] assms(5) raw show ?thesis by auto
qed

section \<open>No event is lost\<close>

text \<open>
  C6: An event that is not settled stays available. In every reachable state it is either
  claimable already or held under a lease with a deadline, and one run of RequeueExpired at or
  after that deadline makes it claimable again under the same fencing token.
\<close>

theorem unsettled_becomes_claimable:
  assumes "store_reachable s" and "r \<in> set (events s)" and "\<not> settled r"
    and "\<And>u. er_lease_until_ms r = Some u \<Longrightarrow> u \<le> UnixMilli now"
  shows "\<exists>q \<in> set (events (snd (ControlStore_RequeueExpired no_faults now s))).
     er_id q = er_id r \<and> er_envelope q = er_envelope r \<and> claimable q
     \<and> er_fencing_token q = er_fencing_token r"
proof -
  have inv: "store_inv s" using assms(1) by (rule store.inv_reachable)
  have wf: "row_wf r" using tables_invD(4) [OF store_inv_tables [OF inv] assms(2)] .
  let ?g = "release_row DeliveryExpired (UnixMilli now)"
  have t: "set (events (snd (ControlStore_RequeueExpired no_faults now s))) =
      ?g ` {q \<in> set (events s). lease_over (UnixMilli now) q}
      \<union> {q \<in> set (events s). \<not> lease_over (UnixMilli now) q}"
    by (simp add: ControlStore_RequeueExpired_def no_faults_def Let_def set_sql_update)
  show ?thesis
  proof (cases "held r")
    case True
    with wf assms(4) have "lease_over (UnixMilli now) r"
      by (auto simp: row_wf_def lease_over_def held_def split: option.splits)
    with assms(2) have "?g r \<in> set (events (snd (ControlStore_RequeueExpired no_faults now s)))"
      by (auto simp: t)
    then show ?thesis by (rule bexI [rotated]) (simp add: release_row_def claimable_def)
  next
    case False
    with assms(3) have "claimable r" "\<not> lease_over (UnixMilli now) r"
      by (cases "er_state r"; simp add: held_def settled_def claimable_def lease_over_def)+
    with assms(2) show ?thesis by (intro bexI [of _ r]) (auto simp: t)
  qed
qed

section \<open>The delivery state machine\<close>

text \<open>
  The settlement protocol as the architecture describes it, for one event: published, leased to a
  worker under a fencing token, received by that worker, and settled, or expired and leased again
  under the next token.
\<close>

datatype delivery =
    Unknown
  | Published
  | Leased string nat
  | Received string nat
  | Expired nat
  | Settled bool nat

inductive delivery_step :: "delivery \<Rightarrow> delivery \<Rightarrow> bool" where
  publish: "delivery_step Unknown Published"
| lease: "delivery_step Published (Leased w 1)"
| lease_again: "delivery_step (Expired k) (Leased w (Suc k))"
| receive: "delivery_step (Leased w k) (Received w k)"
| settle_leased: "delivery_step (Leased w k) (Settled ok k)"
| settle_received: "delivery_step (Received w k) (Settled ok k)"
| expire_leased: "delivery_step (Leased w k) (Expired k)"
| expire_received: "delivery_step (Received w k) (Expired k)"

definition delivery_of_row :: "event_row \<Rightarrow> delivery" where
  "delivery_of_row r =
     (case er_state r of
        DeliveryPublished \<Rightarrow> Published
      | DeliveryLeased \<Rightarrow> Leased (the (er_owner r)) (er_fencing_token r)
      | DeliveryReceived \<Rightarrow> Received (the (er_owner r)) (er_fencing_token r)
      | DeliveryExpired \<Rightarrow> Expired (er_fencing_token r)
      | DeliverySettledOK \<Rightarrow> Settled True (er_fencing_token r)
      | DeliverySettledError \<Rightarrow> Settled False (er_fencing_token r))"

definition delivery_in :: "event_row list \<Rightarrow> string \<Rightarrow> delivery" where
  "delivery_in ev i =
     (case find (\<lambda>r. er_id r = i) ev of None \<Rightarrow> Unknown | Some r \<Rightarrow> delivery_of_row r)"

lemma find_update_id:
  assumes "\<And>r. er_id (g r) = er_id r"
  shows "find (\<lambda>r. er_id r = i) (sql_update p g ev) =
    map_option (\<lambda>r. if p r then g r else r) (find (\<lambda>r. er_id r = i) ev)"
  using assms by (induction ev) (auto simp: sql_update_simps)

lemma delivery_in_update:
  assumes "\<And>r. er_id (g r) = er_id r"
    and "\<And>r. r \<in> set ev \<Longrightarrow> p r \<Longrightarrow> delivery_step (delivery_of_row r) (delivery_of_row (g r))"
  shows "delivery_in (sql_update p g ev) i = delivery_in ev i
    \<or> delivery_step (delivery_in ev i) (delivery_in (sql_update p g ev) i)"
proof (cases "find (\<lambda>r. er_id r = i) ev")
  case None
  then show ?thesis by (simp add: delivery_in_def find_update_id [OF assms(1)])
next
  case (Some r)
  then have "r \<in> set ev" by (auto simp: find_Some_iff)
  with Some assms(2) show ?thesis
    by (cases "p r") (simp_all add: delivery_in_def find_update_id [OF assms(1)])
qed

lemma delivery_in_update_row:
  assumes "distinct (map er_id ev)" and "c \<in> set ev" and "\<And>r. er_id (g r) = er_id r"
    and "delivery_step (delivery_of_row c) (delivery_of_row (g c))"
  shows "delivery_in (sql_update (\<lambda>q. er_id q = er_id c) g ev) i = delivery_in ev i
    \<or> delivery_step (delivery_in ev i) (delivery_in (sql_update (\<lambda>q. er_id q = er_id c) g ev) i)"
proof (rule delivery_in_update [where p = "\<lambda>q. er_id q = er_id c" and g = g, OF assms(3)])
  fix q
  assume "q \<in> set ev" "er_id q = er_id c"
  then have "q = c" using assms(2) by (intro distinct_key_eq [OF assms(1)])
  with assms(4) show "delivery_step (delivery_of_row q) (delivery_of_row (g q))" by simp
qed

lemmas delivery_row_simps = delivery_of_row_def row_ops

lemma effect_delivery_step:
  assumes "store_effect ev se ev' se'" and inv: "tables_inv ev se"
  shows "delivery_in ev' i = delivery_in ev i \<or> delivery_step (delivery_in ev i) (delivery_in ev' i)"
  using assms(1)
proof cases
  case eff_none
  then show ?thesis by simp
next
  case (eff_publish env raw now)
  have "find (\<lambda>r. er_id r = env_ID env) ev = None"
    using eff_publish(6) by (simp add: find_None_iff) (metis image_eqI)
  moreover have "find P (xs @ ys) = (case find P xs of None \<Rightarrow> find P ys | Some x \<Rightarrow> Some x)"
    for P and xs ys :: "event_row list"
    by (induction xs) simp_all
  ultimately show ?thesis
    using eff_publish delivery_step.publish
    by (auto simp: delivery_in_def new_event_row_def delivery_of_row_def split: option.splits)
next
  case (eff_claim c w until now)
  note c = claim_candidate_Some(1,2) [OF eff_claim(3)]
  have "row_wf c" using tables_invD(4) [OF inv c(1)] .
  then have "delivery_step (delivery_of_row c) (delivery_of_row (lease_row w until now c))"
    using c(2) delivery_step.lease [of w] delivery_step.lease_again
    by (auto simp: delivery_row_simps claimable_def row_wf_def)
  then show ?thesis
    unfolding eff_claim using delivery_in_update_row [OF tables_invD(1) [OF inv] c(1)] by simp
next
  case (eff_receive c f now)
  then have "delivery_step (delivery_of_row c) (delivery_of_row (receive_row now c))"
    by (simp add: delivery_row_simps owns_lease_leased delivery_step.receive)
  then show ?thesis
    unfolding eff_receive
    using delivery_in_update_row [OF tables_invD(1) [OF inv] eff_receive(3)] by simp
next
  case (eff_settle f c now)
  then have "delivery_step (delivery_of_row c)
      (delivery_of_row (release_row (settle_target (cf_Kind f)) now c))"
    using owns_lease_held [OF eff_settle(5)]
    by (auto simp: delivery_row_simps held_def intro: delivery_step.intros)
  then show ?thesis
    unfolding eff_settle
    using delivery_in_update_row [OF tables_invD(1) [OF inv] eff_settle(4)] by simp
next
  case (eff_requeue now)
  have "delivery_step (delivery_of_row q) (delivery_of_row (release_row DeliveryExpired now q))"
    if "lease_over now q" for q
    using that by (auto simp: delivery_row_simps lease_over_def intro: delivery_step.intros)
  then show ?thesis unfolding eff_requeue by (intro delivery_in_update) auto
qed

text \<open>
  C1: The control store implements the delivery state machine. Seen through the row of any one
  event, every operation on a reachable store, under any faults, is either invisible or one step
  of the protocol: no state is skipped backwards, no token is reused and nothing leaves a settled
  state.
\<close>

theorem store_refines_delivery:
  assumes "store_reachable s"
  shows "delivery_in (events (store_apply fl now op s)) i = delivery_in (events s) i
    \<or> delivery_step (delivery_in (events s) i) (delivery_in (events (store_apply fl now op s)) i)"
proof -
  have inv: "store_inv s" using assms by (rule store.inv_reachable)
  show ?thesis
    using effect_delivery_step [OF store_trans_effect [OF store_transI store_inv_ids [OF inv]]
        store_inv_tables [OF inv]] .
qed

section \<open>Safety of every reachable store\<close>

text \<open>
  C5: In every reachable store, whatever operations failed on the way, event ids and idempotency
  keys are unique; a row has an owner and a deadline exactly while it is leased or received; the
  attempt counter equals the fencing token, which is 0 exactly for a row never claimed; and an
  event has a settlement, and then exactly one, just when its row is settled.
\<close>

theorem reachable_store_consistent:
  assumes "store_reachable s"
  shows "distinct (map er_id (events s)) \<and> distinct (map er_idempotency_key (events s))
     \<and> (\<forall>r \<in> set (events s).
          (er_state r \<in> {DeliveryLeased, DeliveryReceived} \<longleftrightarrow> er_owner r \<noteq> None)
          \<and> (er_owner r \<noteq> None \<longleftrightarrow> er_lease_until_ms r \<noteq> None)
          \<and> er_attempt r = er_fencing_token r
          \<and> (er_fencing_token r = 0 \<longleftrightarrow> er_state r = DeliveryPublished)
          \<and> (er_state r \<in> {DeliverySettledOK, DeliverySettledError} \<longleftrightarrow>
               (\<exists>!st. st \<in> set (settlements s) \<and> st_event_id st = er_id r)))
     \<and> st_event_id ` set (settlements s) \<subseteq> er_id ` set (events s)"
proof -
  have inv: "tables_inv (events s) (settlements s)"
    using store.inv_reachable [OF assms] by (rule store_inv_tables)
  have settled: "er_state r \<in> {DeliverySettledOK, DeliverySettledError} \<longleftrightarrow>
      (\<exists>!st. st \<in> set (settlements s) \<and> st_event_id st = er_id r)" if r: "r \<in> set (events s)" for r
  proof
    assume "er_state r \<in> {DeliverySettledOK, DeliverySettledError}"
    then obtain st where st: "st \<in> set (settlements s)" "st_event_id st = er_id r"
      using tables_invD(6) [OF inv r] by (auto simp: settled_def settles_def)
    moreover have "st' = st" if "st' \<in> set (settlements s)" "st_event_id st' = er_id r" for st'
      using distinct_key_eq [OF tables_invD(3) [OF inv] that(1) st(1)] that(2) st(2) by simp
    ultimately show "\<exists>!st. st \<in> set (settlements s) \<and> st_event_id st = er_id r" by blast
  next
    assume "\<exists>!st. st \<in> set (settlements s) \<and> st_event_id st = er_id r"
    then obtain st q where q: "st_event_id st = er_id r" "q \<in> set (events s)" "settles st q"
      using tables_invD(5) [OF inv] by blast
    then have "q = r"
      using r by (intro distinct_key_eq [OF tables_invD(1) [OF inv]]) (simp_all add: settles_def)
    with q(3) show "er_state r \<in> {DeliverySettledOK, DeliverySettledError}"
      using settles_settled by (simp add: settled_def)
  qed
  have wf: "(er_state r \<in> {DeliveryLeased, DeliveryReceived} \<longleftrightarrow> er_owner r \<noteq> None)
      \<and> (er_owner r \<noteq> None \<longleftrightarrow> er_lease_until_ms r \<noteq> None)
      \<and> er_attempt r = er_fencing_token r \<and> (er_fencing_token r = 0 \<longleftrightarrow> er_state r = DeliveryPublished)"
    if "r \<in> set (events s)" for r
    using tables_invD(4) [OF inv that] unfolding row_wf_def held_def by (simp only: insert_iff) blast
  have "st_event_id st \<in> er_id ` set (events s)" if "st \<in> set (settlements s)" for st
    using tables_invD(5) [OF inv that] unfolding settles_def by (metis image_eqI)
  then have "st_event_id ` set (settlements s) \<subseteq> er_id ` set (events s)" by blast
  with wf settled tables_invD(1,2) [OF inv] show ?thesis by (intro conjI ballI) simp_all
qed

text \<open>
  What the store has recorded is never taken back. Along any run an event keeps its id, key,
  name and stored bytes, its fencing token never decreases, a settled row keeps its state, no
  settlement is removed, and the delivery history only grows at its end.
\<close>

theorem store_never_forgets:
  assumes "store_reachable s" and "store_steps s t"
  shows "(\<forall>r \<in> set (events s). \<exists>q \<in> set (events t).
            same_identity r q \<and> er_fencing_token r \<le> er_fencing_token q
            \<and> (settled r \<longrightarrow> er_state q = er_state r \<and> er_fencing_token q = er_fencing_token r))
     \<and> set (settlements s) \<subseteq> set (settlements t)
     \<and> (\<exists>hs. delivery_history t = delivery_history s @ hs)"
proof -
  have le: "store_le s t" using store.le_steps [OF assms(2) store.inv_reachable [OF assms(1)]] .
  have row: "same_identity r q \<and> er_fencing_token r \<le> er_fencing_token q
      \<and> (settled r \<longrightarrow> er_state q = er_state r \<and> er_fencing_token q = er_fencing_token r)"
    if "row_le r q" for r q
  proof -
    have "state_rank (er_state q) \<le> 3" by (cases "er_state q") simp_all
    then show ?thesis using that by (auto simp: row_le_def settled_def)
  qed
  from le row show ?thesis unfolding store_le_def by blast
qed

section \<open>The outbox\<close>

lemma store_inv_outbox: "store_inv s \<Longrightarrow> distinct (map ob_seq (outbox s))"
  by (simp add: store_inv_def strict_sorted_iff)

lemma MarkOutboxDelivered_trans:
  "ControlStore_MarkOutboxDelivered fl q at s = (res, t) \<Longrightarrow> store_trans s t"
  using store_transI [of s fl at "OpMarkOutboxDelivered q"] by simp

definition outbox_due :: "instant \<Rightarrow> outbox_row \<Rightarrow> bool" where
  "outbox_due now b \<longleftrightarrow> outbox_pending b \<and> ob_available_at_ms b \<le> UnixMilli now"

lemma NextOutbox_ok:
  assumes "ControlStore_NextOutbox fl now s = Inr rec"
  obtains b where "b \<in> set (outbox s)" and "outbox_due now b"
    and "\<forall>c \<in> set (outbox s). outbox_due now c \<longrightarrow> ob_seq b \<le> ob_seq c"
    and "rec = \<lparr>or_Seq = ob_seq b, or_EventID = ob_event_id b, or_Transport = ob_transport b,
               or_Payload = ob_payload b, or_Attempts = ob_attempts b\<rparr>"
proof -
  let ?due = "filter (\<lambda>r. outbox_pending r \<and> ob_available_at_ms r \<le> UnixMilli now) (outbox s)"
  obtain b bs where b: "order_limit ob_seq 1 ?due = b # bs"
    and rec: "rec = \<lparr>or_Seq = ob_seq b, or_EventID = ob_event_id b, or_Transport = ob_transport b,
               or_Payload = ob_payload b, or_Attempts = ob_attempts b\<rparr>"
    using assms unfolding ControlStore_NextOutbox_def
    by (cases "fl OutboxSelect"; cases "order_limit ob_seq 1 ?due") auto
  show ?thesis
    using that [OF _ _ _ rec] order_limit_1_min [OF b] by (simp add: outbox_due_def)
qed

lemma MarkOutboxDelivered_twice:
  assumes "store_inv s" and "b \<in> set (outbox s)" and "\<not> outbox_pending b"
  shows "\<exists>e. ControlStore_MarkOutboxDelivered fl (ob_seq b) at s = (Inl e, s)"
proof -
  have "\<not> (ob_seq c = ob_seq b \<and> outbox_pending c)" if "c \<in> set (outbox s)" for c
    using distinct_key_eq [OF store_inv_outbox [OF assms(1)] that assms(2)] assms(3) by blast
  then have "sql_count (\<lambda>c. ob_seq c = ob_seq b \<and> outbox_pending c) (outbox s) = 0"
    "sql_update (\<lambda>c. ob_seq c = ob_seq b \<and> outbox_pending c)
       (\<lambda>c. c\<lparr>ob_delivered_at_ms := Some (UnixMilli at)\<rparr>) (outbox s) = outbox s"
    by (simp_all add: sql_count_0 sql_update_none)
  then show ?thesis
    by (auto simp: ControlStore_MarkOutboxDelivered_def Let_def split: option.splits)
qed

lemma MarkOutboxDelivered_ok:
  assumes "ControlStore_MarkOutboxDelivered fl q at s = (Inr (), t)"
  obtains b where "b \<in> set (outbox s)" and "ob_seq b = q" and "outbox_pending b"
    and "b\<lparr>ob_delivered_at_ms := Some (UnixMilli at)\<rparr> \<in> set (outbox t)"
proof -
  let ?p = "\<lambda>r. ob_seq r = q \<and> outbox_pending r"
  have n: "sql_count ?p (outbox s) = 1"
    and t: "outbox t = sql_update ?p (\<lambda>r. r\<lparr>ob_delivered_at_ms := Some (UnixMilli at)\<rparr>) (outbox s)"
    using assms
    by (auto simp: ControlStore_MarkOutboxDelivered_def Let_def split: option.splits if_splits)
  from n obtain b where b: "b \<in> set (outbox s)" "?p b"
    using sql_count_0 [of ?p "outbox s"] by auto
  with t have "b\<lparr>ob_delivered_at_ms := Some (UnixMilli at)\<rparr> \<in> set (outbox t)"
    by (auto simp: set_sql_update)
  with b that show ?thesis by blast
qed

text \<open>
  C33: The outbox hands out the oldest record that is pending and due, and a record marked
  delivered stays delivered: at every later time it is not handed out again and marking it again
  fails without effect.
\<close>

theorem outbox_at_most_once:
  assumes "store_reachable s"
    and "ControlStore_NextOutbox fl now s = Inr rec"
    and "ControlStore_MarkOutboxDelivered fl' (or_Seq rec) at s = (Inr (), t)"
    and "store_steps t u"
  shows "(\<exists>b \<in> set (outbox s). ob_seq b = or_Seq rec \<and> ob_payload b = or_Payload rec
            \<and> ob_transport b = or_Transport rec \<and> outbox_due now b
            \<and> (\<forall>c \<in> set (outbox s). outbox_due now c \<longrightarrow> or_Seq rec \<le> ob_seq c))
     \<and> (\<forall>fl2 now2 rec2. ControlStore_NextOutbox fl2 now2 u = Inr rec2 \<longrightarrow> or_Seq rec2 \<noteq> or_Seq rec)
     \<and> (\<forall>fl2 at2. \<exists>e. ControlStore_MarkOutboxDelivered fl2 (or_Seq rec) at2 u = (Inl e, u))"
proof -
  have invt: "store_inv t"
    using store_inv_step [OF store.inv_reachable [OF assms(1)] MarkOutboxDelivered_trans [OF assms(3)]] .
  have invu: "store_inv u" using store.inv_steps [OF assms(4) invt] .
  obtain b0 where b0: "ob_seq b0 = or_Seq rec" and
    "b0\<lparr>ob_delivered_at_ms := Some (UnixMilli at)\<rparr> \<in> set (outbox t)" (is "?d \<in> _")
    by (rule MarkOutboxDelivered_ok [OF assms(3)])
  then obtain c where "c \<in> set (outbox u)" "outbox_le ?d c"
    using store.le_steps [OF assms(4) invt] unfolding store_le_def by blast
  then have d: "?d \<in> set (outbox u)" "ob_seq ?d = or_Seq rec" "\<not> outbox_pending ?d"
    using b0 by (simp_all add: outbox_le_def outbox_pending_def)
  have "or_Seq rec2 \<noteq> or_Seq rec" if "ControlStore_NextOutbox fl2 now2 u = Inr rec2" for fl2 now2 rec2
  proof -
    obtain c where c: "c \<in> set (outbox u)" "outbox_due now2 c" "or_Seq rec2 = ob_seq c"
      by (rule NextOutbox_ok [OF \<open>_ = Inr rec2\<close>]) simp
    then have "c \<noteq> ?d" using d(3) by (auto simp: outbox_due_def)
    then show ?thesis using distinct_key_eq [OF store_inv_outbox [OF invu] c(1) d(1)] c(3) d(2) by metis
  qed
  moreover have "\<exists>e. ControlStore_MarkOutboxDelivered fl2 (or_Seq rec) at2 u = (Inl e, u)" for fl2 at2
    using MarkOutboxDelivered_twice [OF invu d(1,3)] d(2) by simp
  moreover obtain b where b: "b \<in> set (outbox s)" "outbox_due now b"
    "\<forall>c \<in> set (outbox s). outbox_due now c \<longrightarrow> ob_seq b \<le> ob_seq c"
    "rec = \<lparr>or_Seq = ob_seq b, or_EventID = ob_event_id b, or_Transport = ob_transport b,
            or_Payload = ob_payload b, or_Attempts = ob_attempts b\<rparr>"
    by (rule NextOutbox_ok [OF assms(2)])
  moreover have "\<exists>b \<in> set (outbox s). ob_seq b = or_Seq rec \<and> ob_payload b = or_Payload rec
      \<and> ob_transport b = or_Transport rec \<and> outbox_due now b
      \<and> (\<forall>c \<in> set (outbox s). outbox_due now c \<longrightarrow> or_Seq rec \<le> ob_seq c)"
    using b by (intro bexI [of _ b]) simp_all
  ultimately show ?thesis by blast
qed

section \<open>A concrete run\<close>

text \<open>
  One event through the store: published, claimed by a first worker whose lease runs out,
  requeued, claimed by a second worker, settled; and one outbox record handed out and delivered.
  The run instantiates the hypotheses of the theorems above.
\<close>

definition sample_claim :: "string \<Rightarrow> int \<Rightarrow> nat \<Rightarrow> ClaimedEvent" where
  "sample_claim w until k =
     \<lparr>ce_Envelope = sample_envelope ''e1'' ''k1'',
      ce_Lease = \<lparr>lease_EventID = ''e1'', lease_WorkerID = w, lease_UntilMS = until,
                  lease_Attempt = int k, lease_FencingToken = k\<rparr>,
      ce_State = DeliveryLeased\<rparr>"

definition sample_frame :: "ControlKind \<Rightarrow> string \<Rightarrow> nat \<Rightarrow> ControlFrame" where
  "sample_frame kind w k =
     \<lparr>cf_Kind = kind, cf_EventID = ''e1'', cf_WorkerID = w, cf_FencingToken = k, cf_AtMS = 30,
      cf_Evidence = []\<rparr>"

definition run_published :: ControlStore where
  "run_published = snd (ControlStore_Publish no_faults 5 (sample_envelope ''e1'' ''k1'') empty_store)"

definition run_claimed :: ControlStore where
  "run_claimed = snd (ControlStore_Claim no_faults 10 ''w1'' (10 * Millisecond) run_published)"

definition run_requeued :: ControlStore where
  "run_requeued = snd (ControlStore_RequeueExpired no_faults (21 * Millisecond) run_claimed)"

definition run_reclaimed :: ControlStore where
  "run_reclaimed = snd (ControlStore_Claim no_faults 22 ''w2'' (10 * Millisecond) run_requeued)"

definition run_settled :: ControlStore where
  "run_settled = snd (ControlStore_Settle no_faults 30 (sample_frame ControlSettledOK ''w2'' 2) run_reclaimed)"

definition run_outbox :: ControlStore where
  "run_outbox = snd (ControlStore_EnqueueOutbox no_faults ''e1'' ''nats'' ''x'' 0 empty_store)"

definition run_delivered :: ControlStore where
  "run_delivered = snd (ControlStore_MarkOutboxDelivered no_faults 1 7 run_outbox)"

lemma run_publish:
  "ControlStore_Publish no_faults 5 (sample_envelope ''e1'' ''k1'') empty_store =
     (Inr (sample_envelope ''e1'' ''k1'', True), run_published)"
proof (rule prod_eqI)
  show "fst (ControlStore_Publish no_faults 5 (sample_envelope ''e1'' ''k1'') empty_store) =
      fst (Inr (sample_envelope ''e1'' ''k1'', True), run_published)"
    by code_simp
qed (simp add: run_published_def)

lemma run_claim:
  "ControlStore_Claim no_faults 10 ''w1'' (10 * Millisecond) run_published =
     (Inr (sample_claim ''w1'' 20 1), run_claimed)"
proof (rule prod_eqI)
  show "fst (ControlStore_Claim no_faults 10 ''w1'' (10 * Millisecond) run_published) =
      fst (Inr (sample_claim ''w1'' 20 1) :: ClaimedEvent result, run_claimed)"
    by code_simp
qed (simp add: run_claimed_def)

lemma run_reclaim:
  "ControlStore_Claim no_faults 22 ''w2'' (10 * Millisecond) run_requeued =
     (Inr (sample_claim ''w2'' 32 2), run_reclaimed)"
proof (rule prod_eqI)
  show "fst (ControlStore_Claim no_faults 22 ''w2'' (10 * Millisecond) run_requeued) =
      fst (Inr (sample_claim ''w2'' 32 2) :: ClaimedEvent result, run_reclaimed)"
    by code_simp
qed (simp add: run_reclaimed_def)

lemma run_settle:
  "ControlStore_Settle no_faults 30 (sample_frame ControlSettledOK ''w2'' 2) run_reclaimed =
     (Inr (), run_settled)"
proof (rule prod_eqI)
  show "fst (ControlStore_Settle no_faults 30 (sample_frame ControlSettledOK ''w2'' 2) run_reclaimed) =
      fst (Inr () :: unit result, run_settled)"
    by code_simp
qed (simp add: run_settled_def)

lemma run_requeue: "store_trans run_claimed run_requeued"
  using store_transI [of run_claimed no_faults "21 * Millisecond" OpRequeueExpired]
  by (simp add: run_requeued_def)

lemma run_enqueue: "store_trans empty_store run_outbox"
  using store_transI [of empty_store no_faults 0 "OpEnqueueOutbox ''e1'' ''nats'' ''x'' 0"]
  by (simp add: run_outbox_def)

lemma run_candidates:
  "map_option er_id (claim_candidate (events run_published)) = Some ''e1''"
  "map_option er_id (claim_candidate (events run_requeued)) = Some ''e1''"
  by code_simp+

lemma empty_store_reachable: "store_reachable empty_store"
  by (rule reachable_init) (simp add: store_init_def)

lemma run_reachable:
  "store_reachable run_published" "store_reachable run_claimed" "store_reachable run_requeued"
  "store_reachable run_reclaimed" "store_reachable run_settled" "store_reachable run_outbox"
proof -
  note reach = reachable_step [where init = store_init and trans = store_trans]
  show p: "store_reachable run_published"
    using reach [OF empty_store_reachable Publish_trans [OF run_publish]] .
  show c: "store_reachable run_claimed" using reach [OF p Claim_trans [OF run_claim]] .
  show q: "store_reachable run_requeued" using reach [OF c run_requeue] .
  show d: "store_reachable run_reclaimed" using reach [OF q Claim_trans [OF run_reclaim]] .
  show "store_reachable run_settled" using reach [OF d Settle_trans [OF run_settle]] .
  show "store_reachable run_outbox" using reach [OF empty_store_reachable run_enqueue] .
qed

section \<open>The theorems on the concrete run\<close>

theorem Claim_takes_oldest_witness:
  "\<exists>r \<in> set (events run_published). claimable r
     \<and> unmarshal_Envelope (er_envelope r) = Inr (sample_envelope ''e1'' ''k1'')
     \<and> er_fencing_token r = 0
     \<and> set (events run_claimed) = insert (lease_row ''w1'' 20 10 r) (set (events run_published) - {r})"
  using Claim_takes_oldest [OF run_reachable(1) run_claim] by (auto simp: sample_claim_def)

theorem stale_token_rejected_witness:
  "ControlStore_Settle no_faults 31 (sample_frame ControlSettledOK ''w1'' 1) run_settled =
     (Inl ErrStaleLease, run_settled)"
proof -
  obtain r1 r2 where r: "claim_candidate (events run_published) = Some r1"
    "claim_candidate (events run_requeued) = Some r2" "er_id r1 = ''e1''" "er_id r2 = ''e1''"
    using run_candidates by auto
  have "store_steps run_claimed run_requeued" "store_steps run_reclaimed run_settled"
    using run_requeue Settle_trans [OF run_settle] by (auto intro: r_into_rtranclp)
  from stale_token_rejected [OF run_reachable(1) run_claim r(1) this(1) run_reclaim r(2) _ this(2),
      of "sample_frame ControlSettledOK ''w1'' 1" _ 31]
  show ?thesis
    using r by (simp add: sample_frame_def sample_claim_def ControlFrame_Validate_def)
qed

theorem Settle_all_or_nothing_witness:
  "\<exists>r \<in> set (events run_reclaimed).
     owns_lease (sample_frame ControlSettledOK ''w2'' 2) [DeliveryLeased, DeliveryReceived] 30 r
     \<and> settlements run_settled =
         settlements run_reclaimed @ [settlement_of (sample_frame ControlSettledOK ''w2'' 2)]"
  using Settle_all_or_nothing [OF run_reachable(4),
      where fl = no_faults and now = 30 and f = "sample_frame ControlSettledOK ''w2'' 2"]
  by (auto simp: run_settle)

theorem settlement_is_final_witness:
  "\<exists>e. ControlStore_Settle no_faults 33 (sample_frame ControlSettledError ''w2'' 2) run_settled =
     (Inl e, run_settled)"
  using settlement_is_final [OF run_reachable(4) run_settle, of run_settled]
  by (auto simp: sample_frame_def)

theorem Publish_idempotent_witness:
  "snd (ControlStore_Publish no_faults 9 (sample_envelope ''e2'' ''k1'') run_claimed) = run_claimed"
proof -
  have "store_steps run_published run_claimed"
    using Claim_trans [OF run_claim] by (rule r_into_rtranclp)
  moreover have "Envelope_Validate (sample_envelope ''e2'' ''k1'') = Inr ()" by code_simp
  ultimately show ?thesis
    using Publish_idempotent [OF empty_store_reachable run_publish] by (simp add: sample_envelope_def)
qed

theorem unsettled_becomes_claimable_witness:
  "\<exists>r \<in> set (events run_claimed). held r \<and>
     (\<exists>q \<in> set (events run_requeued). er_id q = er_id r \<and> claimable q \<and> er_fencing_token q = 1)"
proof -
  have "\<exists>r \<in> set (events run_claimed). held r \<and> er_lease_until_ms r = Some 20 \<and> er_fencing_token r = 1"
    by code_simp
  then obtain r where r: "r \<in> set (events run_claimed)" "held r" "er_lease_until_ms r = Some 20"
    "er_fencing_token r = 1" by blast
  then have "\<not> settled r" using settled_not_held by blast
  from unsettled_becomes_claimable [OF run_reachable(2) r(1) this, of "21 * Millisecond"] r
  show ?thesis by (auto simp: run_requeued_def UnixMilli_def Millisecond_def)
qed

theorem store_refines_delivery_witness:
  "delivery_in (events run_claimed) ''e1'' = Leased ''w1'' 1
   \<and> delivery_step (Leased ''w1'' 1) (delivery_in (events run_requeued) ''e1'')"
proof -
  have "delivery_in (events run_claimed) ''e1'' = Leased ''w1'' 1"
    "delivery_in (events run_requeued) ''e1'' = Expired 1"
    by code_simp+
  then show ?thesis
    using store_refines_delivery [OF run_reachable(2), where fl = no_faults
        and now = "21 * Millisecond" and op = OpRequeueExpired and i = "''e1''"]
    by (simp add: run_requeued_def)
qed

theorem reachable_store_consistent_witness:
  "distinct (map er_idempotency_key (events run_settled))
   \<and> st_event_id ` set (settlements run_settled) \<subseteq> er_id ` set (events run_settled)"
  using reachable_store_consistent [OF run_reachable(5)] by simp

theorem store_never_forgets_witness:
  "set (settlements run_reclaimed) \<subseteq> set (settlements run_settled)
   \<and> (\<exists>hs. delivery_history run_settled = delivery_history run_reclaimed @ hs)"
  using store_never_forgets [OF run_reachable(4), of run_settled] Settle_trans [OF run_settle]
  by (simp add: r_into_rtranclp)

theorem outbox_at_most_once_witness:
  "\<exists>e. ControlStore_MarkOutboxDelivered no_faults 1 9 run_delivered = (Inl e, run_delivered)"
proof -
  have "ControlStore_NextOutbox no_faults 0 run_outbox =
      Inr \<lparr>or_Seq = 1, or_EventID = ''e1'', or_Transport = ''nats'', or_Payload = ''x'', or_Attempts = 0\<rparr>"
    by code_simp
  moreover have "ControlStore_MarkOutboxDelivered no_faults 1 7 run_outbox = (Inr (), run_delivered)"
    by (rule prod_eqI) (code_simp, simp add: run_delivered_def)
  ultimately show ?thesis
    using outbox_at_most_once [OF run_reachable(6), of no_faults 0 _ no_faults 7 run_delivered run_delivered]
    by simp
qed

theorem DigestHex_binding_witness:
  "is_ok (DigestHex (take 4) (sample_envelope ''e1'' ''k1''))
   \<and> DigestHex (take 4) (sample_envelope ''e1'' ''k1'') = DigestHex (take 4) (sample_envelope ''e2'' ''k2'')"
proof -
  have "is_ok (Envelope_Validate (sample_envelope ''e1'' ''k1''))"
    "is_ok (Envelope_Validate (sample_envelope ''e2'' ''k2''))"
    by code_simp+
  moreover have "case (CanonicalBytes (sample_envelope ''e1'' ''k1''), CanonicalBytes (sample_envelope ''e2'' ''k2''))
      of (Inr a, Inr b) \<Rightarrow> take 4 a = take 4 b | _ \<Rightarrow> False"
    by code_simp
  ultimately show ?thesis
    using DigestHex_binding [of "take 4" "sample_envelope ''e1'' ''k1''" None "sample_envelope ''e2'' ''k2''"]
    by (auto split: sum.splits)
qed

end
