(* ===== verification/UbiQ_Replay.thy ===== *)
theory UbiQ_Replay
  imports UbiQ_Model
begin

text \<open>
  The replay caches of the runtime: \<^verbatim>\<open>CryptoProvider.replay\<close> in
  \<^verbatim>\<open>src/runtime/go/ubiq/crypto.go\<close> and \<^verbatim>\<open>DPoPVerifier.seen\<close> in
  \<^verbatim>\<open>src/runtime/go/ubiq/dpop.go\<close>. Both drop the entries older than a cutoff, refuse a key that is
  left, and enter the new one with its creation time. The locale states when that is enough to
  refuse every replay.
\<close>

type_synonym replay_cache = "string \<rightharpoonup> int"

definition replay_prune :: "int \<Rightarrow> replay_cache \<Rightarrow> replay_cache" where
  "replay_prune cutoff c =
     (\<lambda>k. case c k of None \<Rightarrow> None | Some at \<Rightarrow> if at < cutoff then None else Some at)"

definition replay_insert :: "go_error \<Rightarrow> int \<Rightarrow> string \<Rightarrow> int \<Rightarrow> replay_cache \<Rightarrow> unit result \<times> replay_cache" where
  "replay_insert err cutoff k at c =
     (let c1 = replay_prune cutoff c in
      if c1 k \<noteq> None then (Inl err, c1) else (Inr (), c1(k \<mapsto> at)))"

lemma replay_prune_keeps: "c k = Some at \<Longrightarrow> cutoff \<le> at \<Longrightarrow> replay_prune cutoff c k = Some at"
  by (simp add: replay_prune_def)

lemma replay_insert_keeps:
  "c k = Some at \<Longrightarrow> cutoff \<le> at \<Longrightarrow> snd (replay_insert err cutoff k' at' c) k = Some at"
  using replay_prune_keeps [of c k at cutoff]
  by (auto simp: replay_insert_def Let_def)

lemma replay_insert_refuses:
  "c k = Some at \<Longrightarrow> cutoff \<le> at \<Longrightarrow> fst (replay_insert err cutoff k at' c) = Inl err"
  using replay_prune_keeps [of c k at cutoff] by (simp add: replay_insert_def Let_def)

lemma replay_insert_ok:
  "fst (replay_insert err cutoff k at c) = Inr () \<Longrightarrow> snd (replay_insert err cutoff k at c) k = Some at"
  by (auto simp: replay_insert_def Let_def split: if_splits)

text \<open>
  A window: the cutoff of a call, and the times at which a creation time counts as fresh. A cache
  call either leaves the cache alone, because the caller gave up earlier, or is one insertion at
  its time.
\<close>

inductive cache_call :: "(instant \<Rightarrow> int) \<Rightarrow> go_error \<Rightarrow> instant \<Rightarrow> replay_cache \<Rightarrow> replay_cache \<Rightarrow> bool"
  for cutoff err until where
  cache_skip: "cache_call cutoff err until c c"
| cache_insert: "now \<le> until \<Longrightarrow>
    cache_call cutoff err until c (snd (replay_insert err (cutoff now) k at c))"

locale replay_window =
  fixes valid :: "'p \<Rightarrow> bool"
    and cutoff :: "'p \<Rightarrow> instant \<Rightarrow> int"
    and fresh :: "'p \<Rightarrow> instant \<Rightarrow> int \<Rightarrow> bool"
  assumes cutoff_mono: "valid p \<Longrightarrow> now \<le> later \<Longrightarrow> cutoff p now \<le> cutoff p later"
    and fresh_kept: "valid p \<Longrightarrow> fresh p now at \<Longrightarrow> cutoff p now \<le> at"
begin

lemma entry_stays:
  assumes "rtranclp (cache_call (cutoff p) err until) c d" and "valid p"
    and "c k = Some at" and "fresh p until at"
  shows "d k = Some at"
  using assms(1,3)
proof (induction rule: rtranclp_induct)
  case (step d d')
  from step.hyps(2) show ?case
  proof cases
    case (cache_insert now k' at')
    then have "cutoff p now \<le> at"
      using cutoff_mono [OF assms(2)] fresh_kept [OF assms(2,4)] order_trans by blast
    then show ?thesis using cache_insert step replay_insert_keeps by blast
  qed (use step in simp)
qed

lemma no_replay:
  assumes "fst (replay_insert err (cutoff p now) k at c) = Inr ()" and "valid p"
    and "rtranclp (cache_call (cutoff p) err until) (snd (replay_insert err (cutoff p now) k at c)) d"
    and "fresh p until at"
  shows "fst (replay_insert err (cutoff p until) k at d) = Inl err"
proof -
  have "d k = Some at"
    using entry_stays [OF assms(3,2) _ assms(4)] replay_insert_ok [OF assms(1)] by blast
  then show ?thesis using fresh_kept [OF assms(2,4)] by (rule replay_insert_refuses)
qed

end

end
