(* ===== verification/UbiQ_Crypto.thy ===== *)
theory UbiQ_Crypto
  imports UbiQ_Replay
begin

text \<open>
  The cryptographic provider (\<^verbatim>\<open>src/runtime/go/ubiq/crypto.go\<close>): secrets and the wiping of key
  buffers, hybrid signatures, hybrid session establishment, sealing, and proofs of possession with
  their replay cache. The primitives (Ed25519, ML-DSA, X25519, ML-KEM, HKDF, XChaCha20-Poly1305,
  SHA-256) are arguments; a theorem that needs their documented correctness names it as a
  hypothesis.
\<close>

section \<open>Primitives\<close>

text \<open>
  The cryptographic primitives are the fields of one record. A private key is known by its bytes;
  the parsing of a public key returns an error or nothing; randomness is an argument of the
  operations that draw it.
\<close>

record crypto_lib =
  ed_public :: "bytes \<Rightarrow> bytes"
  ed_Sign :: "bytes \<Rightarrow> bytes \<Rightarrow> bytes"
  ed_Verify :: "bytes \<Rightarrow> bytes \<Rightarrow> bytes \<Rightarrow> bool"
  ml_public :: "bytes \<Rightarrow> bytes"
  ml_Sign :: "bytes \<Rightarrow> bytes \<Rightarrow> string \<Rightarrow> bytes result"
  ml_NewPublicKey :: "bytes \<Rightarrow> unit result"
  ml_Verify :: "bytes \<Rightarrow> bytes \<Rightarrow> bytes \<Rightarrow> string \<Rightarrow> unit result"
  x_public :: "bytes \<Rightarrow> bytes"
  x_NewPublicKey :: "bytes \<Rightarrow> unit result"
  x_ECDH :: "bytes \<Rightarrow> bytes \<Rightarrow> bytes result"
  kem_public :: "bytes \<Rightarrow> bytes"
  kem_NewEncapsulationKey :: "bytes \<Rightarrow> unit result"
  kem_Encapsulate :: "bytes \<Rightarrow> bytes \<Rightarrow> bytes \<times> bytes"
  kem_Decapsulate :: "bytes \<Rightarrow> bytes \<Rightarrow> bytes result"
  hkdf_Key :: "bytes \<Rightarrow> string \<Rightarrow> nat \<Rightarrow> bytes result"
  aead_NewX :: "bytes \<Rightarrow> unit result"
  aead_Seal :: "bytes \<Rightarrow> bytes \<Rightarrow> bytes \<Rightarrow> bytes \<Rightarrow> bytes"
  aead_Open :: "bytes \<Rightarrow> bytes \<Rightarrow> bytes \<Rightarrow> bytes \<Rightarrow> bytes result"
  lib_sha256 :: "bytes \<Rightarrow> bytes"

definition mldsaContext :: string where
  "mldsaContext = ''ubiq-envelope-v1''"

definition ed25519_PublicKeySize :: nat where
  "ed25519_PublicKeySize = 32"

definition chacha_KeySize :: nat where
  "chacha_KeySize = 32"

definition NonceSizeX :: nat where
  "NonceSizeX = 24"

section \<open>Buffers and secrets\<close>

text \<open>
  Key material lives in byte buffers that the code overwrites, so buffers are cells of an explicit
  store: an allocation takes the next address, \<open>zero\<close> overwrites a cell in place.
\<close>

record buffers =
  buf_next :: nat
  buf_mem :: "nat \<Rightarrow> bytes"

definition buf_alloc :: "bytes \<Rightarrow> buffers \<Rightarrow> nat \<times> buffers" where
  "buf_alloc b m = (buf_next m, \<lparr>buf_next = Suc (buf_next m), buf_mem = (buf_mem m)(buf_next m := b)\<rparr>)"

definition zero :: "nat \<Rightarrow> buffers \<Rightarrow> buffers" where
  "zero a m = m\<lparr>buf_mem := (buf_mem m)(a := replicate (length (buf_mem m a)) (CHR 0x00))\<rparr>"

record Secret =
  sec_material :: "nat option"
  sec_destroyed :: bool

definition newSecret :: "nat \<Rightarrow> buffers \<Rightarrow> Secret \<times> buffers" where
  "newSecret material m =
     (let (copyOf, m1) = buf_alloc (buf_mem m material) m; m2 = zero material m1
      in (\<lparr>sec_material = Some copyOf, sec_destroyed = False\<rparr>, m2))"

definition secret_bytes :: "Secret \<Rightarrow> buffers \<Rightarrow> bytes" where
  "secret_bytes s m = (case sec_material s of None \<Rightarrow> [] | Some a \<Rightarrow> buf_mem m a)"

definition Secret_Use :: "(bytes \<Rightarrow> 'a result) \<Rightarrow> Secret \<Rightarrow> buffers \<Rightarrow> 'a result" where
  "Secret_Use fn s m =
     (if sec_destroyed s then Inl (errors_New ''secret already destroyed'')
      else fn (secret_bytes s m))"

definition Secret_Destroy :: "Secret \<Rightarrow> buffers \<Rightarrow> Secret \<times> buffers" where
  "Secret_Destroy s m =
     (if sec_destroyed s then (s, m)
      else (\<lparr>sec_material = None, sec_destroyed = True\<rparr>,
            case sec_material s of None \<Rightarrow> m | Some a \<Rightarrow> zero a m))"

section \<open>The provider\<close>

record PublicBundle =
  pb_KeyID :: string
  pb_Ed25519 :: bytes
  pb_MLDSA44 :: bytes
  pb_X25519 :: bytes
  pb_MLKEM768 :: bytes

record SessionOffer =
  so_EphemeralX25519 :: bytes
  so_MLKEMCiphertext :: bytes

record CryptoProvider =
  cp_keyID :: string
  cp_edPublic :: bytes
  cp_edPrivate :: bytes
  cp_mlPrivate :: bytes
  cp_xPrivate :: bytes
  cp_kemPrivate :: bytes
  cp_replay :: replay_cache

text \<open>The four key generations are arguments, in the order the code runs them.\<close>

definition NewCryptoProvider ::
  "(bytes \<times> bytes) result \<Rightarrow> bytes result \<Rightarrow> bytes result \<Rightarrow> bytes result \<Rightarrow> string \<Rightarrow>
     CryptoProvider result" where
  "NewCryptoProvider edKey mlKey xKey kemKey keyID =
     (if keyID = [] then Inl (errors_New ''key id is required'')
      else case edKey of Inl e \<Rightarrow> Inl e | Inr (edPub, edPriv) \<Rightarrow>
           case mlKey of Inl e \<Rightarrow> Inl e | Inr mlPriv \<Rightarrow>
           case xKey of Inl e \<Rightarrow> Inl e | Inr xPriv \<Rightarrow>
           case kemKey of Inl e \<Rightarrow> Inl e | Inr kemPriv \<Rightarrow>
           Inr \<lparr>cp_keyID = keyID, cp_edPublic = edPub, cp_edPrivate = edPriv, cp_mlPrivate = mlPriv,
                cp_xPrivate = xPriv, cp_kemPrivate = kemPriv, cp_replay = Map.empty\<rparr>)"

definition Public :: "crypto_lib \<Rightarrow> CryptoProvider \<Rightarrow> PublicBundle" where
  "Public lib p =
     \<lparr>pb_KeyID = cp_keyID p, pb_Ed25519 = cp_edPublic p, pb_MLDSA44 = ml_public lib (cp_mlPrivate p),
      pb_X25519 = x_public lib (cp_xPrivate p), pb_MLKEM768 = kem_public lib (cp_kemPrivate p)\<rparr>"

definition Sign :: "crypto_lib \<Rightarrow> CryptoProvider \<Rightarrow> bytes \<Rightarrow> HybridSignature result" where
  "Sign lib p message =
     (let ed = ed_Sign lib (cp_edPrivate p) message in
      case ml_Sign lib (cp_mlPrivate p) message mldsaContext of
        Inl e \<Rightarrow> Inl e
      | Inr ml \<Rightarrow> Inr \<lparr>sig_Ed25519 = Some ed, sig_MLDSA44 = Some ml\<rparr>)"

definition VerifyHybrid :: "crypto_lib \<Rightarrow> PublicBundle \<Rightarrow> bytes \<Rightarrow> HybridSignature \<Rightarrow> unit result" where
  "VerifyHybrid lib peer message sig =
     (if length (pb_Ed25519 peer) \<noteq> ed25519_PublicKeySize
         \<or> \<not> ed_Verify lib (pb_Ed25519 peer) message (slice (sig_Ed25519 sig))
      then Inl (errors_New ''invalid Ed25519 signature'')
      else case ml_NewPublicKey lib (pb_MLDSA44 peer) of Inl e \<Rightarrow> Inl e | Inr _ \<Rightarrow>
        case ml_Verify lib (pb_MLDSA44 peer) message (slice (sig_MLDSA44 sig)) mldsaContext of
          Inl e \<Rightarrow> Inl (Errorf ''invalid ML-DSA signature: %w'' [])
        | Inr _ \<Rightarrow> Inr ())"

section \<open>Sessions\<close>

definition session_info :: string where
  "session_info = ''ubiq-hybrid-x25519-mlkem768-v1''"

text \<open>
  Both ends derive the session key the same way: join the two shared secrets in a new buffer,
  run HKDF, overwrite the three inputs, and wrap the key. \<open>ephemeral\<close> and \<open>coins\<close> are the random
  choices of Establish.
\<close>

definition derive_key :: "crypto_lib \<Rightarrow> nat \<Rightarrow> nat \<Rightarrow> buffers \<Rightarrow> nat result \<times> buffers" where
  "derive_key lib classical pq m =
     (let (combined, m1) = buf_alloc (buf_mem m classical @ buf_mem m pq) m;
          key = hkdf_Key lib (buf_mem m1 combined) session_info chacha_KeySize;
          wipe = (\<lambda>m. zero combined (zero pq (zero classical m)))
      in case key of
           Inl e \<Rightarrow> (Inl e, wipe m1)
         | Inr k \<Rightarrow> (case buf_alloc k m1 of (a, m2) \<Rightarrow> (Inr a, wipe m2)))"

definition Establish ::
  "crypto_lib \<Rightarrow> bytes result \<Rightarrow> bytes \<Rightarrow> PublicBundle \<Rightarrow> buffers \<Rightarrow>
     (SessionOffer \<times> Secret) result \<times> buffers" where
  "Establish lib ephemeral coins peer m =
     (case x_NewPublicKey lib (pb_X25519 peer) of Inl e \<Rightarrow> (Inl e, m) | Inr _ \<Rightarrow>
      case ephemeral of Inl e \<Rightarrow> (Inl e, m) | Inr eph \<Rightarrow>
      case x_ECDH lib eph (pb_X25519 peer) of Inl e \<Rightarrow> (Inl e, m) | Inr shared \<Rightarrow>
      case buf_alloc shared m of (classical, m1) \<Rightarrow>
      case kem_NewEncapsulationKey lib (pb_MLKEM768 peer) of Inl e \<Rightarrow> (Inl e, zero classical m1) | Inr _ \<Rightarrow>
      case kem_Encapsulate lib (pb_MLKEM768 peer) coins of (ss, ciphertext) \<Rightarrow>
      case buf_alloc ss m1 of (pq, m2) \<Rightarrow>
      case derive_key lib classical pq m2 of
        (Inl e, m3) \<Rightarrow> (Inl e, m3)
      | (Inr key, m3) \<Rightarrow>
          (case newSecret key m3 of (s, m4) \<Rightarrow>
             (Inr (\<lparr>so_EphemeralX25519 = x_public lib eph, so_MLKEMCiphertext = ciphertext\<rparr>, s), m4)))"

definition Accept ::
  "crypto_lib \<Rightarrow> CryptoProvider \<Rightarrow> SessionOffer \<Rightarrow> buffers \<Rightarrow> Secret result \<times> buffers" where
  "Accept lib p offer m =
     (case x_NewPublicKey lib (so_EphemeralX25519 offer) of Inl e \<Rightarrow> (Inl e, m) | Inr _ \<Rightarrow>
      case x_ECDH lib (cp_xPrivate p) (so_EphemeralX25519 offer) of Inl e \<Rightarrow> (Inl e, m) | Inr shared \<Rightarrow>
      case buf_alloc shared m of (classical, m1) \<Rightarrow>
      case kem_Decapsulate lib (cp_kemPrivate p) (so_MLKEMCiphertext offer) of
        Inl e \<Rightarrow> (Inl e, zero classical m1)
      | Inr ss \<Rightarrow>
          (case buf_alloc ss m1 of (pq, m2) \<Rightarrow>
           case derive_key lib classical pq m2 of
             (Inl e, m3) \<Rightarrow> (Inl e, m3)
           | (Inr key, m3) \<Rightarrow> (case newSecret key m3 of (s, m4) \<Rightarrow> (Inr s, m4))))"

definition Seal :: "crypto_lib \<Rightarrow> bytes result \<Rightarrow> Secret \<Rightarrow> buffers \<Rightarrow> bytes \<Rightarrow> bytes \<Rightarrow> bytes result" where
  "Seal lib rand s m plaintext aad =
     Secret_Use (\<lambda>key.
       case aead_NewX lib key of Inl e \<Rightarrow> Inl e | Inr _ \<Rightarrow>
       case rand of Inl e \<Rightarrow> Inl e | Inr nonce \<Rightarrow> Inr (nonce @ aead_Seal lib key nonce plaintext aad)) s m"

definition Open :: "crypto_lib \<Rightarrow> Secret \<Rightarrow> buffers \<Rightarrow> bytes \<Rightarrow> bytes \<Rightarrow> bytes result" where
  "Open lib s m ciphertext aad =
     Secret_Use (\<lambda>key.
       case aead_NewX lib key of Inl e \<Rightarrow> Inl e | Inr _ \<Rightarrow>
       if length ciphertext < NonceSizeX then Inl (errors_New ''ciphertext too short'')
       else aead_Open lib key (take NonceSizeX ciphertext) (drop NonceSizeX ciphertext) aad) s m"

section \<open>Proofs of possession\<close>

record unsignedPoP =
  up_Holder :: string
  up_CreatedAtMS :: int
  up_Nonce :: string
  up_Method :: string
  up_Target :: string
  up_EnvelopeHash :: string

definition marshal_unsignedPoP :: "unsignedPoP \<Rightarrow> bytes" where
  "marshal_unsignedPoP u =
     json_object [(''holder'', json_quote (up_Holder u)),
       (''created_at_ms'', int_dec (up_CreatedAtMS u)),
       (''nonce'', json_quote (up_Nonce u)),
       (''method'', json_quote (up_Method u)),
       (''target'', json_quote (up_Target u)),
       (''envelope_hash'', json_quote (up_EnvelopeHash u))]"

definition NewPoP ::
  "crypto_lib \<Rightarrow> bytes result \<Rightarrow> CryptoProvider \<Rightarrow> string \<Rightarrow> string \<Rightarrow> Envelope \<Rightarrow> instant \<Rightarrow>
     ProofOfPossession result" where
  "NewPoP lib rand p meth target env now =
     (case DigestHex (lib_sha256 lib) env of Inl e \<Rightarrow> Inl e | Inr hash \<Rightarrow>
      case rand of Inl e \<Rightarrow> Inl e | Inr nonceBytes \<Rightarrow>
      let nonce = hex_EncodeToString nonceBytes;
          unsigned = \<lparr>up_Holder = cp_keyID p, up_CreatedAtMS = UnixMilli now, up_Nonce = nonce,
                      up_Method = meth, up_Target = target, up_EnvelopeHash = hash\<rparr>
      in case Sign lib p (marshal_unsignedPoP unsigned) of Inl e \<Rightarrow> Inl e | Inr sig \<Rightarrow>
         Inr \<lparr>pop_Holder = up_Holder unsigned, pop_CreatedAtMS = up_CreatedAtMS unsigned,
              pop_Nonce = up_Nonce unsigned, pop_Method = up_Method unsigned,
              pop_Target = up_Target unsigned, pop_EnvelopeHash = up_EnvelopeHash unsigned,
              pop_Signature = sig\<rparr>)"

definition unsigned_of :: "ProofOfPossession \<Rightarrow> unsignedPoP" where
  "unsigned_of proof =
     \<lparr>up_Holder = pop_Holder proof, up_CreatedAtMS = pop_CreatedAtMS proof, up_Nonce = pop_Nonce proof,
      up_Method = pop_Method proof, up_Target = pop_Target proof,
      up_EnvelopeHash = pop_EnvelopeHash proof\<rparr>"

definition pop_delta :: "instant \<Rightarrow> int \<Rightarrow> duration" where
  "pop_delta now createdMS = time_Sub now (createdMS * Millisecond)"

definition pop_fresh :: "duration \<Rightarrow> instant \<Rightarrow> int \<Rightarrow> bool" where
  "pop_fresh maxSkew now createdMS \<longleftrightarrow>
     \<not> (pop_delta now createdMS < to_int64 (- maxSkew) \<or> pop_delta now createdMS > maxSkew)"

definition pop_cutoff :: "duration \<Rightarrow> instant \<Rightarrow> int" where
  "pop_cutoff maxSkew now = UnixMilli (now + to_int64 (- 2 * maxSkew))"

definition replayed_proof :: go_error where
  "replayed_proof = errors_New ''replayed proof''"

definition VerifyPoP ::
  "crypto_lib \<Rightarrow> PublicBundle \<Rightarrow> ProofOfPossession \<Rightarrow> string \<Rightarrow> string \<Rightarrow> Envelope \<Rightarrow> instant \<Rightarrow> duration \<Rightarrow>
     CryptoProvider \<Rightarrow> unit result \<times> CryptoProvider" where
  "VerifyPoP lib peer proof meth target env now maxSkew p =
     (if pop_Holder proof \<noteq> pb_KeyID peer \<or> pop_Method proof \<noteq> meth \<or> pop_Target proof \<noteq> target
      then (Inl (errors_New ''proof binding mismatch''), p)
      else if \<not> pop_fresh maxSkew now (pop_CreatedAtMS proof)
      then (Inl (errors_New ''proof outside freshness window''), p)
      else case DigestHex (lib_sha256 lib) env of Inl e \<Rightarrow> (Inl e, p) | Inr hash \<Rightarrow>
        if hash \<noteq> pop_EnvelopeHash proof
        then (Inl (errors_New ''proof envelope hash mismatch''), p)
        else case VerifyHybrid lib peer (marshal_unsignedPoP (unsigned_of proof)) (pop_Signature proof) of
          Inl e \<Rightarrow> (Inl e, p)
        | Inr _ \<Rightarrow>
            (case replay_insert replayed_proof (pop_cutoff maxSkew now)
               (pop_Holder proof @ '':'' @ pop_Nonce proof) (pop_CreatedAtMS proof) (cp_replay p) of
               (r, c) \<Rightarrow> (r, p\<lparr>cp_replay := c\<rparr>)))"

section \<open>Key material does not stay behind\<close>

definition zeroed :: "bytes \<Rightarrow> bool" where
  "zeroed b \<longleftrightarrow> (\<forall>c \<in> set b. c = CHR 0x00)"

lemma zeroed_replicate [simp]: "zeroed (replicate n (CHR 0x00))"
  by (simp add: zeroed_def)

text \<open>
  \<open>wiped m keep m'\<close>: \<open>m'\<close> leaves the cells of \<open>m\<close> as they were, and every cell it added, apart from
  those in \<open>keep\<close>, holds only zeros.
\<close>

definition wiped :: "buffers \<Rightarrow> nat set \<Rightarrow> buffers \<Rightarrow> bool" where
  "wiped m keep m' \<longleftrightarrow>
     buf_next m \<le> buf_next m'
     \<and> (\<forall>a < buf_next m. buf_mem m' a = buf_mem m a)
     \<and> (\<forall>a. buf_next m \<le> a \<longrightarrow> a < buf_next m' \<longrightarrow> a \<notin> keep \<longrightarrow> zeroed (buf_mem m' a))"

lemmas buffer_ops = buf_alloc_def zero_def newSecret_def Let_def

lemma wiped_refl [simp]: "wiped m keep m"
  by (simp add: wiped_def)

lemma wiped_alloc_zero: "wiped m keep (zero (buf_next m) (snd (buf_alloc b m)))"
  by (auto simp: wiped_def buffer_ops less_Suc_eq)

text \<open>The last part of Establish and Accept, from the two shared secrets to the session secret.\<close>

definition session_key :: "crypto_lib \<Rightarrow> bytes \<Rightarrow> bytes \<Rightarrow> bytes result" where
  "session_key lib classical pq = hkdf_Key lib (classical @ pq) session_info chacha_KeySize"

definition wrap_session :: "crypto_lib \<Rightarrow> bytes \<Rightarrow> bytes \<Rightarrow> buffers \<Rightarrow> Secret result \<times> buffers" where
  "wrap_session lib shared ss m =
     (case buf_alloc shared m of (classical, m1) \<Rightarrow>
      case buf_alloc ss m1 of (pq, m2) \<Rightarrow>
      case derive_key lib classical pq m2 of
        (Inl e, m3) \<Rightarrow> (Inl e, m3)
      | (Inr key, m3) \<Rightarrow> (case newSecret key m3 of (s, m4) \<Rightarrow> (Inr s, m4)))"

lemma wrap_session_result:
  "fst (wrap_session lib shared ss m) =
     (case session_key lib shared ss of
        Inl e \<Rightarrow> Inl e
      | Inr k \<Rightarrow> Inr \<lparr>sec_material = Some (buf_next m + 4), sec_destroyed = False\<rparr>)"
  by (simp add: wrap_session_def derive_key_def buffer_ops session_key_def split: sum.split)

lemma wrap_session_bytes:
  "session_key lib shared ss = Inr k \<Longrightarrow> wrap_session lib shared ss m = (Inr s, m') \<Longrightarrow>
     secret_bytes s m' = k"
  by (auto simp: wrap_session_def derive_key_def buffer_ops session_key_def secret_bytes_def)

lemma wrap_session_wiped:
  "wrap_session lib shared ss m = (res, m') \<Longrightarrow>
     wiped m (case res of Inl _ \<Rightarrow> {} | Inr s \<Rightarrow> set_option (sec_material s)) m'"
proof (cases "session_key lib shared ss")
  case (Inl e)
  assume "wrap_session lib shared ss m = (res, m')"
  with Inl show ?thesis
    by (auto simp: wrap_session_def derive_key_def buffer_ops session_key_def wiped_def less_Suc_eq)
next
  case (Inr k)
  assume "wrap_session lib shared ss m = (res, m')"
  with Inr show ?thesis
    by (auto simp: wrap_session_def derive_key_def buffer_ops session_key_def wiped_def less_Suc_eq)
qed

lemma Establish_unfold:
  "Establish lib ephemeral coins peer m =
     (case x_NewPublicKey lib (pb_X25519 peer) of Inl e \<Rightarrow> (Inl e, m) | Inr _ \<Rightarrow>
      case ephemeral of Inl e \<Rightarrow> (Inl e, m) | Inr eph \<Rightarrow>
      case x_ECDH lib eph (pb_X25519 peer) of Inl e \<Rightarrow> (Inl e, m) | Inr shared \<Rightarrow>
      case kem_NewEncapsulationKey lib (pb_MLKEM768 peer) of
        Inl e \<Rightarrow> (Inl e, zero (buf_next m) (snd (buf_alloc shared m)))
      | Inr _ \<Rightarrow>
          (case wrap_session lib shared (fst (kem_Encapsulate lib (pb_MLKEM768 peer) coins)) m of
             (Inl e, m1) \<Rightarrow> (Inl e, m1)
           | (Inr s, m1) \<Rightarrow>
               (Inr (\<lparr>so_EphemeralX25519 = x_public lib eph,
                      so_MLKEMCiphertext = snd (kem_Encapsulate lib (pb_MLKEM768 peer) coins)\<rparr>, s), m1)))"
  unfolding Establish_def wrap_session_def
  by (simp add: buf_alloc_def split: sum.split prod.split)

lemma Accept_unfold:
  "Accept lib p offer m =
     (case x_NewPublicKey lib (so_EphemeralX25519 offer) of Inl e \<Rightarrow> (Inl e, m) | Inr _ \<Rightarrow>
      case x_ECDH lib (cp_xPrivate p) (so_EphemeralX25519 offer) of Inl e \<Rightarrow> (Inl e, m) | Inr shared \<Rightarrow>
      case kem_Decapsulate lib (cp_kemPrivate p) (so_MLKEMCiphertext offer) of
        Inl e \<Rightarrow> (Inl e, zero (buf_next m) (snd (buf_alloc shared m)))
      | Inr ss \<Rightarrow> wrap_session lib shared ss m)"
  unfolding Accept_def wrap_session_def
  by (simp add: buf_alloc_def split: sum.split prod.split)

lemma Destroy_wiped:
  assumes "wiped m (set_option (sec_material s)) m'" and "\<not> sec_destroyed s"
    and "\<And>a. sec_material s = Some a \<Longrightarrow> buf_next m \<le> a"
  shows "wiped m {} (snd (Secret_Destroy s m'))"
  using assms by (cases "sec_material s") (auto simp: Secret_Destroy_def wiped_def zero_def)

text \<open>
  C12: Establishing or accepting a session leaves no key material behind. Whether it succeeds or
  fails at any point, the buffers that held the classical, post-quantum, combined and derived keys
  hold only zeros, except the one inside the returned secret; destroying the secret clears that
  one too; and no buffer that existed before is touched.
\<close>

theorem session_wipes_buffers:
  "(case Establish lib ephemeral coins peer m of
      (Inl _, m') \<Rightarrow> wiped m {} m'
    | (Inr (offer, s), m') \<Rightarrow>
        wiped m (set_option (sec_material s)) m' \<and> wiped m {} (snd (Secret_Destroy s m')))
   \<and> (case Accept lib p offer' m of
        (Inl _, m') \<Rightarrow> wiped m {} m'
      | (Inr s, m') \<Rightarrow>
          wiped m (set_option (sec_material s)) m' \<and> wiped m {} (snd (Secret_Destroy s m')))"
proof -
  have failed: "wiped m {} m'" if "wrap_session lib shared ss m = (Inl e, m')" for shared ss e m'
    using wrap_session_wiped [OF that] by simp
  have finished: "wiped m (set_option (sec_material s)) m' \<and> wiped m {} (snd (Secret_Destroy s m'))"
    if "wrap_session lib shared ss m = (Inr s, m')" for shared ss s m'
  proof -
    have "s = \<lparr>sec_material = Some (buf_next m + 4), sec_destroyed = False\<rparr>"
      using wrap_session_result [of lib shared ss m] that by (auto split: sum.splits)
    then show ?thesis using wrap_session_wiped [OF that] Destroy_wiped [of m s m'] by simp
  qed
  show ?thesis
  proof
    show "case Establish lib ephemeral coins peer m of
        (Inl _, m') \<Rightarrow> wiped m {} m'
      | (Inr (offer, s), m') \<Rightarrow>
          wiped m (set_option (sec_material s)) m' \<and> wiped m {} (snd (Secret_Destroy s m'))"
      using failed finished wiped_alloc_zero
      by (auto simp: Establish_unfold split: sum.splits prod.splits)
    show "case Accept lib p offer' m of
        (Inl _, m') \<Rightarrow> wiped m {} m'
      | (Inr s, m') \<Rightarrow>
          wiped m (set_option (sec_material s)) m' \<and> wiped m {} (snd (Secret_Destroy s m'))"
      using failed finished wiped_alloc_zero
      by (auto simp: Accept_unfold split: sum.splits prod.splits)
  qed
qed

section \<open>Sessions work\<close>

text \<open>The documented behaviour of the primitives that a session relies on.\<close>

definition dh_agrees :: "crypto_lib \<Rightarrow> bool" where
  "dh_agrees lib \<longleftrightarrow> (\<forall>a b. x_ECDH lib a (x_public lib b) = x_ECDH lib b (x_public lib a))"

definition dh_keys_parse :: "crypto_lib \<Rightarrow> bool" where
  "dh_keys_parse lib \<longleftrightarrow> (\<forall>a. is_ok (x_NewPublicKey lib (x_public lib a)))"

definition kem_correct :: "crypto_lib \<Rightarrow> bool" where
  "kem_correct lib \<longleftrightarrow>
     (\<forall>k coins. case kem_Encapsulate lib (kem_public lib k) coins of
        (ss, ct) \<Rightarrow> kem_Decapsulate lib k ct = Inr ss)"

definition aead_correct :: "crypto_lib \<Rightarrow> bool" where
  "aead_correct lib \<longleftrightarrow>
     (\<forall>k nonce pt aad. is_ok (aead_NewX lib k) \<and> length nonce = NonceSizeX \<longrightarrow>
        aead_Open lib k nonce (aead_Seal lib k nonce pt aad) aad = Inr pt)"

lemma Establish_ok:
  assumes "Establish lib ephemeral coins peer m = (Inr (offer, s), m')"
  obtains eph shared k where "ephemeral = Inr eph" and "x_ECDH lib eph (pb_X25519 peer) = Inr shared"
    and "offer = \<lparr>so_EphemeralX25519 = x_public lib eph,
           so_MLKEMCiphertext = snd (kem_Encapsulate lib (pb_MLKEM768 peer) coins)\<rparr>"
    and "session_key lib shared (fst (kem_Encapsulate lib (pb_MLKEM768 peer) coins)) = Inr k"
    and "secret_bytes s m' = k" and "\<not> sec_destroyed s"
proof -
  obtain eph shared where e: "ephemeral = Inr eph" "x_ECDH lib eph (pb_X25519 peer) = Inr shared"
    "offer = \<lparr>so_EphemeralX25519 = x_public lib eph,
       so_MLKEMCiphertext = snd (kem_Encapsulate lib (pb_MLKEM768 peer) coins)\<rparr>"
    and w: "wrap_session lib shared (fst (kem_Encapsulate lib (pb_MLKEM768 peer) coins)) m = (Inr s, m')"
    using assms by (auto simp: Establish_unfold split: sum.splits prod.splits)
  obtain k where k: "session_key lib shared (fst (kem_Encapsulate lib (pb_MLKEM768 peer) coins)) = Inr k"
    and d: "\<not> sec_destroyed s"
    using w wrap_session_result [of lib shared "fst (kem_Encapsulate lib (pb_MLKEM768 peer) coins)" m]
    by (auto split: sum.splits)
  show ?thesis by (rule that [OF e k wrap_session_bytes [OF k w] d])
qed

text \<open>
  C11: A session works end to end. If one side establishes a session with the public bundle of a
  provider, the provider accepts the offer, both secrets hold the same key, and what is sealed
  under one opens under the other to the same plaintext, given the same associated data.
\<close>

theorem session_end_to_end:
  assumes dh: "dh_agrees lib" and parse: "dh_keys_parse lib" and kem: "kem_correct lib"
    and aead: "aead_correct lib"
    and est: "Establish lib ephemeral coins (Public lib p) m = (Inr (offer, s), m')"
  shows "\<exists>t n'. Accept lib p offer n = (Inr t, n') \<and> secret_bytes t n' = secret_bytes s m'
     \<and> (\<forall>nonce plaintext aad c. length nonce = NonceSizeX
          \<and> Seal lib (Inr nonce) s m' plaintext aad = Inr c \<longrightarrow> Open lib t n' c aad = Inr plaintext)"
proof -
  obtain eph shared k where e: "x_ECDH lib eph (x_public lib (cp_xPrivate p)) = Inr shared"
    and offer: "offer = \<lparr>so_EphemeralX25519 = x_public lib eph,
       so_MLKEMCiphertext = snd (kem_Encapsulate lib (kem_public lib (cp_kemPrivate p)) coins)\<rparr>"
    and k: "session_key lib shared (fst (kem_Encapsulate lib (kem_public lib (cp_kemPrivate p)) coins)) = Inr k"
    and s: "secret_bytes s m' = k" "\<not> sec_destroyed s"
    by (rule Establish_ok [OF est]) (simp add: Public_def)
  let ?ss = "fst (kem_Encapsulate lib (kem_public lib (cp_kemPrivate p)) coins)"
  have "x_ECDH lib (cp_xPrivate p) (x_public lib eph) = Inr shared"
    using dh e by (simp add: dh_agrees_def)
  moreover have "kem_Decapsulate lib (cp_kemPrivate p)
      (snd (kem_Encapsulate lib (kem_public lib (cp_kemPrivate p)) coins)) = Inr ?ss"
    using kem by (simp add: kem_correct_def case_prod_beta)
  moreover obtain u where "x_NewPublicKey lib (x_public lib eph) = Inr u"
    using parse [unfolded dh_keys_parse_def, rule_format, of eph]
    by (cases "x_NewPublicKey lib (x_public lib eph)") auto
  ultimately have acc: "Accept lib p offer n = wrap_session lib shared ?ss n"
    by (simp add: Accept_unfold offer)
  obtain t n' where t: "wrap_session lib shared ?ss n = (Inr t, n')" "\<not> sec_destroyed t"
    using wrap_session_result [of lib shared ?ss n] k
    by (cases "wrap_session lib shared ?ss n") auto
  have tk: "secret_bytes t n' = k" using wrap_session_bytes [OF k t(1)] .
  have "Open lib t n' c aad = Inr plaintext"
    if "length nonce = NonceSizeX" "Seal lib (Inr nonce) s m' plaintext aad = Inr c"
    for nonce plaintext aad c
    using that aead s t(2) tk
    by (auto simp: Seal_def Open_def Secret_Use_def aead_correct_def is_ok_def split: sum.splits)
  with acc t tk s show ?thesis by auto
qed

text \<open>
  A destroyed secret is of no use: Seal and Open refuse it, whatever the buffers hold, and
  destroying it again changes nothing.
\<close>

theorem destroyed_secret_unusable:
  assumes "Secret_Destroy s m = (t, m')"
  shows "Seal lib rand t n plaintext aad = Inl (errors_New ''secret already destroyed'')
     \<and> Open lib t n ciphertext aad = Inl (errors_New ''secret already destroyed'')
     \<and> Secret_Destroy t n = (t, n) \<and> (sec_destroyed s \<or> secret_bytes t n = [])"
  using assms
  by (auto simp: Secret_Destroy_def Seal_def Open_def Secret_Use_def secret_bytes_def split: if_splits)

section \<open>Signatures\<close>

lemma VerifyHybrid_iff:
  "VerifyHybrid lib peer message sig = Inr () \<longleftrightarrow>
     length (pb_Ed25519 peer) = 32
     \<and> ed_Verify lib (pb_Ed25519 peer) message (slice (sig_Ed25519 sig))
     \<and> is_ok (ml_NewPublicKey lib (pb_MLDSA44 peer))
     \<and> is_ok (ml_Verify lib (pb_MLDSA44 peer) message (slice (sig_MLDSA44 sig)) ''ubiq-envelope-v1'')"
  by (auto simp: VerifyHybrid_def ed25519_PublicKeySize_def mldsaContext_def is_ok_def split: sum.splits)

definition signatures_correct :: "crypto_lib \<Rightarrow> bool" where
  "signatures_correct lib \<longleftrightarrow>
     (\<forall>k msg. ed_Verify lib (ed_public lib k) msg (ed_Sign lib k msg))
     \<and> (\<forall>k. is_ok (ml_NewPublicKey lib (ml_public lib k)))
     \<and> (\<forall>k msg ctx sig. ml_Sign lib k msg ctx = Inr sig \<longrightarrow>
          is_ok (ml_Verify lib (ml_public lib k) msg sig ctx))"

definition provider_keys :: "crypto_lib \<Rightarrow> CryptoProvider \<Rightarrow> bool" where
  "provider_keys lib p \<longleftrightarrow>
     cp_edPublic p = ed_public lib (cp_edPrivate p) \<and> length (cp_edPublic p) = 32"

lemma Sign_verifies:
  assumes "signatures_correct lib" and "provider_keys lib p" and "Sign lib p message = Inr sig"
  shows "VerifyHybrid lib (Public lib p) message sig = Inr ()"
proof -
  obtain ml where "ml_Sign lib (cp_mlPrivate p) message mldsaContext = Inr ml"
    "sig = \<lparr>sig_Ed25519 = Some (ed_Sign lib (cp_edPrivate p) message), sig_MLDSA44 = Some ml\<rparr>"
    using assms(3) by (auto simp: Sign_def Let_def split: sum.splits)
  moreover have "length (ed_public lib (cp_edPrivate p)) = 32" "cp_edPublic p = ed_public lib (cp_edPrivate p)"
    using assms(2) unfolding provider_keys_def by metis+
  ultimately show ?thesis
    using assms(1)
    by (simp add: VerifyHybrid_iff Public_def signatures_correct_def slice_def
        mldsaContext_def)
qed

text \<open>
  Hybrid signatures. A signature is accepted exactly if both halves verify on the message,
  the classical one under a key of the right length and the post-quantum one under a key that
  parses; so neither half alone is enough, and a provider's own signatures are accepted under its
  public bundle.
\<close>

theorem hybrid_signature:
  assumes "signatures_correct lib" and "provider_keys lib p"
  shows "(\<forall>sig. Sign lib p message = Inr sig \<longrightarrow> VerifyHybrid lib (Public lib p) message sig = Inr ())
     \<and> (\<forall>peer sig. VerifyHybrid lib peer message sig = Inr () \<longleftrightarrow>
          length (pb_Ed25519 peer) = 32
          \<and> ed_Verify lib (pb_Ed25519 peer) message (slice (sig_Ed25519 sig))
          \<and> is_ok (ml_NewPublicKey lib (pb_MLDSA44 peer))
          \<and> is_ok (ml_Verify lib (pb_MLDSA44 peer) message (slice (sig_MLDSA44 sig)) ''ubiq-envelope-v1''))"
  using Sign_verifies [OF assms] VerifyHybrid_iff by simp

section \<open>Proofs of possession\<close>

definition pop_key :: "ProofOfPossession \<Rightarrow> string" where
  "pop_key pf = pop_Holder pf @ '':'' @ pop_Nonce pf"

text \<open>What a proof has to satisfy before the replay cache is consulted.\<close>

definition pop_checks ::
  "crypto_lib \<Rightarrow> PublicBundle \<Rightarrow> ProofOfPossession \<Rightarrow> string \<Rightarrow> string \<Rightarrow> Envelope \<Rightarrow> instant \<Rightarrow> duration \<Rightarrow> bool" where
  "pop_checks lib peer pf meth target env now maxSkew \<longleftrightarrow>
     pop_Holder pf = pb_KeyID peer \<and> pop_Method pf = meth \<and> pop_Target pf = target
     \<and> pop_fresh maxSkew now (pop_CreatedAtMS pf)
     \<and> DigestHex (lib_sha256 lib) env = Inr (pop_EnvelopeHash pf)
     \<and> VerifyHybrid lib peer (marshal_unsignedPoP (unsigned_of pf)) (pop_Signature pf) = Inr ()"

lemma VerifyPoP_checked:
  "pop_checks lib peer pf meth target env now maxSkew \<Longrightarrow>
     VerifyPoP lib peer pf meth target env now maxSkew p =
       (case replay_insert replayed_proof (pop_cutoff maxSkew now) (pop_key pf)
               (pop_CreatedAtMS pf) (cp_replay p) of (r, c) \<Rightarrow> (r, p\<lparr>cp_replay := c\<rparr>))"
  by (simp add: pop_checks_def VerifyPoP_def pop_key_def)

lemma VerifyPoP_unchecked:
  "\<not> pop_checks lib peer pf meth target env now maxSkew \<Longrightarrow>
     \<exists>e. VerifyPoP lib peer pf meth target env now maxSkew p = (Inl e, p)"
  by (auto simp: pop_checks_def VerifyPoP_def split: sum.splits)

lemma VerifyPoP_ok:
  assumes "VerifyPoP lib peer pf meth target env now maxSkew p = (Inr (), q)"
  shows "pop_checks lib peer pf meth target env now maxSkew"
    and "fst (replay_insert replayed_proof (pop_cutoff maxSkew now) (pop_key pf)
           (pop_CreatedAtMS pf) (cp_replay p)) = Inr ()"
    and "q = p\<lparr>cp_replay := snd (replay_insert replayed_proof (pop_cutoff maxSkew now) (pop_key pf)
           (pop_CreatedAtMS pf) (cp_replay p))\<rparr>"
proof -
  show c: "pop_checks lib peer pf meth target env now maxSkew"
    using assms VerifyPoP_unchecked [of lib peer pf meth target env now maxSkew p] by auto
  show "fst (replay_insert replayed_proof (pop_cutoff maxSkew now) (pop_key pf)
           (pop_CreatedAtMS pf) (cp_replay p)) = Inr ()"
    and "q = p\<lparr>cp_replay := snd (replay_insert replayed_proof (pop_cutoff maxSkew now) (pop_key pf)
           (pop_CreatedAtMS pf) (cp_replay p))\<rparr>"
    using assms VerifyPoP_checked [OF c, of p] by (auto split: prod.splits)
qed

definition skew_ok :: "duration \<Rightarrow> bool" where
  "skew_ok maxSkew \<longleftrightarrow> 0 \<le> maxSkew \<and> maxSkew \<le> 2 ^ 61"

interpretation pop: replay_window skew_ok pop_cutoff pop_fresh
proof unfold_locales
  fix p and now later :: instant
  assume "now \<le> later"
  then show "pop_cutoff p now \<le> pop_cutoff p later"
    by (simp add: pop_cutoff_def UnixMilli_def Millisecond_def zdiv_mono1)
next
  fix p now at
  assume p: "skew_ok p" and "pop_fresh p now at"
  then have "now - at * Millisecond \<le> p"
    by (auto simp: pop_fresh_def pop_delta_def time_Sub_def skew_ok_def max_def min_def split: if_splits)
  moreover have "to_int64 (- 2 * p) = - 2 * p"
    using p by (intro to_int64_id) (simp add: int64_range_def skew_ok_def)
  ultimately have "(now + to_int64 (- 2 * p)) div Millisecond \<le> at * Millisecond div Millisecond"
    using p by (intro zdiv_mono1) (simp_all add: skew_ok_def Millisecond_def)
  then show "pop_cutoff p now \<le> at"
    by (simp add: pop_cutoff_def UnixMilli_def Millisecond_def)
qed

text \<open>Calls of VerifyPoP at times up to \<open>until\<close>, all with one freshness window.\<close>

inductive pop_call :: "crypto_lib \<Rightarrow> duration \<Rightarrow> instant \<Rightarrow> CryptoProvider \<Rightarrow> CryptoProvider \<Rightarrow> bool"
  for lib maxSkew until where
  pop_call: "now \<le> until \<Longrightarrow> pop_call lib maxSkew until p
     (snd (VerifyPoP lib peer pf meth target env now maxSkew p))"

lemma pop_call_cache:
  "pop_call lib maxSkew until p q \<Longrightarrow>
     cache_call (pop_cutoff maxSkew) replayed_proof until (cp_replay p) (cp_replay q)"
proof (induction rule: pop_call.induct)
  case (pop_call now p peer pf meth target env)
  show ?case
  proof (cases "pop_checks lib peer pf meth target env now maxSkew")
    case True
    then show ?thesis
      using pop_call by (simp add: VerifyPoP_checked case_prod_beta cache_insert)
  next
    case False
    then obtain e where "VerifyPoP lib peer pf meth target env now maxSkew p = (Inl e, p)"
      using VerifyPoP_unchecked by blast
    then show ?thesis by (simp add: cache_skip)
  qed
qed

lemma pop_calls_cache:
  "rtranclp (pop_call lib maxSkew until) p q \<Longrightarrow>
     rtranclp (cache_call (pop_cutoff maxSkew) replayed_proof until) (cp_replay p) (cp_replay q)"
  by (induction rule: rtranclp_induct) (auto intro: pop_call_cache rtranclp.rtrancl_into_rtrancl)

lemma pop_refuses_replay:
  assumes "0 \<le> maxSkew" and "maxSkew \<le> 2 ^ 61"
    and "VerifyPoP lib peer pf meth target env now maxSkew p = (Inr (), q)"
    and "rtranclp (pop_call lib maxSkew later) q r"
  shows "\<exists>e. fst (VerifyPoP lib peer' pf meth' target' env' later maxSkew r) = Inl e"
proof (cases "pop_checks lib peer' pf meth' target' env' later maxSkew")
  case True
  note ok = VerifyPoP_ok [OF assms(3)]
  have fresh: "pop_fresh maxSkew later (pop_CreatedAtMS pf)" using True by (simp add: pop_checks_def)
  have "fst (replay_insert replayed_proof (pop_cutoff maxSkew later) (pop_key pf)
      (pop_CreatedAtMS pf) (cp_replay r)) = Inl replayed_proof"
    using pop_calls_cache [OF assms(4)] ok(3) assms(1,2)
    by (intro pop.no_replay [OF ok(2) _ _ fresh]) (simp_all add: skew_ok_def)
  then show ?thesis using True by (simp add: VerifyPoP_checked case_prod_beta)
next
  case False
  then show ?thesis using VerifyPoP_unchecked [OF False, of r] by auto
qed

text \<open>
  C10: No replay. Once a proof has been accepted, the same proof is refused at any later time,
  after any number of other verifications up to then, for whatever request it is presented, as
  long as the verifier uses one freshness window (not negative and below 73 years).
\<close>

theorem VerifyPoP_no_replay:
  assumes "0 \<le> maxSkew" and "maxSkew \<le> 2 ^ 61"
    and "VerifyPoP lib peer pf meth target env now maxSkew p = (Inr (), q)"
    and "rtranclp (pop_call lib maxSkew later) q r"
  shows "\<exists>e. fst (VerifyPoP lib peer' pf meth' target' env' later maxSkew r) = Inl e"
  using assms by (rule pop_refuses_replay)

text \<open>
  C38: With two freshness windows on one provider a proof can be replayed. An accepted call with a
  shorter window drops the entries that are old for it; a proof whose entry was dropped and that
  is still fresh in its own window is then accepted a second time.
\<close>

theorem short_window_reopens_replay:
  assumes "VerifyPoP lib peer pf meth target env now maxSkew p = (Inr (), q)"
    and "VerifyPoP lib peer2 proof2 method2 target2 env2 now2 maxSkew2 q = (Inr (), r)"
    and "pop_CreatedAtMS pf < pop_cutoff maxSkew2 now2"
    and "pop_key proof2 \<noteq> pop_key pf"
    and "pop_fresh maxSkew later (pop_CreatedAtMS pf)"
  shows "fst (VerifyPoP lib peer pf meth target env later maxSkew r) = Inr ()"
proof -
  note first = VerifyPoP_ok [OF assms(1)] and second = VerifyPoP_ok [OF assms(2)]
  have "cp_replay q (pop_key pf) = Some (pop_CreatedAtMS pf)"
    using first(2,3) replay_insert_ok by simp
  then have "cp_replay r (pop_key pf) = None"
    using assms(3,4) second(2,3) by (auto simp: replay_insert_def replay_prune_def Let_def split: if_splits)
  moreover have "pop_checks lib peer pf meth target env later maxSkew"
    using first(1) assms(5) by (simp add: pop_checks_def)
  ultimately show ?thesis
    by (simp add: VerifyPoP_checked replay_insert_def replay_prune_def Let_def)
qed

lemma pop_fresh_iff:
  assumes "0 \<le> maxSkew" and "maxSkew < 2 ^ 63 - 1"
  shows "pop_fresh maxSkew now at \<longleftrightarrow> \<bar>now - at * Millisecond\<bar> \<le> maxSkew"
proof -
  have "to_int64 (- maxSkew) = - maxSkew" using assms by (intro to_int64_id) (simp add: int64_range_def)
  then show ?thesis
    using assms by (auto simp: pop_fresh_def pop_delta_def time_Sub_def)
qed

lemma replay_insert_iff:
  "fst (replay_insert replayed_proof cutoff key at cache) = Inr () \<longleftrightarrow>
     (\<forall>seen. cache key = Some seen \<longrightarrow> seen < cutoff)"
  by (auto simp: replay_insert_def replay_prune_def Let_def split: if_splits option.splits)

text \<open>
  C21: What acceptance of a proof means, exactly. With a freshness window that is not negative and less
  than the largest duration, a proof is accepted if and only if it names the peer as holder, and
  the request's method and target; it was created at most one window before or after now; its hash
  is the digest of the envelope presented; the classical signature verifies on the statement under
  a key of 32 bytes, and the post-quantum signature verifies on the same statement under a key
  that parses; and the replay cache has no entry for holder and nonce that is younger than two
  windows. The proof is then entered, and a proof accepted for two envelopes means that SHA-256
  maps their canonical bytes to the same value.
\<close>

theorem VerifyPoP_exact:
  assumes "0 \<le> maxSkew" and "maxSkew < 2 ^ 63 - 1"
  shows "(fst (VerifyPoP lib peer pf meth target env now maxSkew p) = Inr () \<longleftrightarrow>
      pop_Holder pf = pb_KeyID peer \<and> pop_Method pf = meth \<and> pop_Target pf = target
      \<and> \<bar>now - pop_CreatedAtMS pf * Millisecond\<bar> \<le> maxSkew
      \<and> DigestHex (lib_sha256 lib) env = Inr (pop_EnvelopeHash pf)
      \<and> length (pb_Ed25519 peer) = 32
      \<and> ed_Verify lib (pb_Ed25519 peer) (marshal_unsignedPoP (unsigned_of pf)) (slice (sig_Ed25519 (pop_Signature pf)))
      \<and> is_ok (ml_NewPublicKey lib (pb_MLDSA44 peer))
      \<and> is_ok (ml_Verify lib (pb_MLDSA44 peer) (marshal_unsignedPoP (unsigned_of pf))
          (slice (sig_MLDSA44 (pop_Signature pf))) ''ubiq-envelope-v1'')
      \<and> (\<forall>seen. cp_replay p (pop_Holder pf @ '':'' @ pop_Nonce pf) = Some seen \<longrightarrow>
           seen < UnixMilli (now + to_int64 (- 2 * maxSkew))))
    \<and> (\<forall>q. VerifyPoP lib peer pf meth target env now maxSkew p = (Inr (), q) \<longrightarrow>
         cp_replay q (pop_Holder pf @ '':'' @ pop_Nonce pf) = Some (pop_CreatedAtMS pf)
         \<and> (\<forall>env' now' p' q'. VerifyPoP lib peer pf meth target env' now' maxSkew p' = (Inr (), q') \<longrightarrow>
              (\<exists>a b. CanonicalBytes env = Inr a \<and> CanonicalBytes env' = Inr b
                 \<and> lib_sha256 lib a = lib_sha256 lib b)))"
    (is "(?accepted \<longleftrightarrow> ?exact) \<and> ?after")
proof
  show "?accepted \<longleftrightarrow> ?exact"
  proof (cases "pop_checks lib peer pf meth target env now maxSkew")
    case True
    then show ?thesis
      using pop_fresh_iff [OF assms]
      by (simp add: VerifyPoP_checked case_prod_beta replay_insert_iff pop_checks_def pop_key_def pop_cutoff_def VerifyHybrid_iff)
  next
    case False
    then obtain e where "VerifyPoP lib peer pf meth target env now maxSkew p = (Inl e, p)" using VerifyPoP_unchecked by blast
    then show ?thesis
      using False pop_fresh_iff [OF assms] by (simp add: pop_checks_def VerifyHybrid_iff) blast
  qed
  show ?after
  proof (intro allI impI conjI)
    fix q assume v: "VerifyPoP lib peer pf meth target env now maxSkew p = (Inr (), q)"
    note ok = VerifyPoP_ok [OF v]
    show "cp_replay q (pop_Holder pf @ '':'' @ pop_Nonce pf) = Some (pop_CreatedAtMS pf)"
      using ok(2,3) replay_insert_ok by (simp add: pop_key_def)
    fix env' now' p' q' assume v': "VerifyPoP lib peer pf meth target env' now' maxSkew p' = (Inr (), q')"
    have "DigestHex (lib_sha256 lib) env = Inr (pop_EnvelopeHash pf)"
      "DigestHex (lib_sha256 lib) env' = Inr (pop_EnvelopeHash pf)"
      using ok(1) VerifyPoP_ok(1) [OF v'] by (simp_all add: pop_checks_def)
    then obtain a b where "CanonicalBytes env = Inr a" "CanonicalBytes env' = Inr b"
      "hex_EncodeToString (lib_sha256 lib a) = hex_EncodeToString (lib_sha256 lib b)"
      by (auto simp: DigestHex_def Digest_def split: sum.splits)
    then show "\<exists>a b. CanonicalBytes env = Inr a \<and> CanonicalBytes env' = Inr b \<and> lib_sha256 lib a = lib_sha256 lib b"
      by (simp add: hex_EncodeToString_inj)
  qed
qed

lemma honest_pop_verifies:
  assumes "signatures_correct lib" and "provider_keys lib p"
    and "NewPoP lib rand p meth target env now = Inr pf"
    and "pop_fresh maxSkew later (UnixMilli now)" and "cp_replay v (pop_key pf) = None"
  shows "\<exists>v'. VerifyPoP lib (Public lib p) pf meth target env later maxSkew v = (Inr (), v')"
proof -
  obtain hash n sig where h: "DigestHex (lib_sha256 lib) env = Inr hash" and "rand = Inr n"
    and sig: "Sign lib p (marshal_unsignedPoP (unsigned_of pf)) = Inr sig"
    and pf: "pop_Holder pf = cp_keyID p" "pop_CreatedAtMS pf = UnixMilli now"
      "pop_Method pf = meth" "pop_Target pf = target" "pop_EnvelopeHash pf = hash"
      "pop_Signature pf = sig"
    using assms(3) by (auto simp: NewPoP_def Let_def unsigned_of_def split: sum.splits)
  have "pop_checks lib (Public lib p) pf meth target env later maxSkew"
    using h pf assms(4) Sign_verifies [OF assms(1,2) sig]
    by (simp add: pop_checks_def Public_def)
  then show ?thesis
    using assms(5) by (simp add: VerifyPoP_checked replay_insert_def replay_prune_def Let_def)
qed

text \<open>
  An honest proof is accepted: a proof that a provider makes for a request verifies under its
  public bundle at any verifier that has not seen its nonce, at any time within the window.
\<close>

theorem NewPoP_verifies:
  assumes "signatures_correct lib" and "provider_keys lib p"
    and "NewPoP lib rand p meth target env now = Inr pf"
    and "pop_fresh maxSkew later (UnixMilli now)" and "cp_replay v (pop_key pf) = None"
  shows "\<exists>v'. VerifyPoP lib (Public lib p) pf meth target env later maxSkew v = (Inr (), v')"
  using assms by (rule honest_pop_verifies)

section \<open>A concrete provider\<close>

text \<open>Primitives without any strength that satisfy the laws assumed above.\<close>

definition sample_lib :: crypto_lib where
  "sample_lib =
     \<lparr>ed_public = (\<lambda>k. replicate 32 (CHR ''p'')),
      ed_Sign = (\<lambda>k msg. take 2 msg), ed_Verify = (\<lambda>pk msg sig. sig = take 2 msg),
      ml_public = (\<lambda>k. k), ml_Sign = (\<lambda>k msg ctx. Inr (take 2 msg)),
      ml_NewPublicKey = (\<lambda>_. Inr ()),
      ml_Verify = (\<lambda>pk msg sig ctx. if sig = take 2 msg then Inr () else Inl (LibError ''bad'')),
      x_public = (\<lambda>k. k), x_NewPublicKey = (\<lambda>_. Inr ()),
      x_ECDH = (\<lambda>a b. Inr (if a \<le> b then a @ b else b @ a)),
      kem_public = (\<lambda>k. k), kem_NewEncapsulationKey = (\<lambda>_. Inr ()),
      kem_Encapsulate = (\<lambda>pk coins. (coins, coins)), kem_Decapsulate = (\<lambda>k ct. Inr ct),
      hkdf_Key = (\<lambda>b info n. Inr (take n (b @ replicate n (CHR ''k'')))),
      aead_NewX = (\<lambda>k. Inr ()), aead_Seal = (\<lambda>k n pt aad. pt), aead_Open = (\<lambda>k n ct aad. Inr ct),
      lib_sha256 = (\<lambda>b. take 4 b)\<rparr>"

definition sample_provider :: CryptoProvider where
  "sample_provider =
     \<lparr>cp_keyID = ''alice'', cp_edPublic = replicate 32 (CHR ''p''), cp_edPrivate = ''e'',
      cp_mlPrivate = ''m'', cp_xPrivate = ''x'', cp_kemPrivate = ''q'', cp_replay = Map.empty\<rparr>"

definition sample_buffers :: buffers where
  "sample_buffers = \<lparr>buf_next = 0, buf_mem = (\<lambda>_. [])\<rparr>"

lemma sample_lib_laws:
  "dh_agrees sample_lib" "dh_keys_parse sample_lib" "kem_correct sample_lib" "aead_correct sample_lib"
  "signatures_correct sample_lib" "provider_keys sample_lib sample_provider"
  by (auto simp: sample_lib_def dh_agrees_def dh_keys_parse_def kem_correct_def aead_correct_def
      signatures_correct_def provider_keys_def sample_provider_def)

theorem session_end_to_end_witness:
  "\<exists>offer s m' t n'. Establish sample_lib (Inr ''eph'') ''coins'' (Public sample_lib sample_provider) sample_buffers
       = (Inr (offer, s), m')
     \<and> Accept sample_lib sample_provider offer sample_buffers = (Inr t, n')
     \<and> Open sample_lib t n' (replicate 24 (CHR ''n'') @ ''hello'') ''aad'' = Inr ''hello''"
proof -
  have "is_ok (fst (Establish sample_lib (Inr ''eph'') ''coins'' (Public sample_lib sample_provider) sample_buffers))"
    by code_simp
  then obtain offer s m' where est: "Establish sample_lib (Inr ''eph'') ''coins''
      (Public sample_lib sample_provider) sample_buffers = (Inr (offer, s), m')"
    by (cases "Establish sample_lib (Inr ''eph'') ''coins'' (Public sample_lib sample_provider) sample_buffers")
      (auto simp: is_ok_def split: sum.splits)
  have "\<not> sec_destroyed s" by (rule Establish_ok [OF est])
  then have "Seal sample_lib (Inr (replicate 24 (CHR ''n''))) s m' ''hello'' ''aad'' =
      Inr (replicate 24 (CHR ''n'') @ ''hello'')"
    by (simp add: Seal_def Secret_Use_def sample_lib_def)
  moreover have "length (replicate 24 (CHR ''n'')) = NonceSizeX" by (simp add: NonceSizeX_def)
  ultimately show ?thesis
    using est session_end_to_end [OF sample_lib_laws(1-4) est, of sample_buffers] by blast
qed

theorem destroyed_secret_unusable_witness:
  "Seal sample_lib (Inr []) (fst (Secret_Destroy \<lparr>sec_material = Some 0, sec_destroyed = False\<rparr> sample_buffers))
     sample_buffers ''x'' [] = Inl (errors_New ''secret already destroyed'')"
  using destroyed_secret_unusable [OF prod.collapse [symmetric],
      where s = "\<lparr>sec_material = Some 0, sec_destroyed = False\<rparr>" and m = sample_buffers
        and lib = sample_lib and rand = "Inr []" and n = sample_buffers and plaintext = "''x''" and aad = "[]"]
  by blast

theorem hybrid_signature_witness:
  "VerifyHybrid sample_lib (Public sample_lib sample_provider) ''msg''
     \<lparr>sig_Ed25519 = Some ''ms'', sig_MLDSA44 = Some ''ms''\<rparr> = Inr ()"
proof -
  have "Sign sample_lib sample_provider ''msg'' =
      Inr \<lparr>sig_Ed25519 = Some ''ms'', sig_MLDSA44 = Some ''ms''\<rparr>"
    by (simp add: Sign_def sample_lib_def)
  then show ?thesis using hybrid_signature [OF sample_lib_laws(5,6), of "''msg''"] by blast
qed

definition sample_pop :: "string \<Rightarrow> string \<Rightarrow> instant \<Rightarrow> ProofOfPossession" where
  "sample_pop target nonce now =
     (case NewPoP sample_lib (Inr nonce) sample_provider ''PUBLISH'' target (sample_envelope ''e1'' ''k1'') now of
        Inr pf \<Rightarrow> pf
      | Inl _ \<Rightarrow> undefined)"

lemma sample_pop_new:
  "NewPoP sample_lib (Inr nonce) sample_provider ''PUBLISH'' target (sample_envelope ''e1'' ''k1'') now =
     Inr (sample_pop target nonce now)"
proof -
  have "is_ok (DigestHex (lib_sha256 sample_lib) (sample_envelope ''e1'' ''k1''))" by code_simp
  then have "is_ok (NewPoP sample_lib (Inr nonce) sample_provider ''PUBLISH'' target
      (sample_envelope ''e1'' ''k1'') now)"
    by (auto simp: NewPoP_def Let_def Sign_def is_ok_def sample_lib_def split: sum.splits)
  then show ?thesis by (simp add: sample_pop_def is_ok_def split: sum.splits)
qed

lemma NewPoP_fields:
  "NewPoP lib (Inr n) p meth target env now = Inr pf \<Longrightarrow>
     pop_Holder pf = cp_keyID p \<and> pop_CreatedAtMS pf = UnixMilli now
     \<and> pop_Nonce pf = hex_EncodeToString n"
  by (auto simp: NewPoP_def Let_def split: sum.splits)

lemma sample_pop_key:
  "pop_key (sample_pop target nonce now) = ''alice:'' @ hex_EncodeToString nonce"
  "pop_CreatedAtMS (sample_pop target nonce now) = UnixMilli now"
  using NewPoP_fields [OF sample_pop_new] by (simp_all add: pop_key_def sample_provider_def)

lemma sample_fresh: "pop_fresh d now (UnixMilli created)"
  if "created \<le> now" "now \<le> created + 1000 * Second" "2000 * Second \<le> d" "d < 2 ^ 62" for d now created
proof -
  have "UnixMilli created * Millisecond \<le> created" "created < UnixMilli created * Millisecond + Millisecond"
    by (simp_all add: UnixMilli_def Millisecond_def)
  with that show ?thesis
    by (auto simp: pop_fresh_def pop_delta_def time_Sub_def to_int64_id int64_range_def Second_def
        Millisecond_def max_def min_def)
qed

theorem NewPoP_verifies_witness:
  "\<exists>v'. VerifyPoP sample_lib (Public sample_lib sample_provider) (sample_pop ''t'' ''n'' 0) ''PUBLISH'' ''t''
      (sample_envelope ''e1'' ''k1'') Second (2000 * Second) sample_provider = (Inr (), v')"
proof -
  have "pop_fresh (2000 * Second) Second (UnixMilli 0)" by (rule sample_fresh) (simp_all add: Second_def)
  then show ?thesis
    using NewPoP_verifies [OF sample_lib_laws(5,6) sample_pop_new, of "2000 * Second" Second 0 sample_provider "''t''" "''n''"]
    by (simp add: sample_provider_def)
qed

lemma sample_verify:
  assumes "pop_fresh d later (UnixMilli now)" and "cp_replay v (''alice:'' @ hex_EncodeToString nonce) = None"
  shows "VerifyPoP sample_lib (Public sample_lib sample_provider) (sample_pop target nonce now) ''PUBLISH'' target
      (sample_envelope ''e1'' ''k1'') later d v =
    (Inr (), v\<lparr>cp_replay := (replay_prune (pop_cutoff d later) (cp_replay v))
        (''alice:'' @ hex_EncodeToString nonce \<mapsto> UnixMilli now)\<rparr>)"
proof -
  obtain v' where "VerifyPoP sample_lib (Public sample_lib sample_provider) (sample_pop target nonce now)
      ''PUBLISH'' target (sample_envelope ''e1'' ''k1'') later d v = (Inr (), v')"
    (is "?call = _")
    using honest_pop_verifies [OF sample_lib_laws(5,6) sample_pop_new assms(1)] assms(2) sample_pop_key by metis
  from VerifyPoP_ok [OF this] show ?thesis
    using \<open>?call = _\<close> assms(2)
    by (simp add: replay_insert_def replay_prune_def Let_def sample_pop_key)
qed

definition sample_seen :: CryptoProvider where
  "sample_seen = sample_provider\<lparr>cp_replay := [''alice:'' @ hex_EncodeToString ''n'' \<mapsto> 0]\<rparr>"

lemma sample_first:
  "VerifyPoP sample_lib (Public sample_lib sample_provider) (sample_pop ''t'' ''n'' 0) ''PUBLISH'' ''t''
      (sample_envelope ''e1'' ''k1'') Second (2000 * Second) sample_provider = (Inr (), sample_seen)"
proof -
  have "pop_fresh (2000 * Second) Second (UnixMilli 0)" by (rule sample_fresh) (simp_all add: Second_def)
  from sample_verify [OF this, of sample_provider "''n''"] show ?thesis
    by (simp add: sample_provider_def sample_seen_def replay_prune_def UnixMilli_def)
qed

theorem VerifyPoP_no_replay_witness:
  "\<exists>e. fst (VerifyPoP sample_lib (Public sample_lib sample_provider) (sample_pop ''t'' ''n'' 0) ''PUBLISH'' ''t''
      (sample_envelope ''e1'' ''k1'') (2 * Second) (2000 * Second) sample_seen) = Inl e"
  by (rule VerifyPoP_no_replay [OF _ _ sample_first rtranclp.rtrancl_refl]) (simp_all add: Second_def)

theorem VerifyPoP_exact_witness:
  "ed_Verify sample_lib (pb_Ed25519 (Public sample_lib sample_provider)) (marshal_unsignedPoP (unsigned_of (sample_pop ''t'' ''n'' 0)))
     (slice (sig_Ed25519 (pop_Signature (sample_pop ''t'' ''n'' 0))))
   \<and> is_ok (ml_Verify sample_lib (pb_MLDSA44 (Public sample_lib sample_provider))
        (marshal_unsignedPoP (unsigned_of (sample_pop ''t'' ''n'' 0)))
        (slice (sig_MLDSA44 (pop_Signature (sample_pop ''t'' ''n'' 0)))) ''ubiq-envelope-v1'')"
proof -
  have "(0::duration) \<le> 2000 * Second" "2000 * Second < 2 ^ 63 - 1" by (simp_all add: Second_def)
  note exact = VerifyPoP_exact [OF this, where lib = sample_lib and peer = "Public sample_lib sample_provider"
      and pf = "sample_pop ''t'' ''n'' 0" and meth = "''PUBLISH''" and target = "''t''"
      and env = "sample_envelope ''e1'' ''k1''" and now = Second and p = sample_provider]
  show ?thesis using conjunct1 [OF exact] unfolding sample_first fst_conv by blast
qed

theorem short_window_reopens_replay_witness:
  "\<exists>r. fst (VerifyPoP sample_lib (Public sample_lib sample_provider) (sample_pop ''t'' ''n'' 0) ''PUBLISH'' ''t''
      (sample_envelope ''e1'' ''k1'') (600 * Second) (2000 * Second) r) = Inr ()
    \<and> (\<exists>q. VerifyPoP sample_lib (Public sample_lib sample_provider) (sample_pop ''t'' ''m'' (500 * Second)) ''PUBLISH'' ''t''
          (sample_envelope ''e1'' ''k1'') (500 * Second) (100 * Second) sample_seen = (q, r))"
proof -
  have fresh: "pop_fresh (100 * Second) (500 * Second) (UnixMilli (500 * Second))"
    by (simp add: pop_fresh_def pop_delta_def time_Sub_def Second_def UnixMilli_def Millisecond_def
        to_int64_def)
  have keys: "''alice:'' @ hex_EncodeToString ''m'' \<noteq> ''alice:'' @ hex_EncodeToString ''n''"
    by (simp add: hex_EncodeToString_inj)
  then have "cp_replay sample_seen (''alice:'' @ hex_EncodeToString ''m'') = None"
    by (simp add: sample_seen_def)
  note second = sample_verify [OF fresh this]
  have "pop_fresh (2000 * Second) (600 * Second) (pop_CreatedAtMS (sample_pop ''t'' ''n'' 0))"
    unfolding sample_pop_key by (rule sample_fresh) (simp_all add: Second_def)
  moreover have "pop_CreatedAtMS (sample_pop ''t'' ''n'' 0) < pop_cutoff (100 * Second) (500 * Second)"
    by (simp add: sample_pop_key pop_cutoff_def UnixMilli_def Millisecond_def Second_def to_int64_def)
  moreover have "pop_key (sample_pop ''t'' ''m'' (500 * Second)) \<noteq> pop_key (sample_pop ''t'' ''n'' 0)"
    using keys by (simp add: sample_pop_key)
  ultimately show ?thesis
    using short_window_reopens_replay [OF sample_first second] second by blast
qed

end
