(* ===== verification/UbiQ_Transport.thy ===== *)
theory UbiQ_Transport
  imports UbiQ_Model
begin

text \<open>
  Transports as the runtime sees them (\<^verbatim>\<open>src/runtime/go/ubiq/transport.go\<close>): what a transport is
  able to do, what a route requires, the registry of named transports and the validation of a
  route.
\<close>

section \<open>Capabilities and requirements\<close>

record Capabilities =
  cap_Reliable :: bool
  cap_Ordered :: bool
  cap_Durable :: bool
  cap_Replay :: bool
  cap_Bidirectional :: bool
  cap_ConsumerGroups :: bool
  cap_Streaming :: bool
  cap_ExecutionSettlement :: bool

record Requirement =
  req_Reliable :: bool
  req_Ordered :: bool
  req_Durable :: bool
  req_Replay :: bool
  req_Bidirectional :: bool
  req_ConsumerGroups :: bool
  req_Streaming :: bool
  req_ExecutionSettlement :: bool

definition no_capabilities :: Capabilities where
  "no_capabilities =
     \<lparr>cap_Reliable = False, cap_Ordered = False, cap_Durable = False, cap_Replay = False,
      cap_Bidirectional = False, cap_ConsumerGroups = False, cap_Streaming = False,
      cap_ExecutionSettlement = False\<rparr>"

definition no_requirement :: Requirement where
  "no_requirement =
     \<lparr>req_Reliable = False, req_Ordered = False, req_Durable = False, req_Replay = False,
      req_Bidirectional = False, req_ConsumerGroups = False, req_Streaming = False,
      req_ExecutionSettlement = False\<rparr>"

definition Satisfies :: "Capabilities \<Rightarrow> Requirement \<Rightarrow> unit result" where
  "Satisfies c r =
     (if req_Reliable r \<and> \<not> cap_Reliable c then Inl (errors_New ''reliable delivery required'')
      else if req_Ordered r \<and> \<not> cap_Ordered c then Inl (errors_New ''ordering required'')
      else if req_Durable r \<and> \<not> cap_Durable c then Inl (errors_New ''durability required'')
      else if req_Replay r \<and> \<not> cap_Replay c then Inl (errors_New ''replay required'')
      else if req_Bidirectional r \<and> \<not> cap_Bidirectional c
        then Inl (errors_New ''bidirectional transport required'')
      else if req_ConsumerGroups r \<and> \<not> cap_ConsumerGroups c
        then Inl (errors_New ''consumer groups required'')
      else if req_Streaming r \<and> \<not> cap_Streaming c then Inl (errors_New ''streaming required'')
      else if req_ExecutionSettlement r \<and> \<not> cap_ExecutionSettlement c
        then Inl (errors_New ''execution settlement required'')
      else Inr ())"

text \<open>What each binding declares.\<close>

definition Memory_Capabilities :: Capabilities where
  "Memory_Capabilities = no_capabilities\<lparr>cap_Reliable := True, cap_Ordered := True,
     cap_Bidirectional := True, cap_Streaming := True, cap_ExecutionSettlement := True\<rparr>"

definition NATS_Capabilities :: "bool \<Rightarrow> Capabilities" where
  "NATS_Capabilities jetStream =
     (if jetStream
      then no_capabilities\<lparr>cap_Reliable := True, cap_Durable := True, cap_Replay := True,
        cap_Bidirectional := True, cap_ConsumerGroups := True, cap_Streaming := True,
        cap_ExecutionSettlement := True\<rparr>
      else no_capabilities\<lparr>cap_Reliable := True, cap_Bidirectional := True, cap_Streaming := True\<rparr>)"

definition Kafka_Capabilities :: Capabilities where
  "Kafka_Capabilities = no_capabilities\<lparr>cap_Reliable := True, cap_Ordered := True,
     cap_Durable := True, cap_Replay := True, cap_ConsumerGroups := True, cap_Streaming := True,
     cap_ExecutionSettlement := True\<rparr>"

definition Rabbit_Capabilities :: Capabilities where
  "Rabbit_Capabilities = no_capabilities\<lparr>cap_Reliable := True, cap_Durable := True,
     cap_Bidirectional := True, cap_ConsumerGroups := True, cap_ExecutionSettlement := True\<rparr>"

definition RedisStreams_Capabilities :: Capabilities where
  "RedisStreams_Capabilities = no_capabilities\<lparr>cap_Reliable := True, cap_Ordered := True,
     cap_Durable := True, cap_Replay := True, cap_ConsumerGroups := True, cap_Streaming := True,
     cap_ExecutionSettlement := True\<rparr>"

definition MQTT_Capabilities :: Capabilities where
  "MQTT_Capabilities = no_capabilities\<lparr>cap_Reliable := True, cap_Ordered := True,
     cap_Bidirectional := True, cap_Streaming := True\<rparr>"

definition TCP_Capabilities :: Capabilities where
  "TCP_Capabilities = no_capabilities\<lparr>cap_Reliable := True, cap_Ordered := True,
     cap_Bidirectional := True, cap_Streaming := True\<rparr>"

definition QUIC_Capabilities :: Capabilities where
  "QUIC_Capabilities = no_capabilities\<lparr>cap_Reliable := True, cap_Ordered := True,
     cap_Bidirectional := True, cap_Streaming := True\<rparr>"

definition GRPC_Capabilities :: Capabilities where
  "GRPC_Capabilities = no_capabilities\<lparr>cap_Reliable := True, cap_Ordered := True,
     cap_Bidirectional := True, cap_Streaming := True\<rparr>"

section \<open>The registry\<close>

text \<open>
  The registry calls a transport only for its name, its capabilities and to close it; the result
  of closing is the transport's own. A Go map is a partial function, and where the code ranges
  over it the iteration order is an argument.
\<close>

record Transport =
  tr_Name :: string
  tr_Capabilities :: Capabilities
  tr_Close :: "unit result"

type_synonym Registry = "string \<rightharpoonup> Transport"

definition NewRegistry :: Registry where
  "NewRegistry = Map.empty"

definition Registry_Register :: "Transport option \<Rightarrow> Registry \<Rightarrow> unit result \<times> Registry" where
  "Registry_Register t r =
     (case t of
        None \<Rightarrow> (Inl (errors_New ''transport with name required''), r)
      | Some t \<Rightarrow>
          if tr_Name t = [] then (Inl (errors_New ''transport with name required''), r)
          else if r (tr_Name t) \<noteq> None
            then (Inl (Errorf ''transport %q already registered'' [tr_Name t]), r)
          else (Inr (), r(tr_Name t \<mapsto> t)))"

definition Registry_Get :: "Registry \<Rightarrow> string \<Rightarrow> Transport result" where
  "Registry_Get r name =
     (case r name of None \<Rightarrow> Inl (Errorf ''unknown transport %q'' [name]) | Some t \<Rightarrow> Inr t)"

fun close_all :: "Transport list \<Rightarrow> go_error option \<Rightarrow> unit result" where
  "close_all [] first = (case first of None \<Rightarrow> Inr () | Some e \<Rightarrow> Inl e)"
| "close_all (t # ts) first =
     close_all ts (case tr_Close t of Inl e \<Rightarrow> (case first of None \<Rightarrow> Some e | Some _ \<Rightarrow> first)
                                    | Inr _ \<Rightarrow> first)"

definition Registry_Close :: "string list \<Rightarrow> Registry \<Rightarrow> unit result" where
  "Registry_Close order r = close_all (List.map_filter r order) None"

definition Registry_Names :: "string list \<Rightarrow> string list" where
  "Registry_Names order = sort order"

record Route =
  rt_Ingress :: string
  rt_Backbone :: string
  rt_Egress :: string
  rt_Requires :: Requirement

text \<open>The loop of \<^verbatim>\<open>ValidateRoute\<close> over the stages, with its two flags.\<close>

fun route_stages :: "Registry \<Rightarrow> string list \<Rightarrow> bool \<Rightarrow> bool \<Rightarrow> (bool \<times> bool) result" where
  "route_stages r [] hasDurable hasSettlement = Inr (hasDurable, hasSettlement)"
| "route_stages r (name # names) hasDurable hasSettlement =
     (if name = [] then route_stages r names hasDurable hasSettlement
      else case Registry_Get r name of
        Inl e \<Rightarrow> Inl e
      | Inr t \<Rightarrow> let c = tr_Capabilities t in
          route_stages r names (hasDurable \<or> cap_Durable c)
            (hasSettlement \<or> cap_ExecutionSettlement c))"

definition ValidateRoute :: "Registry \<Rightarrow> Route \<Rightarrow> unit result" where
  "ValidateRoute r route =
     (case route_stages r [rt_Ingress route, rt_Backbone route, rt_Egress route] False False of
        Inl e \<Rightarrow> Inl e
      | Inr (hasDurable, hasSettlement) \<Rightarrow>
          if req_Durable (rt_Requires route) \<and> \<not> hasDurable
            then Inl (errors_New ''route has no durable stage'')
          else if req_ExecutionSettlement (rt_Requires route) \<and> \<not> hasSettlement
            then Inl (errors_New ''route has no execution-settlement stage'')
          else Inr ())"

section \<open>Negotiation\<close>

definition requires_no_more :: "Requirement \<Rightarrow> Requirement \<Rightarrow> bool" where
  "requires_no_more r q \<longleftrightarrow>
     (req_Reliable r \<longrightarrow> req_Reliable q) \<and> (req_Ordered r \<longrightarrow> req_Ordered q)
     \<and> (req_Durable r \<longrightarrow> req_Durable q) \<and> (req_Replay r \<longrightarrow> req_Replay q)
     \<and> (req_Bidirectional r \<longrightarrow> req_Bidirectional q)
     \<and> (req_ConsumerGroups r \<longrightarrow> req_ConsumerGroups q)
     \<and> (req_Streaming r \<longrightarrow> req_Streaming q)
     \<and> (req_ExecutionSettlement r \<longrightarrow> req_ExecutionSettlement q)"

definition provides :: "Capabilities \<Rightarrow> Requirement" where
  "provides c =
     \<lparr>req_Reliable = cap_Reliable c, req_Ordered = cap_Ordered c, req_Durable = cap_Durable c,
      req_Replay = cap_Replay c, req_Bidirectional = cap_Bidirectional c,
      req_ConsumerGroups = cap_ConsumerGroups c, req_Streaming = cap_Streaming c,
      req_ExecutionSettlement = cap_ExecutionSettlement c\<rparr>"

lemmas capability_defs = Memory_Capabilities_def NATS_Capabilities_def Kafka_Capabilities_def
  Rabbit_Capabilities_def RedisStreams_Capabilities_def MQTT_Capabilities_def
  TCP_Capabilities_def QUIC_Capabilities_def GRPC_Capabilities_def no_capabilities_def

lemma guard_ok: "(if P then Inl e else x) = Inr u \<longleftrightarrow> \<not> P \<and> x = Inr u"
  by simp

text \<open>
  Satisfies accepts exactly the requirements a transport provides, each of the eight on its
  own; so the only bindings fit for processed delivery (reliable, durable, with execution
  settlement) are JetStream, Kafka, RabbitMQ and Redis Streams.
\<close>

theorem Satisfies_iff:
  "(Satisfies c r = Inr () \<longleftrightarrow> requires_no_more r (provides c))
   \<and> filter (\<lambda>c. is_ok (Satisfies c (no_requirement\<lparr>req_Reliable := True, req_Durable := True,
                                       req_ExecutionSettlement := True\<rparr>)))
       [Memory_Capabilities, NATS_Capabilities False, NATS_Capabilities True, Kafka_Capabilities,
        Rabbit_Capabilities, RedisStreams_Capabilities, MQTT_Capabilities, TCP_Capabilities,
        QUIC_Capabilities, GRPC_Capabilities]
     = [NATS_Capabilities True, Kafka_Capabilities, Rabbit_Capabilities, RedisStreams_Capabilities]"
proof
  show "Satisfies c r = Inr () \<longleftrightarrow> requires_no_more r (provides c)"
    unfolding Satisfies_def requires_no_more_def provides_def guard_ok by simp
qed code_simp

section \<open>Registries of named components\<close>

text \<open>
  The contract of a registry: a successful registration binds a name that was free and touches no
  other, a failed one changes nothing. Under it the first component registered under a name stays
  there through every later registration.
\<close>

locale name_registry =
  fixes name_of :: "'a \<Rightarrow> string"
    and register :: "'a option \<Rightarrow> 'r \<Rightarrow> unit result \<times> 'r"
    and get :: "'r \<Rightarrow> string \<Rightarrow> 'a result"
  assumes register_get: "register (Some a) r = (Inr (), r') \<Longrightarrow>
      get r' n = (if n = name_of a then Inr a else get r n)"
    and register_free: "register (Some a) r = (Inr (), r') \<Longrightarrow> \<not> is_ok (get r (name_of a))"
    and register_nil: "\<not> is_ok (fst (register None r))"
    and register_error: "register x r = (Inl e, r') \<Longrightarrow> r' = r"
begin

definition register_all :: "'a option list \<Rightarrow> 'r \<Rightarrow> 'r" where
  "register_all xs r = fold (\<lambda>x r. snd (register x r)) xs r"

lemma get_register: "get r n = Inr a \<Longrightarrow> get (snd (register x r)) n = Inr a"
proof -
  assume a: "get r n = Inr a"
  obtain res r' where reg: "register x r = (res, r')" by fastforce
  show "get (snd (register x r)) n = Inr a"
  proof (cases res)
    case Inl
    then show ?thesis using register_error reg a by auto
  next
    case (Inr u)
    then obtain b where "x = Some b" using register_nil [of r] reg by (cases x) auto
    with reg Inr have "get r' n = (if n = name_of b then Inr b else get r n)"
      "\<not> is_ok (get r (name_of b))"
      using register_get register_free by auto
    with a reg show ?thesis by auto
  qed
qed

lemma register_all_keeps: "get r n = Inr a \<Longrightarrow> get (register_all xs r) n = Inr a"
  by (induction xs arbitrary: r) (auto simp: register_all_def get_register)

lemma first_registration_wins:
  "register (Some a) r = (Inr (), r') \<Longrightarrow> get (register_all xs r') (name_of a) = Inr a"
  by (rule register_all_keeps) (simp add: register_get)

end

lemma Registry_Register_ok:
  "Registry_Register (Some t) r = (Inr (), r') \<longleftrightarrow>
     tr_Name t \<noteq> [] \<and> r (tr_Name t) = None \<and> r' = r(tr_Name t \<mapsto> t)"
  by (auto simp: Registry_Register_def)

interpretation transports: name_registry tr_Name Registry_Register Registry_Get
proof unfold_locales
  fix a r r' n
  assume reg: "Registry_Register (Some a) r = (Inr (), r')"
  then show "Registry_Get r' n = (if n = tr_Name a then Inr a else Registry_Get r n)"
    by (simp add: Registry_Register_ok Registry_Get_def)
  from reg show "\<not> is_ok (Registry_Get r (tr_Name a))"
    by (simp add: Registry_Register_ok Registry_Get_def)
next
  show "\<not> is_ok (fst (Registry_Register None r))" for r by (simp add: Registry_Register_def)
  show "Registry_Register x r = (Inl e, r') \<Longrightarrow> r' = r" for x r e r'
    by (auto simp: Registry_Register_def split: option.splits if_splits)
qed

text \<open>
  A transport that was registered is what Get returns for its name after any further
  registrations, successful or not: a name is never taken over.
\<close>

theorem Register_Get:
  assumes "Registry_Register (Some t) r = (Inr (), r')"
  shows "Registry_Get (fold (\<lambda>x r. snd (Registry_Register x r)) xs r') (tr_Name t) = Inr t"
  using transports.first_registration_wins [OF assms, of xs]
  by (simp add: transports.register_all_def)

section \<open>Routes\<close>

lemma route_stages_ok:
  "route_stages r names d x = Inr (d', x') \<longleftrightarrow>
     (\<forall>n \<in> set names. n \<noteq> [] \<longrightarrow> r n \<noteq> None)
     \<and> (d' \<longleftrightarrow> d \<or> (\<exists>n \<in> set names. \<exists>t. n \<noteq> [] \<and> r n = Some t \<and> cap_Durable (tr_Capabilities t)))
     \<and> (x' \<longleftrightarrow> x \<or> (\<exists>n \<in> set names. \<exists>t. n \<noteq> [] \<and> r n = Some t
            \<and> cap_ExecutionSettlement (tr_Capabilities t)))"
  by (induction r names d x rule: route_stages.induct)
    (auto simp: Registry_Get_def Let_def split: option.splits)

lemma route_stages_error:
  "route_stages r names d x = Inl e \<Longrightarrow>
     \<exists>n \<in> set names. n \<noteq> [] \<and> r n = None \<and> e = Errorf ''unknown transport %q'' [n]"
  by (induction r names d x rule: route_stages.induct)
    (auto simp: Registry_Get_def Let_def split: option.splits if_splits)

definition route_stage :: "Route \<Rightarrow> Registry \<Rightarrow> Transport \<Rightarrow> bool" where
  "route_stage route r t \<longleftrightarrow>
     (\<exists>n \<in> {rt_Ingress route, rt_Backbone route, rt_Egress route}. n \<noteq> [] \<and> r n = Some t)"

text \<open>
  C35: A route is accepted exactly when every stage it names is registered, some stage is durable
  if the route requires durability, and some stage settles executions if the route requires
  settlement. The other six requirements of the route have no influence.
\<close>

theorem ValidateRoute_ok_iff:
  "(ValidateRoute r route = Inr () \<longleftrightarrow>
      (\<forall>n \<in> {rt_Ingress route, rt_Backbone route, rt_Egress route}. n \<noteq> [] \<longrightarrow> r n \<noteq> None)
      \<and> (req_Durable (rt_Requires route) \<longrightarrow>
           (\<exists>t. route_stage route r t \<and> cap_Durable (tr_Capabilities t)))
      \<and> (req_ExecutionSettlement (rt_Requires route) \<longrightarrow>
           (\<exists>t. route_stage route r t \<and> cap_ExecutionSettlement (tr_Capabilities t))))
   \<and> ValidateRoute r (route\<lparr>rt_Requires := (rt_Requires route)\<lparr>req_Reliable := a,
        req_Ordered := b, req_Replay := c, req_Bidirectional := d, req_ConsumerGroups := g,
        req_Streaming := h\<rparr>\<rparr>) = ValidateRoute r route"
proof
  let ?names = "[rt_Ingress route, rt_Backbone route, rt_Egress route]"
  have stage: "(\<exists>t. route_stage route r t \<and> P t) \<longleftrightarrow>
      (\<exists>n \<in> set ?names. \<exists>t. n \<noteq> [] \<and> r n = Some t \<and> P t)" for P
    unfolding route_stage_def set_simps by blast
  have names: "{rt_Ingress route, rt_Backbone route, rt_Egress route} = set ?names" by simp
  show "ValidateRoute r route = Inr () \<longleftrightarrow>
      (\<forall>n \<in> {rt_Ingress route, rt_Backbone route, rt_Egress route}. n \<noteq> [] \<longrightarrow> r n \<noteq> None)
      \<and> (req_Durable (rt_Requires route) \<longrightarrow>
           (\<exists>t. route_stage route r t \<and> cap_Durable (tr_Capabilities t)))
      \<and> (req_ExecutionSettlement (rt_Requires route) \<longrightarrow>
           (\<exists>t. route_stage route r t \<and> cap_ExecutionSettlement (tr_Capabilities t)))"
    unfolding names stage
  proof (cases "route_stages r ?names False False")
    case (Inl e)
    with route_stages_error [OF Inl]
    show "ValidateRoute r route = Inr () \<longleftrightarrow> (\<forall>n \<in> set ?names. n \<noteq> [] \<longrightarrow> r n \<noteq> None)
      \<and> (req_Durable (rt_Requires route) \<longrightarrow> (\<exists>n \<in> set ?names. \<exists>t. n \<noteq> [] \<and> r n = Some t
            \<and> cap_Durable (tr_Capabilities t)))
      \<and> (req_ExecutionSettlement (rt_Requires route) \<longrightarrow> (\<exists>n \<in> set ?names. \<exists>t. n \<noteq> []
            \<and> r n = Some t \<and> cap_ExecutionSettlement (tr_Capabilities t)))"
      by (auto simp only: ValidateRoute_def sum.case)
  next
    case (Inr p)
    obtain d x where p: "p = (d, x)" by fastforce
    note ok = Inr [unfolded p route_stages_ok]
    have "ValidateRoute r route = Inr () \<longleftrightarrow>
        \<not> (req_Durable (rt_Requires route) \<and> \<not> d) \<and> \<not> (req_ExecutionSettlement (rt_Requires route) \<and> \<not> x)"
      unfolding ValidateRoute_def Inr p sum.case prod.case guard_ok by simp
    with ok show "ValidateRoute r route = Inr () \<longleftrightarrow> (\<forall>n \<in> set ?names. n \<noteq> [] \<longrightarrow> r n \<noteq> None)
      \<and> (req_Durable (rt_Requires route) \<longrightarrow> (\<exists>n \<in> set ?names. \<exists>t. n \<noteq> [] \<and> r n = Some t
            \<and> cap_Durable (tr_Capabilities t)))
      \<and> (req_ExecutionSettlement (rt_Requires route) \<longrightarrow> (\<exists>n \<in> set ?names. \<exists>t. n \<noteq> []
            \<and> r n = Some t \<and> cap_ExecutionSettlement (tr_Capabilities t)))"
      by blast
  qed
qed (simp add: ValidateRoute_def del: route_stages.simps cong del: sum.case_cong_weak if_weak_cong)

text \<open>
  Names lists exactly the registered names, sorted and without repetition, whatever order the
  map is ranged over in.
\<close>

lemma Names_sorted:
  assumes "distinct order" and "set order = dom r" and "finite (dom r)"
  shows "Registry_Names order = sorted_list_of_set (dom r)"
  using assms by (metis Registry_Names_def sorted_list_of_set_sort_remdups distinct_remdups_id)

text \<open>
  Closing the registry closes every transport and reports an error exactly when one of them
  did, whatever order the map is ranged over in.
\<close>

lemma Registry_Close_reports:
  assumes "set order = dom r"
  shows "is_ok (Registry_Close order r) \<longleftrightarrow> (\<forall>t \<in> ran r. is_ok (tr_Close t))"
proof -
  have "is_ok (close_all ts first) \<longleftrightarrow> first = None \<and> (\<forall>t \<in> set ts. is_ok (tr_Close t))" for ts first
    by (induction ts arbitrary: first) (auto simp: is_ok_def split: sum.splits option.splits)
  moreover have "set (List.map_filter r order) = ran r"
    using assms by (auto simp: List.map_filter_def ran_def dom_def image_iff) force
  ultimately show ?thesis by (simp add: Registry_Close_def)
qed

section \<open>Concrete registries\<close>

definition sample_registry :: Registry where
  "sample_registry =
     [''rest'' \<mapsto> \<lparr>tr_Name = ''rest'', tr_Capabilities = TCP_Capabilities, tr_Close = Inr ()\<rparr>,
      ''nats'' \<mapsto> \<lparr>tr_Name = ''nats'', tr_Capabilities = NATS_Capabilities True, tr_Close = Inr ()\<rparr>]"

theorem Register_Get_witness:
  "Registry_Get (fold (\<lambda>x r. snd (Registry_Register x r))
       [Some \<lparr>tr_Name = ''m'', tr_Capabilities = TCP_Capabilities, tr_Close = Inr ()\<rparr>, None]
       (sample_registry(''m'' \<mapsto>
          \<lparr>tr_Name = ''m'', tr_Capabilities = Memory_Capabilities, tr_Close = Inr ()\<rparr>))) ''m''
     = Inr \<lparr>tr_Name = ''m'', tr_Capabilities = Memory_Capabilities, tr_Close = Inr ()\<rparr>"
proof -
  have "Registry_Register
      (Some \<lparr>tr_Name = ''m'', tr_Capabilities = Memory_Capabilities, tr_Close = Inr ()\<rparr>) sample_registry =
      (Inr (), sample_registry(''m'' \<mapsto>
          \<lparr>tr_Name = ''m'', tr_Capabilities = Memory_Capabilities, tr_Close = Inr ()\<rparr>))"
    by (simp add: Registry_Register_def sample_registry_def)
  from Register_Get [OF this] show ?thesis by (simp only: Transport.select_convs)
qed

theorem ValidateRoute_ok_iff_witness:
  "ValidateRoute sample_registry
     \<lparr>rt_Ingress = ''rest'', rt_Backbone = ''nats'', rt_Egress = [],
      rt_Requires = no_requirement\<lparr>req_Durable := True, req_ConsumerGroups := True\<rparr>\<rparr> = Inr ()"
proof -
  let ?r = "\<lparr>rt_Ingress = ''rest'', rt_Backbone = ''nats'', rt_Egress = [],
      rt_Requires = no_requirement\<lparr>req_Durable := True, req_ConsumerGroups := True\<rparr>\<rparr>"
  have "route_stage ?r sample_registry
      \<lparr>tr_Name = ''nats'', tr_Capabilities = NATS_Capabilities True, tr_Close = Inr ()\<rparr>"
    by (simp add: route_stage_def sample_registry_def)
  moreover have "cap_Durable (NATS_Capabilities True)" by code_simp
  ultimately have "\<exists>t. route_stage ?r sample_registry t \<and> cap_Durable (tr_Capabilities t)"
    by force
  then show ?thesis
    using ValidateRoute_ok_iff [of sample_registry ?r]
    by (simp add: sample_registry_def no_requirement_def)
qed

end
