(* ===== verification/UbiQ_Brokers.thy ===== *)
theory UbiQ_Brokers
  imports UbiQ_Transport
begin

text \<open>
  The bindings to message brokers (\<^verbatim>\<open>src/runtime/go/ubiq/transports_broker.go\<close>): the subjects,
  topics and consumer names they derive from an event, what they hand to the broker on Publish,
  and what they do with each message of a subscription: decode it, run the handler, and
  acknowledge it or not. The broker clients are arguments; an acknowledgement is the returned
  decision.
\<close>

section \<open>Names on the brokers\<close>

definition strings_TrimSuffix :: "string \<Rightarrow> string \<Rightarrow> string" where
  "strings_TrimSuffix s suf =
     (if length suf \<le> length s \<and> drop (length s - length suf) s = suf
      then take (length s - length suf) s else s)"

definition canonicalSubject :: "string \<Rightarrow> string \<Rightarrow> string" where
  "canonicalSubject prefix event =
     (if prefix = [] then event else strings_TrimSuffix prefix ''.'' @ ''.'' @ event)"

text \<open>\<^verbatim>\<open>strings.NewReplacer\<close> with one-byte patterns replaces byte by byte.\<close>

definition sanitize_char :: "char \<Rightarrow> string" where
  "sanitize_char c =
     (if c = CHR ''.'' then ''-'' else if c = CHR ''*'' then ''all''
      else if c = CHR ''>'' then ''all'' else if c = CHR ''_'' then ''-'' else [c])"

definition sanitizeName :: "string \<Rightarrow> string" where
  "sanitizeName s = concat (map sanitize_char s)"

definition dots_to_slashes :: "string \<Rightarrow> string" where
  "dots_to_slashes s = map (\<lambda>c. if c = CHR ''.'' then CHR ''/'' else c) s"

definition MQTT_publish_topic :: "string \<Rightarrow> string \<Rightarrow> string" where
  "MQTT_publish_topic prefix event = dots_to_slashes (canonicalSubject prefix event)"

definition MQTT_subscribe_topic :: "string \<Rightarrow> string \<Rightarrow> string" where
  "MQTT_subscribe_topic prefix event =
     (if event = ''*'' then strings_TrimSuffix (dots_to_slashes prefix) ''/'' @ ''/#''
      else dots_to_slashes (canonicalSubject prefix event))"


section \<open>Publishing\<close>

text \<open>
  A call of a broker client acts on the broker's state and returns an error or nothing.
\<close>

type_synonym 'b broker_send = "string \<Rightarrow> bytes \<Rightarrow> 'b \<Rightarrow> unit result \<times> 'b"

record NATSConfig =
  nats_Name :: string
  nats_URL :: string
  nats_Prefix :: string
  nats_JetStream :: bool
  nats_Stream :: string
  nats_DurablePrefix :: string

definition NATS_Publish ::
  "'b broker_send \<Rightarrow> 'b broker_send \<Rightarrow> ('b \<Rightarrow> unit result \<times> 'b) \<Rightarrow> NATSConfig \<Rightarrow> Envelope \<Rightarrow> 'b \<Rightarrow>
     unit result \<times> 'b" where
  "NATS_Publish js_publish nc_publish flush cfg env b =
     (case encodeEnvelope env of Inl e \<Rightarrow> (Inl e, b) | Inr raw \<Rightarrow>
      let subject = canonicalSubject (nats_Prefix cfg) (env_Event env) in
      if nats_JetStream cfg then js_publish subject raw b
      else case nc_publish subject raw b of
        (Inl e, b1) \<Rightarrow> (Inl e, b1)
      | (Inr _, b1) \<Rightarrow> flush b1)"

definition NATS_durable_name :: "NATSConfig \<Rightarrow> string \<Rightarrow> string option" where
  "NATS_durable_name cfg event =
     (if nats_JetStream cfg \<and> nats_DurablePrefix cfg \<noteq> []
      then Some (nats_DurablePrefix cfg @ ''-'' @ sanitizeName event) else None)"

text \<open>Kafka: the message has the event as key and as header, the envelope as value.\<close>

record kafka_message =
  km_Key :: bytes
  km_Value :: bytes
  km_Headers :: "(string \<times> bytes) list"

definition Kafka_Publish ::
  "(kafka_message \<Rightarrow> 'b \<Rightarrow> unit result \<times> 'b) \<Rightarrow> Envelope \<Rightarrow> 'b \<Rightarrow> unit result \<times> 'b" where
  "Kafka_Publish writeMessages env b =
     (case encodeEnvelope env of Inl e \<Rightarrow> (Inl e, b) | Inr raw \<Rightarrow>
      writeMessages \<lparr>km_Key = env_Event env, km_Value = raw,
                     km_Headers = [(''ubiq-event'', env_Event env)]\<rparr> b)"

definition Kafka_group :: "string \<Rightarrow> string \<Rightarrow> string" where
  "Kafka_group cfgGroup event = (if cfgGroup = [] then ''ubiq-'' @ sanitizeName event else cfgGroup)"

record amqp_publishing =
  ap_ContentType :: string
  ap_Persistent :: bool
  ap_MessageId :: string
  ap_CorrelationId :: string
  ap_Body :: bytes

definition Rabbit_Publish ::
  "(string \<Rightarrow> string \<Rightarrow> amqp_publishing \<Rightarrow> 'b \<Rightarrow> unit result \<times> 'b) \<Rightarrow> string \<Rightarrow> Envelope \<Rightarrow> 'b \<Rightarrow>
     unit result \<times> 'b" where
  "Rabbit_Publish publish exchange env b =
     (case encodeEnvelope env of Inl e \<Rightarrow> (Inl e, b) | Inr raw \<Rightarrow>
      publish exchange (env_Event env)
        \<lparr>ap_ContentType = ''application/json'', ap_Persistent = True, ap_MessageId = env_ID env,
         ap_CorrelationId = env_CorrelationID env, ap_Body = raw\<rparr> b)"

definition Rabbit_queue_name :: "string \<Rightarrow> string \<Rightarrow> string" where
  "Rabbit_queue_name queuePrefix event =
     (if queuePrefix \<noteq> [] then queuePrefix @ ''-'' @ sanitizeName event else queuePrefix)"

definition Rabbit_binding_key :: "string \<Rightarrow> string" where
  "Rabbit_binding_key event = (if event = ''*'' then ''#'' else event)"

definition RedisStreams_Publish ::
  "(string \<Rightarrow> (string \<rightharpoonup> string) \<Rightarrow> 'b \<Rightarrow> unit result \<times> 'b) \<Rightarrow> string \<Rightarrow> Envelope \<Rightarrow> 'b \<Rightarrow>
     unit result \<times> 'b" where
  "RedisStreams_Publish xadd stream env b =
     (case encodeEnvelope env of Inl e \<Rightarrow> (Inl e, b) | Inr raw \<Rightarrow>
      xadd stream [''event'' \<mapsto> env_Event env, ''envelope'' \<mapsto> raw] b)"

definition MQTT_Publish :: "'b broker_send \<Rightarrow> string \<Rightarrow> Envelope \<Rightarrow> 'b \<Rightarrow> unit result \<times> 'b" where
  "MQTT_Publish publish prefix env b =
     (case encodeEnvelope env of Inl e \<Rightarrow> (Inl e, b) | Inr raw \<Rightarrow>
      publish (MQTT_publish_topic prefix (env_Event env)) raw b)"

section \<open>Consuming\<close>

text \<open>A handler acts on the application's state.\<close>

type_synonym 'w handler = "Envelope \<Rightarrow> 'w \<Rightarrow> unit result \<times> 'w"

datatype ack = Ack | NoAck | Reject | Requeue

definition NATS_on_message :: "bool \<Rightarrow> 'w handler \<Rightarrow> bytes \<Rightarrow> 'w \<Rightarrow> ack \<times> 'w" where
  "NATS_on_message jetStream h data w =
     (case decodeEnvelope data of
        Inl _ \<Rightarrow> (NoAck, w)
      | Inr env \<Rightarrow> (case h env w of (r, w1) \<Rightarrow> (if is_ok r \<and> jetStream then Ack else NoAck, w1)))"

definition Kafka_on_message :: "string \<Rightarrow> 'w handler \<Rightarrow> bytes \<Rightarrow> 'w \<Rightarrow> ack \<times> 'w" where
  "Kafka_on_message event h data w =
     (case decodeEnvelope data of
        Inl _ \<Rightarrow> (NoAck, w)
      | Inr env \<Rightarrow>
          if event \<noteq> ''*'' \<and> env_Event env \<noteq> event then (Ack, w)
          else (case h env w of (r, w1) \<Rightarrow> (if is_ok r then Ack else NoAck, w1)))"

definition Rabbit_on_message :: "'w handler \<Rightarrow> bytes \<Rightarrow> 'w \<Rightarrow> ack \<times> 'w" where
  "Rabbit_on_message h data w =
     (case decodeEnvelope data of
        Inl _ \<Rightarrow> (Reject, w)
      | Inr env \<Rightarrow> (case h env w of (r, w1) \<Rightarrow> (if is_ok r then Ack else Requeue, w1)))"

definition RedisStreams_on_message ::
  "string \<Rightarrow> 'w handler \<Rightarrow> (string \<rightharpoonup> string) \<Rightarrow> 'w \<Rightarrow> ack \<times> 'w" where
  "RedisStreams_on_message event h values w =
     (case values ''envelope'' of
        None \<Rightarrow> (NoAck, w)
      | Some raw \<Rightarrow>
          (case decodeEnvelope raw of
             Inl _ \<Rightarrow> (NoAck, w)
           | Inr env \<Rightarrow>
               if event \<noteq> ''*'' \<and> env_Event env \<noteq> event then (Ack, w)
               else (case h env w of (r, w1) \<Rightarrow> (if is_ok r then Ack else NoAck, w1))))"

definition MQTT_on_message :: "'w handler \<Rightarrow> bytes \<Rightarrow> 'w \<Rightarrow> 'w" where
  "MQTT_on_message h data w =
     (case decodeEnvelope data of Inl _ \<Rightarrow> w | Inr env \<Rightarrow> snd (h env w))"

text \<open>
  The consumer loops: the messages the broker delivers, in order, each with its decision. The
  loop of Kafka commits the offset of a message it acknowledges.
\<close>

fun consume :: "('m \<Rightarrow> 'w \<Rightarrow> ack \<times> 'w) \<Rightarrow> 'm list \<Rightarrow> 'w \<Rightarrow> ack list \<times> 'w" where
  "consume f [] w = ([], w)"
| "consume f (m # ms) w =
     (case f m w of (a, w1) \<Rightarrow> case consume f ms w1 of (as, w2) \<Rightarrow> (a # as, w2))"

definition Kafka_commits :: "(nat \<times> bytes) list \<Rightarrow> ack list \<Rightarrow> nat list" where
  "Kafka_commits ms as = [fst m. (m, a) \<leftarrow> zip ms as, a = Ack]"

section \<open>At-least-once processing\<close>

lemma consume_Cons:
  "fst (consume f (m # ms) w) = fst (f m w) # fst (consume f ms (snd (f m w)))"
  "snd (consume f (m # ms) w) = snd (consume f ms (snd (f m w)))"
  by (simp_all split: prod.split)

text \<open>
  The contract of a consumer that settles a message only after its handler: \<open>content\<close> is the
  envelope of a message, if it has a valid one, and \<open>wants\<close> says whether the subscription is for
  it. A wanted message is handled once and acknowledged exactly when the handler returned no
  error; any other message leaves the application alone.
\<close>

locale settling_consumer =
  fixes on_message :: "'w handler \<Rightarrow> 'm \<Rightarrow> 'w \<Rightarrow> ack \<times> 'w"
    and content :: "'m \<Rightarrow> Envelope option"
    and wants :: "Envelope \<Rightarrow> bool"
  assumes handled: "content m = Some env \<Longrightarrow> wants env \<Longrightarrow>
      snd (on_message h m w) = snd (h env w) \<and> (fst (on_message h m w) = Ack \<longleftrightarrow> is_ok (fst (h env w)))"
    and skipped: "content m = Some env \<Longrightarrow> \<not> wants env \<Longrightarrow> on_message h m w = (Ack, w)"
    and poison: "content m = None \<Longrightarrow> snd (on_message h m w) = w \<and> fst (on_message h m w) \<noteq> Ack"
begin

lemma world_is_fold:
  "snd (consume (on_message h) ms w) =
     fold (\<lambda>env u. snd (h env u)) (filter wants (List.map_filter content ms)) w"
proof (induction ms arbitrary: w)
  case (Cons m ms)
  then show ?case
    using handled [of m _ h w] skipped [of m _ h w] poison [of m h w]
    by (cases "content m") (simp_all add: List.map_filter_simps consume_Cons del: consume.simps(2))
qed (simp add: List.map_filter_simps)

lemma ack_iff:
  "i < length ms \<Longrightarrow> fst (consume (on_message h) ms w) ! i = Ack \<longleftrightarrow>
     (\<exists>env. content (ms ! i) = Some env
        \<and> (wants env \<longrightarrow> is_ok (fst (h env (snd (consume (on_message h) (take i ms) w))))))"
proof (induction ms arbitrary: w i)
  case (Cons m ms)
  have "fst (on_message h m w) = Ack \<longleftrightarrow> (\<exists>env. content m = Some env \<and> (wants env \<longrightarrow> is_ok (fst (h env w))))"
  proof (cases "content m")
    case None
    then show ?thesis using poison by simp
  next
    case (Some env)
    then show ?thesis using handled [OF Some] skipped [OF Some] by (cases "wants env") simp_all
  qed
  then show ?case using Cons by (cases i) (simp_all add: consume_Cons del: consume.simps(2))
qed simp

end

definition decoded :: "bytes \<Rightarrow> Envelope option" where
  "decoded data = (case decodeEnvelope data of Inl _ \<Rightarrow> None | Inr env \<Rightarrow> Some env)"

definition subscribed :: "string \<Rightarrow> Envelope \<Rightarrow> bool" where
  "subscribed event env \<longleftrightarrow> event = ''*'' \<or> env_Event env = event"

lemmas on_message_defs = NATS_on_message_def Kafka_on_message_def Rabbit_on_message_def
  RedisStreams_on_message_def decoded_def subscribed_def

interpretation jetstream: settling_consumer "NATS_on_message True" decoded "\<lambda>_. True"
  by unfold_locales (auto simp: on_message_defs split: sum.splits prod.splits)

interpretation kafka: settling_consumer "Kafka_on_message event" decoded "subscribed event"
  by unfold_locales (auto simp: on_message_defs split: sum.splits prod.splits)

interpretation rabbit: settling_consumer Rabbit_on_message decoded "\<lambda>_. True"
  by unfold_locales (auto simp: on_message_defs split: sum.splits prod.splits)

interpretation redis: settling_consumer "RedisStreams_on_message event"
    "\<lambda>values. Option.bind (values ''envelope'') decoded" "subscribed event"
  by unfold_locales (case_tac "m ''envelope''"; auto simp: on_message_defs split: sum.splits prod.splits)+

text \<open>The application after its handler has run once on each of the envelopes, in order.\<close>

definition handler_runs :: "'w handler \<Rightarrow> Envelope list \<Rightarrow> 'w \<Rightarrow> 'w" where
  "handler_runs h envs w = fold (\<lambda>env u. snd (h env u)) envs w"

text \<open>
  C24: When brokers are told that a message is done. On JetStream and RabbitMQ the i-th message is
  acknowledged exactly if it decodes to a valid envelope and the handler, run on it after all the
  valid messages before it, returned no error. On Kafka and Redis Streams the handler runs only on
  the messages for the subscribed event; a valid message for another event is acknowledged without
  being handled, one for the subscribed event exactly if its handler returned no error, and a
  message without a valid envelope never. On all four the application at the end is that of the
  handler run once on each message meant for it, in order.
\<close>

theorem ack_only_after_success:
  assumes "i < length ms" and "j < length vs"
  shows "(fst (consume (NATS_on_message True h) ms w) ! i = Ack \<longleftrightarrow>
           (\<exists>env. decoded (ms ! i) = Some env
              \<and> is_ok (fst (h env (handler_runs h (List.map_filter decoded (take i ms)) w)))))
     \<and> (fst (consume (Rabbit_on_message h) ms w) ! i = Ack \<longleftrightarrow>
           (\<exists>env. decoded (ms ! i) = Some env
              \<and> is_ok (fst (h env (handler_runs h (List.map_filter decoded (take i ms)) w)))))
     \<and> (fst (consume (Kafka_on_message event h) ms w) ! i = Ack \<longleftrightarrow>
           (\<exists>env. decoded (ms ! i) = Some env
              \<and> (event = ''*'' \<or> env_Event env = event \<longrightarrow>
                 is_ok (fst (h env (handler_runs h (filter (subscribed event) (List.map_filter decoded (take i ms))) w))))))
     \<and> (fst (consume (RedisStreams_on_message event h) vs w) ! j = Ack \<longleftrightarrow>
           (\<exists>raw env. (vs ! j) ''envelope'' = Some raw \<and> decoded raw = Some env
              \<and> (event = ''*'' \<or> env_Event env = event \<longrightarrow>
                 is_ok (fst (h env (handler_runs h (filter (subscribed event)
                   (List.map_filter (\<lambda>v. Option.bind (v ''envelope'') decoded) (take j vs))) w))))))
     \<and> snd (consume (NATS_on_message True h) ms w) = handler_runs h (List.map_filter decoded ms) w
     \<and> snd (consume (Rabbit_on_message h) ms w) = handler_runs h (List.map_filter decoded ms) w
     \<and> snd (consume (Kafka_on_message event h) ms w) =
         handler_runs h (filter (subscribed event) (List.map_filter decoded ms)) w
     \<and> snd (consume (RedisStreams_on_message event h) vs w) =
         handler_runs h (filter (subscribed event) (List.map_filter (\<lambda>v. Option.bind (v ''envelope'') decoded) vs)) w"
  unfolding jetstream.ack_iff [OF assms(1)] rabbit.ack_iff [OF assms(1)] kafka.ack_iff [OF assms(1)]
    redis.ack_iff [OF assms(2)] jetstream.world_is_fold rabbit.world_is_fold kafka.world_is_fold
    redis.world_is_fold handler_runs_def
  by (auto simp: subscribed_def bind_eq_Some_conv)

text \<open>
  C37: Kafka commits are positions, not per-message acknowledgements, and the loop goes on after a
  handler error: when the handler fails on one message and succeeds on the next, the only offset
  committed is that of the second, which is past the failed message.
\<close>

theorem Kafka_commits_past_failure:
  assumes "decoded m1 = Some env1" and "decoded m2 = Some env2"
    and "subscribed event env1" and "subscribed event env2"
    and "\<not> is_ok (fst (h env1 w))" and "is_ok (fst (h env2 (snd (h env1 w))))"
  shows "Kafka_commits [(n, m1), (Suc n, m2)] (fst (consume (Kafka_on_message event h) [m1, m2] w))
     = [Suc n]"
  using assms kafka.handled [of m1 env1 event h w] kafka.handled [of m2 env2 event h "snd (h env1 w)"]
  by (simp add: Kafka_commits_def consume_Cons del: consume.simps(2))

section \<open>Names\<close>

lemma canonical_name_chars:
  assumes "canonical_name s" and "c \<in> set s"
  shows "is_name_char c \<or> c = CHR ''.''"
proof -
  have seg: "event_segment p \<Longrightarrow> c \<in> set p \<Longrightarrow> is_name_char c" for p
    by (auto simp: event_segment_def ident_like_def is_name_char_def list_all_iff split: list.splits)
  have "c \<in> set (join_with sep ps) \<Longrightarrow> c = sep \<or> (\<exists>p \<in> set ps. c \<in> set p)" for sep ps
    by (induction sep ps rule: join_with.induct) auto
  with assms seg show ?thesis
    unfolding canonical_name_join list_all_iff by (metis (no_types))
qed

lemma slash_not_name_char: "\<not> is_name_char CHR ''/''" "\<not> is_name_char CHR ''*''"
  by (simp_all add: is_alpha_def is_name_char_def is_digit_def less_eq_char_def)

lemma dots_to_slashes_inj:
  "CHR ''/'' \<notin> set s \<Longrightarrow> CHR ''/'' \<notin> set t \<Longrightarrow> dots_to_slashes s = dots_to_slashes t \<longleftrightarrow> s = t"
  by (induction s arbitrary: t; case_tac t) (auto simp: dots_to_slashes_def)

lemma canonical_name_first:
  assumes "canonical_name s"
  obtains c t where "s = c # t" and "is_alpha c" and "CHR ''.'' \<in> set s"
proof -
  obtain p q r ps where s: "s = join_with CHR ''.'' (p # q # r # ps)" and "event_segment p"
    using assms unfolding canonical_name_join by auto
  then show ?thesis using that by (cases p) (auto simp: event_segment_def ident_like_def)
qed

text \<open>
  Under one prefix the subject, and the MQTT topic, identify the canonical event, and a
  subscription to an event listens on the topic its publications go to.
\<close>

theorem subject_identifies_event:
  assumes "canonical_name e" and "canonical_name f"
  shows "(canonicalSubject prefix e = canonicalSubject prefix f \<longleftrightarrow> e = f)
     \<and> (MQTT_publish_topic prefix e = MQTT_publish_topic prefix f \<longleftrightarrow> e = f)
     \<and> MQTT_subscribe_topic prefix e = MQTT_publish_topic prefix e"
proof -
  have "CHR ''/'' \<notin> set e" "CHR ''/'' \<notin> set f" "e \<noteq> ''*''"
    using canonical_name_chars [OF assms(1)] canonical_name_chars [OF assms(2)] slash_not_name_char
    by fastforce+
  then show ?thesis
    by (auto simp: canonicalSubject_def MQTT_publish_topic_def MQTT_subscribe_topic_def
        dots_to_slashes_inj) (simp_all add: dots_to_slashes_def dots_to_slashes_inj [unfolded dots_to_slashes_def])
qed

text \<open>
  The wildcard subscription misses every event on NATS, under any prefix, and on MQTT when no
  prefix is set. A NATS star stands for a single token, so behind a literal prefix it matches
  nothing with a further dot; an MQTT filter that starts with a slash matches only topics that do.
  Canonical events have dots, and their topics start with a letter.
\<close>

theorem wildcard_misses_events:
  assumes nats_star: "\<And>p s. CHR ''*'' \<notin> set p \<Longrightarrow> CHR ''>'' \<notin> set p \<Longrightarrow> nats_matches (p @ ''*'') s \<Longrightarrow>
      \<exists>token. s = p @ token \<and> CHR ''.'' \<notin> set token"
    and mqtt_root: "\<And>f t. mqtt_matches (CHR ''/'' # f) t \<Longrightarrow> \<exists>u. t = CHR ''/'' # u"
    and "canonical_name e" and "CHR ''*'' \<notin> set prefix" and "CHR ''>'' \<notin> set prefix"
  shows "\<not> nats_matches (canonicalSubject prefix ''*'') (canonicalSubject prefix e)
     \<and> \<not> mqtt_matches (MQTT_subscribe_topic [] ''*'') (MQTT_publish_topic [] e)"
proof -
  obtain c t where e: "e = c # t" "is_alpha c" "CHR ''.'' \<in> set e"
    using canonical_name_first [OF assms(3)] .
  then have "c \<noteq> CHR ''/''" "c \<noteq> CHR ''.''"
    using slash_not_name_char(1) dot_not_name_char by (auto simp: is_name_char_def)
  moreover have "MQTT_subscribe_topic [] ''*'' = CHR ''/'' # ''#''"
    by (simp add: MQTT_subscribe_topic_def strings_TrimSuffix_def dots_to_slashes_def)
  moreover define p where "p = (if prefix = [] then [] else strings_TrimSuffix prefix ''.'' @ ''.'')"
  have "canonicalSubject prefix x = p @ x" for x by (simp add: canonicalSubject_def p_def)
  moreover have "CHR ''*'' \<notin> set p" "CHR ''>'' \<notin> set p"
    using assms(4,5) by (auto simp: p_def strings_TrimSuffix_def dest: in_set_takeD)
  ultimately show ?thesis
    using nats_star [of p "p @ e"] mqtt_root [of "''#''" "MQTT_publish_topic [] e"] e
    by (auto simp: canonicalSubject_def MQTT_publish_topic_def dots_to_slashes_def)
qed

text \<open>
  Consumer names do not identify the event: there are two different canonical events with the
  same JetStream durable name, the same RabbitMQ queue and the same Kafka group.
\<close>

theorem consumer_names_collide:
  "\<exists>e f. canonical_name e \<and> canonical_name f \<and> e \<noteq> f
     \<and> NATS_durable_name cfg e = NATS_durable_name cfg f
     \<and> Rabbit_queue_name queuePrefix e = Rabbit_queue_name queuePrefix f
     \<and> Kafka_group cfgGroup e = Kafka_group cfgGroup f"
proof -
  let ?e = "''A.b_c.ok''" and ?f = "''A.b-c.ok''"
  have "canonical_name ?e" "canonical_name ?f" by code_simp+
  moreover have "?e \<noteq> ?f" and "sanitizeName ?e = sanitizeName ?f" by code_simp+
  ultimately show ?thesis
    by (intro exI [of _ ?e] exI [of _ ?f])
      (simp add: NATS_durable_name_def Rabbit_queue_name_def Kafka_group_def)
qed

section \<open>Concrete messages\<close>

definition sample_raw :: bytes where
  "sample_raw = (case encodeEnvelope (sample_envelope ''e1'' ''k1'') of Inl _ \<Rightarrow> [] | Inr raw \<Rightarrow> raw)"

definition count_handler :: "nat handler" where
  "count_handler env n = (if n = 0 then Inl (LibError ''busy'') else Inr (), Suc n)"

lemma sample_raw_decoded: "decoded sample_raw = Some (sample_envelope ''e1'' ''k1'')"
  by code_simp

theorem ack_only_after_success_witness:
  "fst (consume (RedisStreams_on_message ''*'' count_handler) [[''envelope'' \<mapsto> sample_raw], [''envelope'' \<mapsto> sample_raw]] 0) ! 0 \<noteq> Ack
   \<and> fst (consume (RedisStreams_on_message ''*'' count_handler) [[''envelope'' \<mapsto> sample_raw], [''envelope'' \<mapsto> sample_raw]] 0) ! 1 = Ack
   \<and> snd (consume (Kafka_on_message ''*'' count_handler) [sample_raw, sample_raw] 5) = 7"
proof -
  have i: "0 < length [sample_raw, sample_raw]" by simp
  let ?vs = "[[''envelope'' \<mapsto> sample_raw], [''envelope'' \<mapsto> sample_raw]]"
  have j: "0 < length ?vs" "1 < length ?vs" by simp_all
  note runs = sample_raw_decoded List.map_filter_simps subscribed_def count_handler_def handler_runs_def is_ok_def
  have "snd (consume (Kafka_on_message ''*'' count_handler) [sample_raw, sample_raw] 5) = 7"
    using ack_only_after_success [OF i j(1), where event = "''*''" and h = count_handler and w = 5]
    by (simp add: runs del: consume.simps)
  moreover have "fst (consume (RedisStreams_on_message ''*'' count_handler) ?vs 0) ! 0 \<noteq> Ack"
    using ack_only_after_success [OF i j(1), where event = "''*''" and h = count_handler and w = 0]
    by (simp add: runs del: consume.simps)
  moreover have "fst (consume (RedisStreams_on_message ''*'' count_handler) ?vs 0) ! 1 = Ack"
    using ack_only_after_success [OF i j(2), where event = "''*''" and h = count_handler and w = 0]
    by (simp add: runs del: consume.simps)
  ultimately show ?thesis by blast
qed

theorem Kafka_commits_past_failure_witness:
  "Kafka_commits [(7, sample_raw), (8, sample_raw)]
     (fst (consume (Kafka_on_message ''*'' count_handler) [sample_raw, sample_raw] 0)) = [8]"
  using Kafka_commits_past_failure [OF sample_raw_decoded sample_raw_decoded,
      where event = "''*''" and h = count_handler and w = 0 and n = 7]
  by (simp add: subscribed_def count_handler_def)

theorem subject_identifies_event_witness:
  "MQTT_publish_topic ''q'' ''A.b.ok'' \<noteq> MQTT_publish_topic ''q'' ''A.c.ok''"
proof -
  have "canonical_name ''A.b.ok''" "canonical_name ''A.c.ok''" by code_simp+
  from subject_identifies_event [OF this] show ?thesis by simp
qed

theorem wildcard_misses_events_witness:
  "\<not> (\<lambda>f s. CHR ''.'' \<notin> set (drop (length f - 1) s) \<and> take (length f - 1) s = butlast f)
       (canonicalSubject ''ubiq'' ''*'') (canonicalSubject ''ubiq'' ''A.b.ok'')
   \<and> \<not> (\<lambda>f t. take 1 t = take 1 f) (MQTT_subscribe_topic [] ''*'') (MQTT_publish_topic [] ''A.b.ok'')"
proof (rule wildcard_misses_events)
  fix p s :: string
  assume "CHR ''.'' \<notin> set (drop (length (p @ ''*'') - 1) s) \<and>
      take (length (p @ ''*'') - 1) s = butlast (p @ ''*'')"
  then show "\<exists>token. s = p @ token \<and> CHR ''.'' \<notin> set token"
    by (intro exI [of _ "drop (length p) s"]) (simp, metis append_take_drop_id)
next
  fix f t :: string
  show "take 1 t = take 1 (CHR ''/'' # f) \<Longrightarrow> \<exists>u. t = CHR ''/'' # u" by (cases t) auto
next
  show "canonical_name ''A.b.ok''" by code_simp
qed simp_all

end
