(* ===== verification/UbiQ_Handlers.thy ===== *)
theory UbiQ_Handlers
  imports UbiQ_Brokers
begin

text \<open>
  The transports that call handlers in the same process: memory
  (\<^verbatim>\<open>src/runtime/go/ubiq/transports_broker.go\<close>), TCP (\<^verbatim>\<open>tcp.go\<close>), QUIC (\<^verbatim>\<open>quic.go\<close>) and gRPC
  (\<^verbatim>\<open>grpc.go\<close>): their tables of subscriptions, the dispatch of an envelope to the handlers, and
  the bytes they put on and take off a connection. The locale \<open>subscription_table\<close> is the contract
  both kinds of table keep.
\<close>

section \<open>Running handlers\<close>

text \<open>
  Two ways to run a list of handlers, some of which may be nil: up to the first error, as the
  memory and gRPC transports do, or all of them with the errors dropped, as TCP and QUIC do.
\<close>

fun run_until_error :: "'w handler option list \<Rightarrow> Envelope \<Rightarrow> 'w \<Rightarrow> unit result \<times> 'w" where
  "run_until_error [] env w = (Inr (), w)"
| "run_until_error (None # hs) env w = run_until_error hs env w"
| "run_until_error (Some h # hs) env w =
     (case h env w of (Inl e, w1) \<Rightarrow> (Inl e, w1) | (Inr _, w1) \<Rightarrow> run_until_error hs env w1)"

fun run_all :: "'w handler option list \<Rightarrow> Envelope \<Rightarrow> 'w \<Rightarrow> 'w" where
  "run_all [] env w = w"
| "run_all (None # hs) env w = run_all hs env w"
| "run_all (Some h # hs) env w = run_all hs env (snd (h env w))"

text \<open>\<^verbatim>\<open>sync.Once\<close> around the close function of a subscription.\<close>

definition funcSubscription_Close ::
  "('s \<Rightarrow> unit result \<times> 's) option \<Rightarrow> bool \<Rightarrow> 's \<Rightarrow> unit result \<times> bool \<times> 's" where
  "funcSubscription_Close close closed s =
     (if closed then (Inr (), True, s)
      else case close of
        None \<Rightarrow> (Inr (), True, s)
      | Some f \<Rightarrow> (case f s of (r, s1) \<Rightarrow> (r, True, s1)))"

section \<open>The memory transport\<close>

record 'w memorySub =
  msub_event :: string
  msub_handler :: "'w handler"

record 'w MemoryTransport =
  mem_name :: string
  mem_next :: "64 word"
  mem_subs :: "64 word \<rightharpoonup> 'w memorySub"

definition NewMemoryTransport :: "string \<Rightarrow> 'w MemoryTransport" where
  "NewMemoryTransport name = \<lparr>mem_name = name, mem_next = 0, mem_subs = Map.empty\<rparr>"

definition memory_matches :: "Envelope \<Rightarrow> 'w memorySub \<Rightarrow> bool" where
  "memory_matches env sub \<longleftrightarrow> msub_event sub = ''*'' \<or> msub_event sub = env_Event env"

definition Memory_Publish ::
  "64 word list \<Rightarrow> Envelope \<Rightarrow> 'w MemoryTransport \<Rightarrow> 'w \<Rightarrow> unit result \<times> 'w" where
  "Memory_Publish order env m w =
     (case Envelope_Validate env of
        Inl e \<Rightarrow> (Inl e, w)
      | Inr _ \<Rightarrow>
          run_until_error
            (map (\<lambda>sub. Some (msub_handler sub))
               (filter (memory_matches env) (List.map_filter (mem_subs m) order))) env w)"

definition memory_subscribe ::
  "string \<Rightarrow> 'w handler \<Rightarrow> 'w MemoryTransport \<Rightarrow> 64 word \<times> 'w MemoryTransport" where
  "memory_subscribe event h m =
     (mem_next m,
      m\<lparr>mem_next := mem_next m + 1,
        mem_subs := (mem_subs m)(mem_next m \<mapsto> \<lparr>msub_event = event, msub_handler = h\<rparr>)\<rparr>)"

definition Memory_Subscribe ::
  "string \<Rightarrow> 'w handler option \<Rightarrow> 'w MemoryTransport \<Rightarrow> 64 word result \<times> 'w MemoryTransport" where
  "Memory_Subscribe event h m =
     (case h of
        None \<Rightarrow> (Inl (errors_New ''handler required''), m)
      | Some f \<Rightarrow> (case memory_subscribe event f m of (i, m1) \<Rightarrow> (Inr i, m1)))"

definition memory_unsubscribe :: "64 word \<Rightarrow> 'w MemoryTransport \<Rightarrow> 'w MemoryTransport" where
  "memory_unsubscribe i m = m\<lparr>mem_subs := (mem_subs m)(i := None)\<rparr>"

definition Memory_Close :: "'w MemoryTransport \<Rightarrow> unit result \<times> 'w MemoryTransport" where
  "Memory_Close m = (Inr (), m\<lparr>mem_subs := Map.empty\<rparr>)"

section \<open>Handler tables\<close>

text \<open>
  TCP, QUIC and gRPC keep \<^verbatim>\<open>map[string][]Handler\<close>. A subscription is the index of its slot;
  closing it writes nil into the slot, so indices stay valid.
\<close>

type_synonym 'w handler_table = "string \<Rightarrow> 'w handler option list"

definition table_append :: "string \<Rightarrow> 'w handler option \<Rightarrow> 'w handler_table \<Rightarrow> nat \<times> 'w handler_table" where
  "table_append event h t =
     (let hs = t event @ [h] in (length hs - 1, t(event := hs)))"

definition table_clear :: "string \<Rightarrow> nat \<Rightarrow> 'w handler_table \<Rightarrow> 'w handler_table" where
  "table_clear event idx t =
     (if idx < length (t event) then t(event := (t event)[idx := None]) else t)"

definition dispatch_list :: "'w handler_table \<Rightarrow> Envelope \<Rightarrow> 'w handler option list" where
  "dispatch_list t env = t (env_Event env) @ t ''*''"

section \<open>The TCP transport\<close>

record 'w TCPTransport =
  tcp_Name :: string
  tcp_PeerAddr :: string
  tcp_MaxFrame :: nat
  tcp_listening :: bool
  tcp_handlers :: "'w handler_table"

text \<open>The result of listening is an argument; it is consulted only when an address is set.\<close>

definition NewTCPTransport ::
  "unit result \<Rightarrow> string \<Rightarrow> string \<Rightarrow> string \<Rightarrow> nat \<Rightarrow> 'w TCPTransport result" where
  "NewTCPTransport listen name peer listenAddr maxFrame =
     (if name = [] then Inl (errors_New ''tcp name required'')
      else
        let t = \<lparr>tcp_Name = name, tcp_PeerAddr = peer,
                 tcp_MaxFrame = (if maxFrame = 0 then 16 * 2 ^ 20 else maxFrame),
                 tcp_listening = False, tcp_handlers = (\<lambda>_. [])\<rparr>
        in if listenAddr \<noteq> []
           then (case listen of Inl e \<Rightarrow> Inl e | Inr _ \<Rightarrow> Inr (t\<lparr>tcp_listening := True\<rparr>))
           else Inr t)"

text \<open>\<^verbatim>\<open>binary.BigEndian\<close> on four bytes.\<close>

definition PutUint32 :: "nat \<Rightarrow> bytes" where
  "PutUint32 n = [char_of (n div 2 ^ 24 mod 256), char_of (n div 2 ^ 16 mod 256),
                  char_of (n div 2 ^ 8 mod 256), char_of (n mod 256)]"

definition Uint32 :: "bytes \<Rightarrow> nat" where
  "Uint32 bs = foldl (\<lambda>n c. n * 256 + of_char c) 0 bs"

text \<open>
  The network under a publication: dialling may fail, and a write may fail after some of its
  bytes went out. The result is what the caller sees and what the peer can read.
\<close>

record tcp_net =
  net_dial :: "go_error option"
  net_header :: "(nat \<times> go_error) option"
  net_body :: "(nat \<times> go_error) option"

definition TCP_Publish :: "tcp_net \<Rightarrow> Envelope \<Rightarrow> 'w TCPTransport \<Rightarrow> unit result \<times> bytes" where
  "TCP_Publish net env t =
     (if tcp_PeerAddr t = [] then (Inl (errors_New ''tcp peer address not configured''), [])
      else case encodeEnvelope env of Inl e \<Rightarrow> (Inl e, []) | Inr raw \<Rightarrow>
        if length raw mod 2 ^ 32 > tcp_MaxFrame t
        then (Inl (errors_New ''tcp frame too large''), [])
        else case net_dial net of Some e \<Rightarrow> (Inl e, []) | None \<Rightarrow>
          let header = PutUint32 (length raw mod 2 ^ 32) in
          case net_header net of Some (n, e) \<Rightarrow> (Inl e, take n header) | None \<Rightarrow>
          case net_body net of Some (n, e) \<Rightarrow> (Inl e, header @ take n raw) | None \<Rightarrow>
          (Inr (), header @ raw))"

definition TCP_Subscribe ::
  "string \<Rightarrow> 'w handler option \<Rightarrow> 'w TCPTransport \<Rightarrow> nat result \<times> 'w TCPTransport" where
  "TCP_Subscribe event h t =
     (if \<not> tcp_listening t then (Inl (errors_New ''tcp listener not configured''), t)
      else if h = None then (Inl (errors_New ''handler required''), t)
      else case table_append event h (tcp_handlers t) of
        (idx, hs) \<Rightarrow> (Inr idx, t\<lparr>tcp_handlers := hs\<rparr>))"

definition TCP_unsubscribe :: "string \<Rightarrow> nat \<Rightarrow> 'w TCPTransport \<Rightarrow> 'w TCPTransport" where
  "TCP_unsubscribe event idx t = t\<lparr>tcp_handlers := table_clear event idx (tcp_handlers t)\<rparr>"

definition TCP_dispatch :: "'w handler_table \<Rightarrow> Envelope \<Rightarrow> 'w \<Rightarrow> 'w" where
  "TCP_dispatch hs env w = run_all (dispatch_list hs env) env w"

text \<open>
  The loop of a connection over the bytes the peer sends before the stream ends: read a header,
  give up on a bad length or a short read, skip a frame that does not decode, dispatch the rest.
\<close>

function TCP_handleConn :: "nat \<Rightarrow> 'w handler_table \<Rightarrow> bytes \<Rightarrow> 'w \<Rightarrow> 'w" where
  "TCP_handleConn maxFrame hs stream w =
     (if length stream < 4 then w
      else
        let n = Uint32 (take 4 stream); rest = drop 4 stream in
        if n = 0 \<or> n > maxFrame then w
        else if length rest < n then w
        else case decodeEnvelope (take n rest) of
          Inl _ \<Rightarrow> TCP_handleConn maxFrame hs (drop n rest) w
        | Inr env \<Rightarrow> TCP_handleConn maxFrame hs (drop n rest) (TCP_dispatch hs env w))"
  by pat_completeness auto
termination
  by (relation "measure (\<lambda>(_, _, stream, _). length stream)") auto

declare TCP_handleConn.simps [simp del]

section \<open>The QUIC transport\<close>

record 'w QUICTransport =
  quic_Name :: string
  quic_PeerAddr :: string
  quic_listening :: bool
  quic_handlers :: "'w handler_table"

definition NewQUICTransport ::
  "unit result \<Rightarrow> string \<Rightarrow> string \<Rightarrow> string \<Rightarrow> bool \<Rightarrow> bool \<Rightarrow> 'w QUICTransport result" where
  "NewQUICTransport listen name peer listenAddr clientTLS serverTLS =
     (if name = [] then Inl (errors_New ''quic name required'')
      else if \<not> clientTLS \<and> peer \<noteq> [] then Inl (errors_New ''QUIC client TLS required'')
      else
        let q = \<lparr>quic_Name = name, quic_PeerAddr = peer, quic_listening = False,
                 quic_handlers = (\<lambda>_. [])\<rparr>
        in if listenAddr \<noteq> []
           then if \<not> serverTLS then Inl (errors_New ''QUIC server TLS required'')
                else (case listen of Inl e \<Rightarrow> Inl e | Inr _ \<Rightarrow> Inr (q\<lparr>quic_listening := True\<rparr>))
           else Inr q)"

text \<open>
  \<^verbatim>\<open>json.Encoder.Encode\<close> writes the JSON form and a newline; dialling, opening the stream, the
  write and closing the stream may fail.
\<close>

record quic_net =
  qnet_dial :: "go_error option"
  qnet_open :: "go_error option"
  qnet_write :: "(nat \<times> go_error) option"
  qnet_close :: "go_error option"

definition QUIC_Publish :: "quic_net \<Rightarrow> Envelope \<Rightarrow> 'w QUICTransport \<Rightarrow> unit result \<times> bytes" where
  "QUIC_Publish net env q =
     (if quic_PeerAddr q = [] then (Inl (errors_New ''QUIC peer address not configured''), [])
      else case Envelope_Validate env of Inl e \<Rightarrow> (Inl e, []) | Inr _ \<Rightarrow>
        case qnet_dial net of Some e \<Rightarrow> (Inl e, []) | None \<Rightarrow>
        case qnet_open net of Some e \<Rightarrow> (Inl e, []) | None \<Rightarrow>
        case marshal_Envelope env of Inl e \<Rightarrow> (Inl e, []) | Inr raw \<Rightarrow>
        case qnet_write net of Some (n, e) \<Rightarrow> (Inl e, take n (raw @ [CHR 0x0A])) | None \<Rightarrow>
        case qnet_close net of Some e \<Rightarrow> (Inl e, raw @ [CHR 0x0A]) | None \<Rightarrow>
        (Inr (), raw @ [CHR 0x0A]))"

definition QUIC_Subscribe ::
  "string \<Rightarrow> 'w handler option \<Rightarrow> 'w QUICTransport \<Rightarrow> nat result \<times> 'w QUICTransport" where
  "QUIC_Subscribe event h q =
     (if \<not> quic_listening q then (Inl (errors_New ''QUIC listener not configured''), q)
      else case table_append event h (quic_handlers q) of
        (idx, hs) \<Rightarrow> (Inr idx, q\<lparr>quic_handlers := hs\<rparr>))"

definition QUIC_unsubscribe :: "string \<Rightarrow> nat \<Rightarrow> 'w QUICTransport \<Rightarrow> 'w QUICTransport" where
  "QUIC_unsubscribe event idx q = q\<lparr>quic_handlers := table_clear event idx (quic_handlers q)\<rparr>"

definition QUIC_dispatch :: "'w handler_table \<Rightarrow> Envelope \<Rightarrow> 'w \<Rightarrow> 'w" where
  "QUIC_dispatch hs env w = run_all (dispatch_list hs env) env w"

text \<open>
  One stream: \<^verbatim>\<open>json.Decoder.Decode\<close> reads the first JSON value of the stream. For an object that
  is the shortest prefix that is a JSON text; any other first value does not decode into a valid
  envelope and is dropped like a syntax error.
\<close>

definition json_first_value :: "bytes \<Rightarrow> bytes option" where
  "json_first_value stream =
     map_option (\<lambda>k. take k stream) (find (\<lambda>k. json_Valid (take k stream)) [0..<Suc (length stream)])"

definition QUIC_handleStream :: "'w handler_table \<Rightarrow> bytes \<Rightarrow> 'w \<Rightarrow> 'w" where
  "QUIC_handleStream hs stream w =
     (case json_first_value stream of None \<Rightarrow> w | Some data \<Rightarrow>
      case unmarshal_Envelope data of Inl _ \<Rightarrow> w | Inr env \<Rightarrow>
      case Envelope_Validate env of Inl _ \<Rightarrow> w | Inr _ \<Rightarrow> QUIC_dispatch hs env w)"

section \<open>The gRPC transport\<close>

record 'w GRPCTransport =
  grpc_Name :: string
  grpc_connected :: bool
  grpc_handlers :: "'w handler_table"

definition GRPC_Publish ::
  "(Envelope \<Rightarrow> 'b \<Rightarrow> unit result \<times> 'b) \<Rightarrow> Envelope \<Rightarrow> 'w GRPCTransport \<Rightarrow> 'b \<Rightarrow> unit result \<times> 'b" where
  "GRPC_Publish invoke env t b =
     (if \<not> grpc_connected t then (Inl (errors_New ''grpc peer not configured''), b)
      else case Envelope_Validate env of Inl e \<Rightarrow> (Inl e, b) | Inr _ \<Rightarrow> invoke env b)"

definition GRPC_addLocal ::
  "string \<Rightarrow> 'w handler option \<Rightarrow> 'w GRPCTransport \<Rightarrow> nat \<times> 'w GRPCTransport" where
  "GRPC_addLocal event h t =
     (case table_append event h (grpc_handlers t) of (idx, hs) \<Rightarrow> (idx, t\<lparr>grpc_handlers := hs\<rparr>))"

definition GRPC_unsubscribe :: "string \<Rightarrow> nat \<Rightarrow> 'w GRPCTransport \<Rightarrow> 'w GRPCTransport" where
  "GRPC_unsubscribe event idx t = t\<lparr>grpc_handlers := table_clear event idx (grpc_handlers t)\<rparr>"

definition GRPC_dispatch :: "'w GRPCTransport \<Rightarrow> Envelope \<Rightarrow> 'w \<Rightarrow> unit result \<times> 'w" where
  "GRPC_dispatch t env w = run_until_error (dispatch_list (grpc_handlers t) env) env w"

text \<open>The unary method: decode with the JSON codec, validate, dispatch, acknowledge.\<close>

definition grpcPublishHandler ::
  "bytes \<Rightarrow> 'w GRPCTransport \<Rightarrow> 'w \<Rightarrow> bool result \<times> 'w" where
  "grpcPublishHandler data t w =
     (case unmarshal_Envelope data of Inl e \<Rightarrow> (Inl e, w) | Inr env \<Rightarrow>
      case Envelope_Validate env of Inl e \<Rightarrow> (Inl e, w) | Inr _ \<Rightarrow>
      case GRPC_dispatch t env w of (Inl e, w1) \<Rightarrow> (Inl e, w1) | (Inr _, w1) \<Rightarrow> (Inr True, w1))"

text \<open>
  The stream of a remote subscriber: a channel of 64 envelopes that the handler fills without
  blocking and the sender drains in order.
\<close>

definition grpc_channel_put :: "Envelope \<Rightarrow> Envelope list \<Rightarrow> unit result \<times> Envelope list" where
  "grpc_channel_put env ch =
     (if length ch < 64 then (Inr (), ch @ [env])
      else (Inl (errors_New ''grpc subscriber backpressure''), ch))"

fun grpc_channel_get :: "Envelope list \<Rightarrow> (Envelope \<times> Envelope list) option" where
  "grpc_channel_get [] = None"
| "grpc_channel_get (env # ch) = Some (env, ch)"

definition grpc_subscribe_event :: "string \<Rightarrow> string" where
  "grpc_subscribe_event event = (if event = [] then ''*'' else event)"

text \<open>The client's receive loop ends at the first handler error.\<close>

fun GRPC_receive :: "'w handler \<Rightarrow> Envelope list \<Rightarrow> 'w \<Rightarrow> 'w" where
  "GRPC_receive h [] w = w"
| "GRPC_receive h (env # envs) w =
     (case h env w of (Inl _, w1) \<Rightarrow> w1 | (Inr _, w1) \<Rightarrow> GRPC_receive h envs w1)"

section \<open>Subscriptions as a contract\<close>

text \<open>
  What a table of subscriptions promises: a new subscription gets an identifier that was never
  issued before and is entered under it; closing one removes that entry and no other.
\<close>

inductive sub_step ::
  "(string \<Rightarrow> 'w handler \<Rightarrow> 't \<Rightarrow> 'i \<times> 't) \<Rightarrow> ('i \<Rightarrow> 't \<Rightarrow> 't) \<Rightarrow> ('t \<Rightarrow> bool) \<Rightarrow> 'i set \<Rightarrow> 't \<Rightarrow> 't \<Rightarrow> bool"
  for subscribe close room kept where
  sub_open: "room t \<Longrightarrow> sub_step subscribe close room kept t (snd (subscribe event h t))"
| sub_close: "i \<notin> kept \<Longrightarrow> sub_step subscribe close room kept t (close i t)"

locale subscription_table =
  fixes subscribe :: "string \<Rightarrow> 'w handler \<Rightarrow> 't \<Rightarrow> 'i \<times> 't"
    and close :: "'i \<Rightarrow> 't \<Rightarrow> 't"
    and room :: "'t \<Rightarrow> bool"
    and inv :: "'t \<Rightarrow> bool"
    and issued :: "'t \<Rightarrow> 'i set"
    and entry :: "'t \<Rightarrow> 'i \<Rightarrow> (string \<times> 'w handler) option"
  assumes subscribe_new: "inv t \<Longrightarrow> room t \<Longrightarrow> subscribe event h t = (i, u) \<Longrightarrow>
      i \<notin> issued t \<and> issued u = insert i (issued t) \<and> entry u = (entry t)(i \<mapsto> (event, h))"
    and close_old: "inv t \<Longrightarrow> entry (close i t) = (entry t)(i := None) \<and> issued (close i t) = issued t"
    and entry_issued: "inv t \<Longrightarrow> entry t i \<noteq> None \<Longrightarrow> i \<in> issued t"
    and inv_subscribe: "inv t \<Longrightarrow> room t \<Longrightarrow> inv (snd (subscribe event h t))"
    and inv_close: "inv t \<Longrightarrow> inv (close i t)"
begin

lemma step_inv: "sub_step subscribe close room kept t u \<Longrightarrow> inv t \<Longrightarrow> inv u"
  by (induction rule: sub_step.induct) (auto simp: inv_subscribe inv_close)

lemma steps_inv: "rtranclp (sub_step subscribe close room kept) t u \<Longrightarrow> inv t \<Longrightarrow> inv u"
  by (induction rule: rtranclp_induct) (auto intro: step_inv)

lemma step_issued: "sub_step subscribe close room kept t u \<Longrightarrow> inv t \<Longrightarrow> issued t \<subseteq> issued u"
proof (induction rule: sub_step.induct)
  case (sub_open t event h)
  then show ?case using subscribe_new [of t event h] by (cases "subscribe event h t") auto
qed (auto simp: close_old)

text \<open>An open subscription that nobody closes stays open.\<close>

lemma open_stays:
  assumes "rtranclp (sub_step subscribe close room {i}) t u" and "inv t" and "entry t i = Some x"
  shows "entry u i = Some x"
  using assms
proof (induction rule: rtranclp_induct)
  case (step u v)
  have inv: "inv u" using steps_inv step by blast
  from step.hyps(2) step.IH [OF step.prems] inv show ?case
  proof (induction rule: sub_step.induct)
    case (sub_open t event h)
    then have "i \<in> issued t" using entry_issued by auto
    then show ?case using subscribe_new [of t event h] sub_open by (cases "subscribe event h t") auto
  next
    case (sub_close j t)
    then show ?case by (auto simp: close_old)
  qed
qed

text \<open>A closed subscription never comes back, whatever is opened or closed later.\<close>

lemma closed_stays:
  assumes "rtranclp (sub_step subscribe close room {}) t u" and "inv t"
    and "i \<in> issued t" and "entry t i = None"
  shows "entry u i = None \<and> i \<in> issued u"
  using assms
proof (induction rule: rtranclp_induct)
  case (step u v)
  have inv: "inv u" using steps_inv step by blast
  from step.hyps(2) step.IH [OF step.prems] inv show ?case
  proof (induction rule: sub_step.induct)
    case (sub_open t event h)
    then show ?case using subscribe_new [of t event h] by (cases "subscribe event h t") auto
  next
    case (sub_close j t)
    then show ?case by (auto simp: close_old)
  qed
qed simp

lemma lifecycle:
  assumes "inv t" and "room t" and "subscribe event h t = (i, t1)"
    and "rtranclp (sub_step subscribe close room {i}) t1 u"
    and "rtranclp (sub_step subscribe close room {}) (close i u) v"
  shows "entry t i = None" and "entry u i = Some (event, h)" and "entry v i = None" and "i \<in> issued v"
    and "j \<noteq> i \<Longrightarrow> entry (close i u) j = entry u j"
proof -
  note new = subscribe_new [OF assms(1-3)]
  have inv1: "inv t1" using inv_subscribe [OF assms(1,2), of event h] assms(3) by simp
  have invu: "inv u" using steps_inv [OF assms(4) inv1] .
  show "entry t i = None" using new entry_issued assms(1) by blast
  show u: "entry u i = Some (event, h)" using open_stays [OF assms(4) inv1] new by simp
  have "i \<in> issued u" using entry_issued [OF invu] u by simp
  then show "entry v i = None" and "i \<in> issued v"
    using closed_stays [OF assms(5) inv_close [OF invu]] close_old [OF invu] by simp_all
  show "j \<noteq> i \<Longrightarrow> entry (close i u) j = entry u j" using close_old [OF invu] by simp
qed

end

subsection \<open>Memory\<close>

text \<open>Identifiers are fresh until the 64-bit counter would wrap.\<close>

definition memory_inv :: "'w MemoryTransport \<Rightarrow> bool" where
  "memory_inv m \<longleftrightarrow> dom (mem_subs m) \<subseteq> {i. i < mem_next m}"

definition memory_room :: "'w MemoryTransport \<Rightarrow> bool" where
  "memory_room m \<longleftrightarrow> mem_next m \<noteq> - 1"

definition memory_entry :: "'w MemoryTransport \<Rightarrow> 64 word \<Rightarrow> (string \<times> 'w handler) option" where
  "memory_entry m i = map_option (\<lambda>s. (msub_event s, msub_handler s)) (mem_subs m i)"

lemma word_less_succ: "n \<noteq> - 1 \<Longrightarrow> i < n + 1 \<longleftrightarrow> i < n \<or> i = n" for i n :: "64 word"
proof -
  assume "n \<noteq> - 1"
  then have "uint n \<noteq> 2 ^ 64 - 1"
    by (simp add: word_uint_eq_iff unsigned_minus_1_eq_mask mask_eq_exp_minus_1)
  moreover have "uint n < 2 ^ 64" using uint_bounded [of n] by simp
  ultimately have "uint (n + 1) = uint n + 1"
    by (simp add: uint_word_ariths)
  then show ?thesis by (auto simp: word_less_def word_uint_eq_iff)
qed

interpretation memory: subscription_table memory_subscribe memory_unsubscribe memory_room memory_inv
    "\<lambda>m. {i. i < mem_next m}" memory_entry
proof unfold_locales
  fix t :: "'a MemoryTransport" and event h i u
  assume "memory_inv t" "memory_room t" "memory_subscribe event h t = (i, u)"
  then show "i \<notin> {i. i < mem_next t} \<and> {i. i < mem_next u} = insert i {i. i < mem_next t} \<and>
      memory_entry u = (memory_entry t)(i \<mapsto> (event, h))"
    by (auto simp: memory_subscribe_def memory_room_def memory_entry_def word_less_succ intro!: ext)
next
  fix t :: "'a MemoryTransport" and event h
  assume "memory_inv t" "memory_room t"
  then show "memory_inv (snd (memory_subscribe event h t))"
    by (auto simp: memory_subscribe_def memory_room_def memory_inv_def word_less_succ)
qed (auto simp: memory_unsubscribe_def memory_entry_def memory_inv_def fun_eq_iff split: if_splits)

subsection \<open>Slots\<close>

definition table_open ::
  "string \<Rightarrow> 'w handler \<Rightarrow> 'w handler_table \<Rightarrow> (string \<times> nat) \<times> 'w handler_table" where
  "table_open event h t = (case table_append event (Some h) t of (idx, u) \<Rightarrow> ((event, idx), u))"

definition table_entry :: "'w handler_table \<Rightarrow> string \<times> nat \<Rightarrow> (string \<times> 'w handler) option" where
  "table_entry t i =
     (if snd i < length (t (fst i)) then map_option (Pair (fst i)) (t (fst i) ! snd i) else None)"

interpretation slots: subscription_table table_open "\<lambda>i. table_clear (fst i) (snd i)"
    "\<lambda>_. True" "\<lambda>_. True" "\<lambda>t. {i. snd i < length (t (fst i))}" table_entry
proof unfold_locales
  fix t :: "'a handler_table" and event h i u
  assume "table_open event h t = (i, u)"
  then have u: "i = (event, length (t event))" "u = t(event := t event @ [Some h])"
    by (auto simp: table_open_def table_append_def)
  show "i \<notin> {i. snd i < length (t (fst i))} \<and>
      {i. snd i < length (u (fst i))} = insert i {i. snd i < length (t (fst i))} \<and>
      table_entry u = (table_entry t)(i \<mapsto> (event, h))"
    unfolding u
    by (intro conjI ext) (auto simp: table_entry_def nth_append split: if_splits)
next
  fix t :: "'a handler_table" and i
  show "table_entry (table_clear (fst i) (snd i) t) = (table_entry t)(i := None) \<and>
      {j. snd j < length (table_clear (fst i) (snd i) t (fst j))} = {i. snd i < length (t (fst i))}"
    by (auto simp: table_clear_def table_entry_def fun_eq_iff nth_list_update split: if_splits)
qed (auto simp: table_entry_def split: if_splits)

text \<open>
  The slot tables of TCP, QUIC and gRPC: a subscription keeps its slot while others open and
  close, closing it empties that slot only, and however the table is used afterwards the slot
  stays empty and is not handed to anyone else.
\<close>

theorem slot_lifecycle:
  assumes "table_append event (Some h) t = (idx, t1)"
    and "rtranclp (sub_step table_open (\<lambda>i. table_clear (fst i) (snd i)) (\<lambda>_. True) {(event, idx)}) t1 u"
    and "rtranclp (sub_step table_open (\<lambda>i. table_clear (fst i) (snd i)) (\<lambda>_. True) {})
           (table_clear event idx u) v"
  shows "idx < length (u event) \<and> u event ! idx = Some h
     \<and> idx < length (v event) \<and> v event ! idx = None
     \<and> (\<forall>i. i \<noteq> (event, idx) \<longrightarrow> table_entry (table_clear event idx u) i = table_entry u i)"
proof -
  have op: "table_open event h t = ((event, idx), t1)" using assms(1) by (simp add: table_open_def)
  note life = slots.lifecycle [OF TrueI TrueI op assms(2)]
  from life [of v] assms(3) show ?thesis
    by (auto simp: table_entry_def split: if_splits)
qed

text \<open>
  The memory transport: until its 64-bit counter is used up, a subscription stays under its
  identifier while others come and go, and once closed it is gone for good: the identifier is
  never given to another subscription.
\<close>

theorem memory_lifecycle:
  assumes "memory_inv m" and "memory_room m" and "Memory_Subscribe event (Some h) m = (Inr i, m1)"
    and "rtranclp (sub_step memory_subscribe memory_unsubscribe memory_room {i}) m1 u"
    and "rtranclp (sub_step memory_subscribe memory_unsubscribe memory_room {}) (memory_unsubscribe i u) v"
  shows "mem_subs m i = None
     \<and> mem_subs u i = Some \<lparr>msub_event = event, msub_handler = h\<rparr>
     \<and> mem_subs v i = None"
proof -
  have op: "memory_subscribe event h m = (i, m1)"
    using assms(3) by (auto simp: Memory_Subscribe_def split: prod.splits)
  note life = memory.lifecycle [OF assms(1,2) op assms(4,5)]
  from life(1-3) show ?thesis
    by (auto simp: memory_entry_def)
qed

section \<open>Dispatch\<close>

lemma run_all_append: "run_all (hs @ ks) env w = run_all ks env (run_all hs env w)"
  by (induction hs env w rule: run_all.induct) simp_all

lemma run_until_error_cases:
  "case run_until_error hs env w of
     (Inr _, w') \<Rightarrow> w' = run_all hs env w
   | (Inl e, w') \<Rightarrow> \<exists>pre h post. hs = pre @ Some h # post \<and> h env (run_all pre env w) = (Inl e, w')"
proof (induction hs env w rule: run_until_error.induct)
  case (2 hs env w)
  then show ?case
    by (auto split: prod.splits sum.splits) (metis append_Cons run_all.simps(2))
next
  case (3 h hs env w)
  show ?case
  proof (cases "h env w")
    case (Pair r w1)
    show ?thesis
    proof (cases r)
      case (Inl e)
      with Pair show ?thesis by (auto intro!: exI [of _ "[]"])
    next
      case (Inr u)
      with Pair 3 show ?thesis
        by (auto split: prod.splits sum.splits) (metis append_Cons run_all.simps(3) snd_conv)
    qed
  qed
qed simp

text \<open>
  Publishing on the memory transport, whatever order the subscriptions are visited in: it
  succeeds after running every matching handler once, in that order, or it returns the first
  handler error and runs nothing after it; an invalid envelope reaches no handler.
\<close>

theorem Memory_Publish_runs:
  assumes "distinct order" and "set order = dom (mem_subs m)"
  shows "let hs = map (\<lambda>s. Some (msub_handler s))
               (filter (memory_matches env) (List.map_filter (mem_subs m) order)) in
     length hs = card {i. \<exists>s. mem_subs m i = Some s \<and> memory_matches env s}
     \<and> (case Memory_Publish order env m w of
          (Inr _, w') \<Rightarrow> is_ok (Envelope_Validate env) \<and> w' = run_all hs env w
        | (Inl e, w') \<Rightarrow> Envelope_Validate env = Inl e \<and> w' = w
            \<or> (\<exists>pre h post. hs = pre @ Some h # post \<and> h env (run_all pre env w) = (Inl e, w')))"
proof -
  let ?hs = "map (\<lambda>s. Some (msub_handler s))
      (filter (memory_matches env) (List.map_filter (mem_subs m) order))"
  have "length (filter P (List.map_filter f xs)) = card {i \<in> set xs. \<exists>s. f i = Some s \<and> P s}"
    if "distinct xs" for f :: "64 word \<Rightarrow> 'a memorySub option" and P xs
    using that
  proof (induction xs)
    case (Cons x xs)
    have "{i \<in> set (x # xs). \<exists>s. f i = Some s \<and> P s} =
        (if \<exists>s. f x = Some s \<and> P s then insert x {i \<in> set xs. \<exists>s. f i = Some s \<and> P s}
         else {i \<in> set xs. \<exists>s. f i = Some s \<and> P s})" by auto
    with Cons show ?case by (auto simp: List.map_filter_simps split: option.splits)
  qed (simp add: List.map_filter_simps)
  moreover have "{i \<in> dom (mem_subs m). \<exists>s. mem_subs m i = Some s \<and> memory_matches env s} =
      {i. \<exists>s. mem_subs m i = Some s \<and> memory_matches env s}" by auto
  ultimately have "length ?hs = card {i. \<exists>s. mem_subs m i = Some s \<and> memory_matches env s}"
    using assms by simp
  then show ?thesis
    using run_until_error_cases [of ?hs env w]
    by (auto simp: Memory_Publish_def Let_def split: sum.splits prod.splits)
qed

section \<open>Frames\<close>

lemma length_PutUint32 [simp]: "length (PutUint32 n) = 4"
  by (simp add: PutUint32_def)

lemma Uint32_PutUint32: "n < 2 ^ 32 \<Longrightarrow> Uint32 (PutUint32 n) = n"
proof -
  assume n: "n < 2 ^ 32"
  have join: "n div (k * 256) * 256 + n div k mod 256 = n div k" for k
    by (simp add: div_mult2_eq)
  have "n div 2 ^ 24 < 256" using n by (simp add: less_mult_imp_div_less)
  then show ?thesis
    using join [of "2 ^ 16"] join [of "2 ^ 8"] join [of 1]
    by (simp add: Uint32_def PutUint32_def)
qed

lemma encodeEnvelope_nonempty: "encodeEnvelope env = Inr raw \<Longrightarrow> 0 < length raw"
  by (auto simp: encodeEnvelope_def marshal_Envelope_def json_object_def split: sum.splits)

definition tcp_frame :: "bytes \<Rightarrow> bytes" where
  "tcp_frame raw = PutUint32 (length raw) @ raw"

definition receive_frame :: "'w handler_table \<Rightarrow> bytes \<Rightarrow> 'w \<Rightarrow> 'w" where
  "receive_frame hs raw w = (case decodeEnvelope raw of Inl _ \<Rightarrow> w | Inr env \<Rightarrow> TCP_dispatch hs env w)"

lemma handleConn_frame:
  assumes "0 < length raw" and "length raw \<le> maxFrame" and "length raw < 2 ^ 32"
  shows "TCP_handleConn maxFrame hs (tcp_frame raw @ rest) w =
    TCP_handleConn maxFrame hs rest (receive_frame hs raw w)"
proof -
  have "Uint32 (take 4 (tcp_frame raw @ rest)) = length raw"
    using assms(3) by (simp add: tcp_frame_def Uint32_PutUint32)
  then show ?thesis
    using assms(1,2)
    by (subst TCP_handleConn.simps) (simp add: tcp_frame_def receive_frame_def Let_def split: sum.split)
qed

lemma handleConn_short:
  assumes "k < 4 + length raw" and "length raw < 2 ^ 32"
  shows "TCP_handleConn maxFrame hs (take k (tcp_frame raw)) w = w"
proof (cases "k < 4")
  case True
  then show ?thesis by (subst TCP_handleConn.simps) (simp add: tcp_frame_def)
next
  case False
  then have "take 4 (take k (tcp_frame raw)) = PutUint32 (length raw)"
    by (simp add: tcp_frame_def min_def)
  then have "Uint32 (take 4 (take k (tcp_frame raw))) = length raw"
    using assms(2) by (simp add: Uint32_PutUint32)
  with assms False show ?thesis
    by (subst TCP_handleConn.simps) (auto simp: tcp_frame_def Let_def)
qed

lemma handleConn_nil [simp]: "TCP_handleConn maxFrame hs [] w = w"
  by (subst TCP_handleConn.simps) simp

lemma TCP_Publish_wire:
  assumes "encodeEnvelope env = Inr raw" and "length raw < 2 ^ 32"
    and "TCP_Publish net env t = (res, wire)"
  shows "\<exists>k. wire = take k (tcp_frame raw)"
    and "res = Inr () \<Longrightarrow> wire = tcp_frame raw \<and> length raw \<le> tcp_MaxFrame t"
    and "tcp_MaxFrame t < length raw \<Longrightarrow> wire = []"
proof -
  let ?h = "PutUint32 (length raw)"
  have "wire = [] \<or> (\<exists>n. wire = take n ?h) \<or> (\<exists>n. wire = ?h @ take n raw) \<or> wire = ?h @ raw"
    using assms by (auto simp: TCP_Publish_def Let_def split: if_splits option.splits)
  then show "\<exists>k. wire = take k (tcp_frame raw)"
  proof (elim disjE exE)
    show ?thesis if "wire = []" using that by (intro exI [of _ 0]) simp
    show ?thesis if "wire = take n ?h" for n
      using that by (intro exI [of _ "min n 4"]) (simp add: tcp_frame_def min_def)
    show ?thesis if "wire = ?h @ take n raw" for n
      using that by (intro exI [of _ "4 + n"]) (simp add: tcp_frame_def)
    show ?thesis if "wire = ?h @ raw"
      using that by (intro exI [of _ "4 + length raw"]) (simp add: tcp_frame_def)
  qed
  show "res = Inr () \<Longrightarrow> wire = tcp_frame raw \<and> length raw \<le> tcp_MaxFrame t"
    "tcp_MaxFrame t < length raw \<Longrightarrow> wire = []"
    using assms by (auto simp: TCP_Publish_def tcp_frame_def Let_def split: if_splits option.splits)
qed

text \<open>
  C25: Over TCP a publication arrives whole or not at all. Whatever fails while it is written, the
  bytes that reach a listener make it dispatch the frame's envelope or do nothing; when the
  publication succeeded and the listener accepts frames of that size, it is dispatched. Frames
  that follow each other on one connection are dispatched in order.
\<close>

theorem TCP_whole_or_nothing:
  assumes "encodeEnvelope env = Inr raw" and "length raw < 2 ^ 32"
    and "TCP_Publish net env t = (res, wire)"
  shows "TCP_handleConn maxFrame hs wire w \<in> {w, receive_frame hs raw w}
     \<and> (res = Inr () \<and> tcp_MaxFrame t \<le> maxFrame \<longrightarrow>
          TCP_handleConn maxFrame hs wire w = receive_frame hs raw w
          \<and> TCP_handleConn maxFrame hs (wire @ rest) w =
              TCP_handleConn maxFrame hs rest (receive_frame hs raw w))"
proof -
  note pos = encodeEnvelope_nonempty [OF assms(1)]
  note wire = TCP_Publish_wire [OF assms]
  have whole: "TCP_handleConn maxFrame hs (tcp_frame raw) w = receive_frame hs raw w"
    if "length raw \<le> maxFrame"
    using handleConn_frame [OF pos that assms(2), of hs "[]" w] by simp
  have large: "TCP_handleConn maxFrame hs (tcp_frame raw) w = w" if "\<not> length raw \<le> maxFrame"
    using that assms(2) by (subst TCP_handleConn.simps) (simp add: tcp_frame_def Uint32_PutUint32 Let_def)
  obtain k where k: "wire = take k (tcp_frame raw)" using wire(1) by blast
  have "TCP_handleConn maxFrame hs wire w \<in> {w, receive_frame hs raw w}"
  proof (cases "k < 4 + length raw")
    case True
    then show ?thesis using handleConn_short [OF True assms(2), of maxFrame hs w] k by simp
  next
    case False
    then have "wire = tcp_frame raw" using k by (simp add: tcp_frame_def)
    then show ?thesis using whole large by (cases "length raw \<le> maxFrame") auto
  qed
  moreover have "TCP_handleConn maxFrame hs wire w = receive_frame hs raw w
      \<and> TCP_handleConn maxFrame hs (wire @ rest) w =
          TCP_handleConn maxFrame hs rest (receive_frame hs raw w)"
    if "res = Inr ()" "tcp_MaxFrame t \<le> maxFrame"
    using wire(2) that whole handleConn_frame [OF pos _ assms(2), of maxFrame hs rest w] by auto
  ultimately show ?thesis by blast
qed

section \<open>The channel of a gRPC subscriber\<close>

datatype channel_op = Put Envelope | Get

fun channel_run :: "channel_op list \<Rightarrow> Envelope list \<Rightarrow> Envelope list \<times> Envelope list \<times> Envelope list" where
  "channel_run [] ch = ([], [], ch)"
| "channel_run (Put env # ops) ch =
     (case grpc_channel_put env ch of (r, ch1) \<Rightarrow>
      case channel_run ops ch1 of (accepted, sent, ch2) \<Rightarrow>
        (if is_ok r then env # accepted else accepted, sent, ch2))"
| "channel_run (Get # ops) ch =
     (case grpc_channel_get ch of
        None \<Rightarrow> channel_run ops ch
      | Some (env, ch1) \<Rightarrow>
          (case channel_run ops ch1 of (accepted, sent, ch2) \<Rightarrow> (accepted, env # sent, ch2)))"

text \<open>
  A gRPC subscriber gets the accepted envelopes in order, without loss or repetition: in any
  interleaving of the publisher and the sender, what was sent followed by what is waiting is what
  was waiting followed by what was accepted, and at most 64 envelopes wait.
\<close>

theorem grpc_channel_fifo:
  assumes "length ch \<le> 64" and "channel_run ops ch = (accepted, sent, ch')"
  shows "sent @ ch' = ch @ accepted \<and> length ch' \<le> 64"
  using assms
proof (induction ops ch arbitrary: accepted sent ch' rule: channel_run.induct)
  case (2 env ops ch)
  obtain r ch1 where put: "grpc_channel_put env ch = (r, ch1)" by fastforce
  obtain a s c where run: "channel_run ops ch1 = (a, s, c)" by (metis prod_cases3)
  have "length ch1 \<le> 64" "ch1 = (if is_ok r then ch @ [env] else ch)"
    using put 2(2) by (auto simp: grpc_channel_put_def split: if_splits)
  moreover from this have "s @ c = ch1 @ a \<and> length c \<le> 64"
    using 2(1) [OF put [symmetric] _ run] by simp
  ultimately show ?case using 2(3) put run by auto
next
  case (3 ops ch)
  show ?case
  proof (cases ch)
    case Nil
    with 3 show ?thesis by simp
  next
    case (Cons env ch1)
    obtain a s c where run: "channel_run ops ch1 = (a, s, c)" by (metis prod_cases3)
    with 3(2) [of "(env, ch1)" env ch1 a s c] 3(3,4) Cons show ?thesis by auto
  qed
qed simp

section \<open>Concrete subscriptions and frames\<close>

definition ok_handler :: "nat handler" where
  "ok_handler env n = (Inr (), Suc n)"

theorem slot_lifecycle_witness:
  "let u = (\<lambda>_. [])(''A.b.ok'' := [Some ok_handler]) in
   u ''A.b.ok'' ! 0 = Some ok_handler \<and> table_clear ''A.b.ok'' 0 u ''A.b.ok'' ! 0 = None"
proof -
  have "table_append ''A.b.ok'' (Some ok_handler) (\<lambda>_. []) =
      (0, (\<lambda>_. [])(''A.b.ok'' := [Some ok_handler]))"
    by (simp add: table_append_def)
  from slot_lifecycle [OF this rtranclp.rtrancl_refl rtranclp.rtrancl_refl]
  show ?thesis by (simp add: Let_def)
qed

definition sample_memory :: "nat MemoryTransport" where
  "sample_memory = snd (Memory_Subscribe ''*'' (Some ok_handler) (NewMemoryTransport ''m''))"

theorem memory_lifecycle_witness:
  "mem_subs sample_memory 0 = Some \<lparr>msub_event = ''*'', msub_handler = ok_handler\<rparr>
   \<and> mem_subs (memory_unsubscribe 0 sample_memory) 0 = None"
proof -
  have "Memory_Subscribe ''*'' (Some ok_handler) (NewMemoryTransport ''m'') = (Inr 0, sample_memory)"
    by (simp add: sample_memory_def Memory_Subscribe_def memory_subscribe_def NewMemoryTransport_def)
  moreover have "memory_inv (NewMemoryTransport ''m'' :: nat MemoryTransport)"
    "memory_room (NewMemoryTransport ''m'' :: nat MemoryTransport)"
    by (simp_all add: memory_inv_def memory_room_def NewMemoryTransport_def)
  ultimately show ?thesis
    using memory_lifecycle [of "NewMemoryTransport ''m''" "''*''" ok_handler 0 sample_memory
        sample_memory "memory_unsubscribe 0 sample_memory"]
    by simp
qed

theorem Memory_Publish_runs_witness:
  "\<exists>w'. Memory_Publish [0] (sample_envelope ''e1'' ''k1'') sample_memory 3 = (Inr (), w') \<and> w' = 4"
proof -
  have subs: "mem_subs sample_memory = [0 \<mapsto> \<lparr>msub_event = ''*'', msub_handler = ok_handler\<rparr>]"
    by (simp add: sample_memory_def Memory_Subscribe_def memory_subscribe_def NewMemoryTransport_def)
  have "Envelope_Validate (sample_envelope ''e1'' ''k1'') = Inr ()" by code_simp
  then have ok: "fst (Memory_Publish [0] (sample_envelope ''e1'' ''k1'') sample_memory 3) = Inr ()"
    by (simp add: Memory_Publish_def subs List.map_filter_simps memory_matches_def ok_handler_def)
  have "distinct [0 :: 64 word]" "set [0] = dom (mem_subs sample_memory)" by (simp_all add: subs)
  from Memory_Publish_runs [OF this, of "sample_envelope ''e1'' ''k1''" 3] ok
  show ?thesis
    by (cases "Memory_Publish [0] (sample_envelope ''e1'' ''k1'') sample_memory 3")
      (simp add: subs List.map_filter_simps memory_matches_def ok_handler_def)
qed

definition sample_grpc :: "nat GRPCTransport" where
  "sample_grpc = \<lparr>grpc_Name = ''g'', grpc_connected = False,
     grpc_handlers = (\<lambda>e. if e = ''*'' then [None, Some ok_handler] else [])\<rparr>"

lemma sample_raw_decodes: "decodeEnvelope sample_raw = Inr (sample_envelope ''e1'' ''k1'')"
  using sample_raw_decoded by (simp add: decoded_def split: sum.splits)

definition sample_tcp :: "nat TCPTransport" where
  "sample_tcp = \<lparr>tcp_Name = ''t'', tcp_PeerAddr = ''peer'', tcp_MaxFrame = 4096,
     tcp_listening = False, tcp_handlers = (\<lambda>_. [])\<rparr>"

theorem TCP_whole_or_nothing_witness:
  "TCP_handleConn 4096 (\<lambda>e. if e = ''*'' then [Some ok_handler] else [])
     (snd (TCP_Publish \<lparr>net_dial = None, net_header = None, net_body = None\<rparr>
        (sample_envelope ''e1'' ''k1'') sample_tcp)) 0 = 1"
proof -
  let ?net = "\<lparr>net_dial = None, net_header = None, net_body = None\<rparr>"
  let ?hs = "\<lambda>e. if e = ''*'' then [Some ok_handler] else []"
  have enc: "encodeEnvelope (sample_envelope ''e1'' ''k1'') = Inr sample_raw"
    and len: "length sample_raw \<le> 4096"
    by code_simp+
  then have pub: "TCP_Publish ?net (sample_envelope ''e1'' ''k1'') sample_tcp = (Inr (), tcp_frame sample_raw)"
    by (simp add: TCP_Publish_def sample_tcp_def tcp_frame_def Let_def)
  have "TCP_handleConn 4096 ?hs (tcp_frame sample_raw) 0 = receive_frame ?hs sample_raw 0"
    using TCP_whole_or_nothing [OF enc _ pub, of 4096 ?hs 0] len by (simp add: sample_tcp_def)
  then show ?thesis
    unfolding pub snd_conv
    by (simp add: receive_frame_def sample_raw_decodes TCP_dispatch_def dispatch_list_def
        sample_envelope_def ok_handler_def)
qed

theorem grpc_channel_fifo_witness:
  "let e = sample_envelope ''e1'' ''k1''; f = sample_envelope ''e2'' ''k2'' in
   channel_run [Put e, Get, Put f] [] = ([e, f], [e], [f]) \<and> [e] @ [f] = [] @ [e, f]"
proof -
  let ?e = "sample_envelope ''e1'' ''k1''" and ?f = "sample_envelope ''e2'' ''k2''"
  have run: "channel_run [Put ?e, Get, Put ?f] [] = ([?e, ?f], [?e], [?f])"
    by (simp add: grpc_channel_put_def)
  with grpc_channel_fifo [OF _ run] show ?thesis by (simp add: Let_def)
qed

end
