(* ===== verification/UbiQ_Secure.thy ===== *)
theory UbiQ_Secure
  imports UbiQ_Crypto UbiQ_Handlers
begin

text \<open>
  The secure transport (\<^verbatim>\<open>src/runtime/go/ubiq/secure_transport.go\<close>): a wrapper that signs every
  published envelope with a proof of possession and lets a subscriber see only envelopes whose
  proof verifies, and the trust store that maps key ids to public bundles.
\<close>

section \<open>Trust store\<close>

type_synonym StaticTrustStore = "string \<rightharpoonup> PublicBundle"

definition NewStaticTrustStore :: StaticTrustStore where
  "NewStaticTrustStore = Map.empty"

definition TrustStore_Add :: "PublicBundle \<Rightarrow> StaticTrustStore \<Rightarrow> StaticTrustStore" where
  "TrustStore_Add p s = s(pb_KeyID p \<mapsto> p)"

definition TrustStore_Resolve :: "StaticTrustStore \<Rightarrow> string \<Rightarrow> PublicBundle option" where
  "TrustStore_Resolve s i = s i"

section \<open>The wrapper\<close>

text \<open>
  The wrapper holds the inner transport's name and its freshness window; the provider, whose
  replay cache changes, is passed along. The clock is an argument of every operation.
\<close>

record SecureTransport =
  st_inner_Name :: string
  st_trust :: StaticTrustStore
  st_freshness :: duration

definition WrapSecureTransport ::
  "string option \<Rightarrow> bool \<Rightarrow> StaticTrustStore option \<Rightarrow> duration \<Rightarrow> SecureTransport result" where
  "WrapSecureTransport inner providerSet trust freshness =
     (case (inner, providerSet, trust) of
        (Some name, True, Some s) \<Rightarrow>
          Inr \<lparr>st_inner_Name = name, st_trust = s,
               st_freshness = (if freshness \<le> 0 then 2 * Minute else freshness)\<rparr>
      | _ \<Rightarrow> Inl (errors_New ''inner transport, crypto provider and trust store are required''))"

definition Secure_target :: "SecureTransport \<Rightarrow> string" where
  "Secure_target s = ''ubiq://transport/'' @ st_inner_Name s"

definition Secure_Publish ::
  "crypto_lib \<Rightarrow> (Envelope \<Rightarrow> 'b \<Rightarrow> unit result \<times> 'b) \<Rightarrow> bytes result \<Rightarrow> instant \<Rightarrow> SecureTransport \<Rightarrow>
     CryptoProvider \<Rightarrow> Envelope \<Rightarrow> 'b \<Rightarrow> unit result \<times> 'b" where
  "Secure_Publish lib inner_Publish rand now s p env b =
     (let unsigned = env\<lparr>env_Security := None\<rparr> in
      case NewPoP lib rand p ''PUBLISH'' (Secure_target s) unsigned now of
        Inl e \<Rightarrow> (Inl e, b)
      | Inr pf \<Rightarrow>
          inner_Publish
            (env\<lparr>env_Security := Some \<lparr>ms_KeyID = pb_KeyID (Public lib p), ms_Proof = pf\<rparr>\<rparr>) b)"

text \<open>The handler that Subscribe hands to the inner transport; its state has the provider.\<close>

definition Secure_handler ::
  "crypto_lib \<Rightarrow> instant \<Rightarrow> SecureTransport \<Rightarrow> 'w handler \<Rightarrow> (CryptoProvider \<times> 'w) handler" where
  "Secure_handler lib now s h env pw =
     (case pw of (p, w) \<Rightarrow>
      case env_Security env of
        None \<Rightarrow> (Inl (errors_New ''unsigned UbiQ envelope''), (p, w))
      | Some sec \<Rightarrow>
          (case TrustStore_Resolve (st_trust s) (ms_KeyID sec) of
             None \<Rightarrow> (Inl (Errorf ''untrusted UbiQ holder %q'' [ms_KeyID sec]), (p, w))
           | Some peer \<Rightarrow>
               let unsigned = env\<lparr>env_Security := None\<rparr> in
               (case VerifyPoP lib peer (ms_Proof sec) ''PUBLISH'' (Secure_target s) unsigned now
                   (st_freshness s) p of
                  (Inl e, p1) \<Rightarrow> (Inl e, (p1, w))
                | (Inr _, p1) \<Rightarrow>
                    (case h unsigned w of (r, w1) \<Rightarrow> (r, (p1, w1))))))"

section \<open>Zero trust\<close>

definition admissible :: "crypto_lib \<Rightarrow> instant \<Rightarrow> SecureTransport \<Rightarrow> Envelope \<Rightarrow> bool" where
  "admissible lib now s env \<longleftrightarrow>
     (\<exists>sec peer. env_Security env = Some sec \<and> st_trust s (ms_KeyID sec) = Some peer
        \<and> pop_checks lib peer (ms_Proof sec) ''PUBLISH'' (Secure_target s)
            (env\<lparr>env_Security := None\<rparr>) now (st_freshness s))"

lemma Secure_handler_refuses:
  assumes "\<not> admissible lib now s env"
  shows "\<exists>e. Secure_handler lib now s h env (p, w) = (Inl e, (p, w))"
proof (cases "env_Security env")
  case (Some sec)
  show ?thesis
  proof (cases "st_trust s (ms_KeyID sec)")
    case (Some peer)
    with assms \<open>env_Security env = Some sec\<close>
    have "\<not> pop_checks lib peer (ms_Proof sec) ''PUBLISH'' (Secure_target s)
        (env\<lparr>env_Security := None\<rparr>) now (st_freshness s)"
      by (simp add: admissible_def)
    then obtain e where "VerifyPoP lib peer (ms_Proof sec) ''PUBLISH'' (Secure_target s)
        (env\<lparr>env_Security := None\<rparr>) now (st_freshness s) p = (Inl e, p)"
      using VerifyPoP_unchecked by blast
    with Some \<open>env_Security env = Some sec\<close> show ?thesis
      by (simp add: Secure_handler_def TrustStore_Resolve_def)
  qed (simp add: Secure_handler_def TrustStore_Resolve_def \<open>env_Security env = Some sec\<close>)
qed (simp add: Secure_handler_def)

text \<open>
  C9: Zero trust. A subscriber's handler sees an envelope only if it carries a proof by a holder
  in the trust store, made for publication on this very transport, fresh, on the digest of that
  envelope, with both signatures valid, and not seen before; the handler gets the envelope
  without the attachment. In every other case the application is not touched.
\<close>

theorem secure_subscriber_zero_trust:
  "(case Secure_handler lib now s h env (p, w) of (r, (p', w')) \<Rightarrow>
      w' = w \<and> \<not> is_ok r
      \<or> admissible lib now s env
        \<and> (\<exists>sec. env_Security env = Some sec
             \<and> replay_prune (pop_cutoff (st_freshness s) now) (cp_replay p) (pop_key (ms_Proof sec)) = None
             \<and> cp_replay p' (pop_key (ms_Proof sec)) = Some (pop_CreatedAtMS (ms_Proof sec)))
        \<and> (r, w') = h (env\<lparr>env_Security := None\<rparr>) w)"
proof (cases "admissible lib now s env")
  case False
  then show ?thesis using Secure_handler_refuses [OF False, of h p w] by auto
next
  case True
  then obtain sec peer where sec: "env_Security env = Some sec" "st_trust s (ms_KeyID sec) = Some peer"
    and checks: "pop_checks lib peer (ms_Proof sec) ''PUBLISH'' (Secure_target s)
        (env\<lparr>env_Security := None\<rparr>) now (st_freshness s)"
    by (auto simp: admissible_def)
  show ?thesis
    using sec True
    by (auto simp: Secure_handler_def TrustStore_Resolve_def VerifyPoP_checked [OF checks]
        replay_insert_def Let_def split: prod.splits if_splits)
qed

text \<open>
  C36: A redelivery is taken for a replay. When a subscriber gets an envelope it has to accept, its
  handler runs on it; and whether the handler succeeded or failed, the wrapper refuses the same
  envelope at every later time without calling the handler. So on RabbitMQ, which redelivers
  after a failure, a message whose handler failed once is put back on the queue at each attempt and
  the handler never sees it again.
\<close>

theorem secure_redelivery_refused:
  assumes "0 \<le> st_freshness s" and "st_freshness s \<le> 2 ^ 61"
    and "decodeEnvelope data = Inr env" and "env_Security env = Some sec"
    and "admissible lib now s env" and "cp_replay p (pop_key (ms_Proof sec)) = None"
    and "Rabbit_on_message (Secure_handler lib now s h) data (p, w) = (a, (p1, w1))"
    and "rtranclp (pop_call lib (st_freshness s) later) p1 p2"
  shows "w1 = snd (h (env\<lparr>env_Security := None\<rparr>) w)
     \<and> a = (if is_ok (fst (h (env\<lparr>env_Security := None\<rparr>) w)) then Ack else Requeue)
     \<and> (\<exists>e p3. Secure_handler lib later s h env (p2, w2) = (Inl e, (p3, w2))
          \<and> Rabbit_on_message (Secure_handler lib later s h) data (p2, w2) = (Requeue, (p3, w2)))"
proof -
  let ?u = "env\<lparr>env_Security := None\<rparr>"
  obtain peer where peer: "st_trust s (ms_KeyID sec) = Some peer"
    and checks: "pop_checks lib peer (ms_Proof sec) ''PUBLISH'' (Secure_target s) ?u now (st_freshness s)"
    using assms(4,5) by (auto simp: admissible_def)
  obtain p' where v: "VerifyPoP lib peer (ms_Proof sec) ''PUBLISH'' (Secure_target s) ?u now (st_freshness s) p = (Inr (), p')"
    using assms(6) by (simp add: VerifyPoP_checked [OF checks] replay_insert_def replay_prune_def Let_def)
  have run: "Secure_handler lib now s h env (p, w) = (fst (h ?u w), (p', snd (h ?u w)))"
    using assms(4) peer v by (simp add: Secure_handler_def TrustStore_Resolve_def split: prod.split)
  then have first: "p1 = p'" "w1 = snd (h ?u w)" "a = (if is_ok (fst (h ?u w)) then Ack else Requeue)"
    using assms(3,7) by (auto simp: Rabbit_on_message_def)
  obtain e where "fst (VerifyPoP lib peer (ms_Proof sec) ''PUBLISH'' (Secure_target s) ?u later (st_freshness s) p2) = Inl e"
    using pop_refuses_replay [OF assms(1,2) v] assms(8) first(1) by blast
  then have "\<exists>p3. Secure_handler lib later s h env (p2, w2) = (Inl e, (p3, w2))"
    using assms(4) peer by (auto simp: Secure_handler_def TrustStore_Resolve_def Let_def split: prod.splits)
  then show ?thesis using assms(3) first(2,3) by (auto simp: Rabbit_on_message_def)
qed

definition sample_signed :: Envelope where
  "sample_signed = (sample_envelope ''e1'' ''k1'')
     \<lparr>env_Security := Some \<lparr>ms_KeyID = ''alice'', ms_Proof =
        \<lparr>pop_Holder = ''alice'', pop_CreatedAtMS = 0, pop_Nonce = ''6e'', pop_Method = ''PUBLISH'',
         pop_Target = ''ubiq://transport/m'', pop_EnvelopeHash = ''7b226964'',
         pop_Signature = \<lparr>sig_Ed25519 = Some [CHR ''{'', DQ], sig_MLDSA44 = Some [CHR ''{'', DQ]\<rparr>\<rparr>\<rparr>\<rparr>"

lemma sample_pop_value:
  "sample_pop ''ubiq://transport/m'' ''n'' 0 =
     \<lparr>pop_Holder = ''alice'', pop_CreatedAtMS = 0, pop_Nonce = ''6e'', pop_Method = ''PUBLISH'',
      pop_Target = ''ubiq://transport/m'', pop_EnvelopeHash = ''7b226964'',
      pop_Signature = \<lparr>sig_Ed25519 = Some [CHR ''{'', DQ], sig_MLDSA44 = Some [CHR ''{'', DQ]\<rparr>\<rparr>"
  by code_simp

definition sample_signed_raw :: bytes where
  "sample_signed_raw = ''{\"id\":\"e1\",\"event\":\"Fin.createInvoice.request\",\"correlation_id\":\"c\",\"causation_id\":\"a\",\"idempotency_key\":\"k1\",\"schema_id\":\"F@1\",\"payload\":{\"n\":1},\"guarantee\":\"processed\",\"created_at_ms\":5,\"security\":{\"key_id\":\"alice\",\"proof\":{\"holder\":\"alice\",\"created_at_ms\":0,\"nonce\":\"6e\",\"method\":\"PUBLISH\",\"target\":\"ubiq://transport/m\",\"envelope_hash\":\"7b226964\",\"signature\":{\"ed25519\":\"eyI=\",\"mldsa44\":\"eyI=\"}}}}''"

definition sample_secure :: SecureTransport where
  "sample_secure = \<lparr>st_inner_Name = ''m'', st_trust = [''alice'' \<mapsto> Public sample_lib sample_provider],
     st_freshness = 2000 * Second\<rparr>"

theorem secure_redelivery_refused_witness:
  "\<exists>p1 p3. Rabbit_on_message (Secure_handler sample_lib Second sample_secure count_handler)
     sample_signed_raw (sample_provider, 0) = (Requeue, (p1, 1))
   \<and> Rabbit_on_message (Secure_handler sample_lib (2 * Second) sample_secure count_handler)
     sample_signed_raw (p1, 1) = (Requeue, (p3, 1))"
proof -
  let ?sec = "the (env_Security sample_signed)"
  have pf: "ms_Proof ?sec = sample_pop ''ubiq://transport/m'' ''n'' 0" "ms_KeyID ?sec = ''alice''"
    by (simp_all add: sample_signed_def sample_pop_value)
  have fresh: "pop_fresh (2000 * Second) Second (UnixMilli 0)"
    by (rule sample_fresh) (simp_all add: Second_def)
  have "sample_signed\<lparr>env_Security := None\<rparr> = sample_envelope ''e1'' ''k1''"
    by (simp add: sample_signed_def sample_envelope_def)
  then obtain p1 where "VerifyPoP sample_lib (Public sample_lib sample_provider) (ms_Proof ?sec)
      ''PUBLISH'' (Secure_target sample_secure) (sample_signed\<lparr>env_Security := None\<rparr>) Second
      (st_freshness sample_secure) sample_provider = (Inr (), p1)"
    using sample_verify [OF fresh, of sample_provider "''n''" "''ubiq://transport/m''"]
    unfolding pf by (simp add: Secure_target_def sample_secure_def) (simp add: sample_provider_def)
  from VerifyPoP_ok(1) [OF this] have adm: "admissible sample_lib Second sample_secure sample_signed"
    by (auto simp: admissible_def sample_signed_def sample_secure_def sample_pop_value)
  have sec: "env_Security sample_signed = Some ?sec" by (simp add: sample_signed_def)
  have dec: "decodeEnvelope sample_signed_raw = Inr sample_signed" by code_simp
  obtain a p1 w1 where run: "Rabbit_on_message (Secure_handler sample_lib Second sample_secure count_handler)
      sample_signed_raw (sample_provider, 0) = (a, (p1, w1))" by (metis prod.collapse)
  have "cp_replay sample_provider k = None" for k by (simp add: sample_provider_def)
  from secure_redelivery_refused [OF _ _ dec sec adm this run rtranclp.rtrancl_refl, of "2 * Second" 1] run
  show ?thesis by (auto simp: sample_secure_def Second_def count_handler_def is_ok_def)
qed

end
