(* ===== verification/UbiQ_DPoP.thy ===== *)
theory UbiQ_DPoP
  imports UbiQ_Crypto
begin

text \<open>
  The DPoP verifier (\<^verbatim>\<open>src/runtime/go/ubiq/dpop.go\<close>) and the middleware of the daemon that
  requires a DPoP proof on every request but the health check (\<^verbatim>\<open>dpopMiddleware\<close> in
  \<^verbatim>\<open>src/runtime/go/cmd/ubiqd/main.go\<close>). The JOSE library and SHA-256 are arguments.
\<close>

section \<open>The verifier\<close>

record jwk =
  jwk_Valid :: bool
  jwk_Public :: bool
  jwk_JSON :: "bytes result"

record jws_signature =
  jws_JWK :: "jwk option"
  jws_typ :: "string option"

text \<open>
  What the verifier calls of the JOSE library: parsing a compact token into its signatures, and
  verifying it under a key, which yields the payload.
\<close>

record 'j jose_lib =
  jose_ParseSigned :: "string \<Rightarrow> 'j result"
  jose_Signatures :: "'j \<Rightarrow> jws_signature list"
  jose_Verify :: "'j \<Rightarrow> jwk \<Rightarrow> bytes result"

record dpopClaims =
  dc_JTI :: string
  dc_HTM :: string
  dc_HTU :: string
  dc_IAT :: int
  dc_ATH :: string
  dc_Nonce :: string

definition store_dpopClaims :: "string \<Rightarrow> bytes \<Rightarrow> dpopClaims \<Rightarrow> dpopClaims result" where
  "store_dpopClaims n raw c =
     (if n = ''jti'' then map_result (\<lambda>v. c\<lparr>dc_JTI := v\<rparr>) (dec_string raw (dc_JTI c))
      else if n = ''htm'' then map_result (\<lambda>v. c\<lparr>dc_HTM := v\<rparr>) (dec_string raw (dc_HTM c))
      else if n = ''htu'' then map_result (\<lambda>v. c\<lparr>dc_HTU := v\<rparr>) (dec_string raw (dc_HTU c))
      else if n = ''iat'' then map_result (\<lambda>v. c\<lparr>dc_IAT := v\<rparr>) (dec_int64 raw (dc_IAT c))
      else if n = ''ath'' then map_result (\<lambda>v. c\<lparr>dc_ATH := v\<rparr>) (dec_string raw (dc_ATH c))
      else map_result (\<lambda>v. c\<lparr>dc_Nonce := v\<rparr>) (dec_string raw (dc_Nonce c)))"

definition unmarshal_dpopClaims :: "bytes \<Rightarrow> dpopClaims result" where
  "unmarshal_dpopClaims payload =
     json_Unmarshal False [''jti'', ''htm'', ''htu'', ''iat'', ''ath'', ''nonce''] store_dpopClaims payload
       \<lparr>dc_JTI = [], dc_HTM = [], dc_HTU = [], dc_IAT = 0, dc_ATH = [], dc_Nonce = []\<rparr>"

text \<open>
  \<^verbatim>\<open>strings.EqualFold\<close> as it is used here, with an ASCII string on one side; and
  \<^verbatim>\<open>base64.RawURLEncoding\<close>.
\<close>

definition strings_EqualFold :: "string \<Rightarrow> string \<Rightarrow> bool" where
  "strings_EqualFold s t \<longleftrightarrow> fold_name s = fold_name t"

definition b64_rawurl :: "bytes \<Rightarrow> string" where
  "b64_rawurl b =
     map (\<lambda>c. if c = CHR ''+'' then CHR ''-'' else if c = CHR ''/'' then CHR ''_'' else c)
       (filter (\<lambda>c. c \<noteq> CHR ''='') (b64_encode b))"

record DPoPVerifier =
  dv_seen :: replay_cache
  dv_MaxSkew :: duration

definition NewDPoPVerifier :: DPoPVerifier where
  "NewDPoPVerifier = \<lparr>dv_seen = Map.empty, dv_MaxSkew = 5 * Minute\<rparr>"

definition dpop_skew :: "duration \<Rightarrow> duration" where
  "dpop_skew maxSkew = (if maxSkew \<le> 0 then 5 * Minute else maxSkew)"

definition dpop_fresh :: "duration \<Rightarrow> instant \<Rightarrow> int \<Rightarrow> bool" where
  "dpop_fresh skew now iat \<longleftrightarrow>
     \<not> (time_Sub now (iat * Second) > skew \<or> time_Sub (iat * Second) now > skew)"

definition dpop_cutoff :: "duration \<Rightarrow> instant \<Rightarrow> int" where
  "dpop_cutoff skew now = Unix (now + to_int64 (- 2 * skew))"

definition replayed_dpop :: go_error where
  "replayed_dpop = errors_New ''replayed DPoP proof''"

definition DPoP_Verify ::
  "'j jose_lib \<Rightarrow> (bytes \<Rightarrow> bytes) \<Rightarrow> string \<Rightarrow> string \<Rightarrow> string \<Rightarrow> string \<Rightarrow> instant \<Rightarrow> DPoPVerifier \<Rightarrow>
     unit result \<times> DPoPVerifier" where
  "DPoP_Verify jose sha256 token meth target accessToken now v =
     (case jose_ParseSigned jose token of Inl e \<Rightarrow> (Inl e, v) | Inr obj \<Rightarrow>
      case jose_Signatures jose obj of
        [header] \<Rightarrow>
          (case jws_JWK header of
             None \<Rightarrow> (Inl (errors_New ''DPoP requires an embedded public JWK''), v)
           | Some key \<Rightarrow>
               if \<not> jwk_Valid key \<or> \<not> jwk_Public key
               then (Inl (errors_New ''DPoP requires an embedded public JWK''), v)
               else if (case jws_typ header of None \<Rightarrow> False
                        | Some typ \<Rightarrow> \<not> strings_EqualFold typ ''dpop+jwt'')
               then (Inl (errors_New ''invalid DPoP typ''), v)
               else case jose_Verify jose obj key of
                 Inl e \<Rightarrow> (Inl (Errorf ''DPoP signature: %w'' []), v)
               | Inr payload \<Rightarrow>
                   (case unmarshal_dpopClaims payload of Inl e \<Rightarrow> (Inl e, v) | Inr claims \<Rightarrow>
                    if dc_JTI claims = [] \<or> dc_HTM claims = [] \<or> dc_HTU claims = [] \<or> dc_IAT claims = 0
                    then (Inl (errors_New ''incomplete DPoP claims''), v)
                    else if \<not> strings_EqualFold (dc_HTM claims) meth \<or> dc_HTU claims \<noteq> target
                    then (Inl (errors_New ''DPoP request binding mismatch''), v)
                    else let skew = dpop_skew (dv_MaxSkew v) in
                      if \<not> dpop_fresh skew now (dc_IAT claims)
                      then (Inl (errors_New ''DPoP proof outside freshness window''), v)
                      else if accessToken \<noteq> [] \<and> dc_ATH claims \<noteq> b64_rawurl (sha256 accessToken)
                      then (Inl (errors_New ''DPoP ath mismatch''), v)
                      else case jwk_JSON key of Inl e \<Rightarrow> (Inl e, v) | Inr jwkRaw \<Rightarrow>
                        (case replay_insert replayed_dpop (dpop_cutoff skew now)
                            (b64_rawurl (sha256 jwkRaw) @ '':'' @ dc_JTI claims) (dc_IAT claims) (dv_seen v) of
                           (r, seen) \<Rightarrow> (r, v\<lparr>dv_seen := seen\<rparr>))))
      | _ \<Rightarrow> (Inl (errors_New ''DPoP must contain exactly one signature''), v))"

section \<open>The middleware\<close>

record http_request =
  req_Method :: string
  req_Path :: string
  req_Host :: string
  req_DPoP :: string
  req_Authorization :: string

text \<open>\<^verbatim>\<open>strings.TrimSpace\<close>: the UTF-8 forms of the white space characters, stripped at both ends.\<close>

definition utf8_spaces :: "string list" where
  "utf8_spaces =
     [[CHR 0x20], [CHR 0x09], [CHR 0x0A], [CHR 0x0B], [CHR 0x0C], [CHR 0x0D], [CHR 0xC2, CHR 0x85],
      [CHR 0xC2, CHR 0xA0], [CHR 0xE1, CHR 0x9A, CHR 0x80], [CHR 0xE2, CHR 0x80, CHR 0xA8],
      [CHR 0xE2, CHR 0x80, CHR 0xA9], [CHR 0xE2, CHR 0x80, CHR 0xAF], [CHR 0xE2, CHR 0x81, CHR 0x9F],
      [CHR 0xE3, CHR 0x80, CHR 0x80]]
     @ map (\<lambda>k. [CHR 0xE2, CHR 0x80, char_of (0x80 + k)]) [0..<11]"

function trim_prefixes :: "string list \<Rightarrow> string \<Rightarrow> string" where
  "trim_prefixes ps s =
     (case find (\<lambda>p. p \<noteq> [] \<and> take (length p) s = p) ps of
        None \<Rightarrow> s
      | Some p \<Rightarrow> trim_prefixes ps (drop (length p) s))"
  by pat_completeness auto
termination
proof (relation "measure (\<lambda>(_, s). length s)")
  fix ps :: "string list" and s p
  assume "find (\<lambda>p. p \<noteq> [] \<and> take (length p) s = p) ps = Some p"
  then have "p \<noteq> []" "take (length p) s = p" by (auto simp: find_Some_iff)
  then show "((ps, drop (length p) s), ps, s) \<in> measure (\<lambda>(_, s). length s)" by (cases s) auto
qed simp

declare trim_prefixes.simps [simp del]

definition strings_TrimSpace :: "string \<Rightarrow> string" where
  "strings_TrimSpace s = rev (trim_prefixes (map rev utf8_spaces) (rev (trim_prefixes utf8_spaces s)))"

definition bearer_token :: "string \<Rightarrow> string" where
  "bearer_token auth =
     (if map ascii_lower (take 7 auth) = ''bearer '' then strings_TrimSpace (drop 7 auth) else [])"

text \<open>The request is passed on (\<open>Inr\<close>) or answered with 401 and a message (\<open>Inl\<close>).\<close>

definition dpopMiddleware ::
  "'j jose_lib \<Rightarrow> (bytes \<Rightarrow> bytes) \<Rightarrow> instant \<Rightarrow> http_request \<Rightarrow> DPoPVerifier \<Rightarrow> unit result \<times> DPoPVerifier" where
  "dpopMiddleware jose sha256 now r v =
     (if req_Method r = ''GET'' \<and> req_Path r = ''/healthz'' then (Inr (), v)
      else if req_DPoP r = [] then (Inl (errors_New ''DPoP proof required''), v)
      else case DPoP_Verify jose sha256 (req_DPoP r) (req_Method r)
                  (''https://'' @ req_Host r @ req_Path r) (bearer_token (req_Authorization r)) now v of
        (Inl e, v1) \<Rightarrow> (Inl (Errorf ''invalid DPoP: '' []), v1)
      | (Inr _, v1) \<Rightarrow> (Inr (), v1))"

section \<open>What an accepted proof stands for\<close>

definition dpop_checks ::
  "'j jose_lib \<Rightarrow> (bytes \<Rightarrow> bytes) \<Rightarrow> string \<Rightarrow> string \<Rightarrow> string \<Rightarrow> string \<Rightarrow> instant \<Rightarrow> duration \<Rightarrow>
     dpopClaims \<Rightarrow> string \<Rightarrow> bool" where
  "dpop_checks jose sha256 token meth target accessToken now skew claims replayKey \<longleftrightarrow>
     (\<exists>obj header key payload jwkRaw.
        jose_ParseSigned jose token = Inr obj \<and> jose_Signatures jose obj = [header]
        \<and> jws_JWK header = Some key \<and> jwk_Valid key \<and> jwk_Public key
        \<and> jose_Verify jose obj key = Inr payload \<and> unmarshal_dpopClaims payload = Inr claims
        \<and> dc_JTI claims \<noteq> [] \<and> strings_EqualFold (dc_HTM claims) meth \<and> dc_HTU claims = target
        \<and> dpop_fresh skew now (dc_IAT claims)
        \<and> (accessToken = [] \<or> dc_ATH claims = b64_rawurl (sha256 accessToken))
        \<and> jwk_JSON key = Inr jwkRaw \<and> replayKey = b64_rawurl (sha256 jwkRaw) @ '':'' @ dc_JTI claims)"

lemma DPoP_Verify_cases:
  "(\<exists>e. DPoP_Verify jose sha256 token meth target accessToken now v = (Inl e, v))
   \<or> (\<exists>claims k. dpop_checks jose sha256 token meth target accessToken now (dpop_skew (dv_MaxSkew v)) claims k
        \<and> DPoP_Verify jose sha256 token meth target accessToken now v =
            (case replay_insert replayed_dpop (dpop_cutoff (dpop_skew (dv_MaxSkew v)) now) k (dc_IAT claims)
                (dv_seen v) of (r, seen) \<Rightarrow> (r, v\<lparr>dv_seen := seen\<rparr>)))"
  unfolding DPoP_Verify_def dpop_checks_def Let_def
  by (auto split: sum.split list.split option.split)

definition dpop_skew_ok :: "duration \<Rightarrow> bool" where
  "dpop_skew_ok skew \<longleftrightarrow> 0 < skew \<and> skew \<le> 2 ^ 61"

interpretation dpop: replay_window dpop_skew_ok dpop_cutoff dpop_fresh
proof unfold_locales
  fix p and now later :: instant
  assume "now \<le> later"
  then show "dpop_cutoff p now \<le> dpop_cutoff p later"
    by (simp add: dpop_cutoff_def Unix_def Second_def zdiv_mono1)
next
  fix p now at
  assume p: "dpop_skew_ok p" and "dpop_fresh p now at"
  then have "now - at * Second \<le> p"
    by (auto simp: dpop_fresh_def time_Sub_def dpop_skew_ok_def max_def min_def split: if_splits)
  moreover have "to_int64 (- 2 * p) = - 2 * p"
    using p by (intro to_int64_id) (simp add: int64_range_def dpop_skew_ok_def)
  ultimately have "(now + to_int64 (- 2 * p)) div Second \<le> at * Second div Second"
    using p by (intro zdiv_mono1) (simp_all add: dpop_skew_ok_def Second_def)
  then show "dpop_cutoff p now \<le> at"
    by (simp add: dpop_cutoff_def Unix_def Second_def)
qed

lemma DPoP_Verify_skew [simp]:
  "dv_MaxSkew (snd (DPoP_Verify jose sha256 token meth target accessToken now v)) = dv_MaxSkew v"
  using DPoP_Verify_cases [of jose sha256 token meth target accessToken now v]
  by (auto simp: case_prod_beta)

inductive dpop_call :: "'j jose_lib \<Rightarrow> (bytes \<Rightarrow> bytes) \<Rightarrow> instant \<Rightarrow> DPoPVerifier \<Rightarrow> DPoPVerifier \<Rightarrow> bool"
  for jose sha256 until where
  dpop_call: "now \<le> until \<Longrightarrow> dpop_call jose sha256 until v
     (snd (DPoP_Verify jose sha256 token meth target accessToken now v))"

lemma dpop_call_cache:
  "dpop_call jose sha256 until v u \<Longrightarrow>
     dv_MaxSkew u = dv_MaxSkew v
     \<and> cache_call (dpop_cutoff (dpop_skew (dv_MaxSkew v))) replayed_dpop until (dv_seen v) (dv_seen u)"
proof (induction rule: dpop_call.induct)
  case (dpop_call now v token meth target accessToken)
  then show ?case
    using DPoP_Verify_cases [of jose sha256 token meth target accessToken now v]
    by (auto simp: case_prod_beta cache_skip intro: cache_insert)
qed

lemma dpop_calls_cache:
  "rtranclp (dpop_call jose sha256 until) v u \<Longrightarrow>
     dv_MaxSkew u = dv_MaxSkew v
     \<and> rtranclp (cache_call (dpop_cutoff (dpop_skew (dv_MaxSkew v))) replayed_dpop until) (dv_seen v) (dv_seen u)"
proof (induction rule: rtranclp_induct)
  case (step u w)
  then show ?case using dpop_call_cache [OF step.hyps(2)] by (auto intro: rtranclp.rtrancl_into_rtrancl)
qed simp

lemma DPoP_Verify_ok:
  assumes "DPoP_Verify jose sha256 token meth target accessToken now v = (Inr (), u)"
  obtains claims k where
    "dpop_checks jose sha256 token meth target accessToken now (dpop_skew (dv_MaxSkew v)) claims k"
    and "fst (replay_insert replayed_dpop (dpop_cutoff (dpop_skew (dv_MaxSkew v)) now) k (dc_IAT claims)
          (dv_seen v)) = Inr ()"
    and "u = v\<lparr>dv_seen := snd (replay_insert replayed_dpop (dpop_cutoff (dpop_skew (dv_MaxSkew v)) now) k
          (dc_IAT claims) (dv_seen v))\<rparr>"
  using DPoP_Verify_cases [of jose sha256 token meth target accessToken now v] assms that
  by (auto simp: case_prod_beta)

lemma dpop_checks_functional:
  assumes "dpop_checks jose sha256 token m1 t1 a1 now1 s1 c1 k1" and "dpop_checks jose sha256 token m2 t2 a2 now2 s2 c2 k2"
  shows "c1 = c2 \<and> k1 = k2"
  using assms by (auto simp: dpop_checks_def)

text \<open>
  C23: DPoP proofs are single use. Once a token has been accepted, presenting it again at any later
  time, for any request, is refused, whatever other tokens were verified in between.
\<close>

theorem DPoP_no_replay:
  assumes "dv_MaxSkew v \<le> 2 ^ 61"
    and "DPoP_Verify jose sha256 token meth target accessToken now v = (Inr (), u)"
    and "rtranclp (dpop_call jose sha256 later) u w"
  shows "\<exists>e. fst (DPoP_Verify jose sha256 token meth' target' accessToken' later w) = Inl e"
proof -
  let ?skew = "dpop_skew (dv_MaxSkew v)"
  obtain claims k where c: "dpop_checks jose sha256 token meth target accessToken now ?skew claims k"
    and ok: "fst (replay_insert replayed_dpop (dpop_cutoff ?skew now) k (dc_IAT claims) (dv_seen v)) = Inr ()"
    and u: "u = v\<lparr>dv_seen := snd (replay_insert replayed_dpop (dpop_cutoff ?skew now) k (dc_IAT claims) (dv_seen v))\<rparr>"
    using DPoP_Verify_ok [OF assms(2)] .
  note calls = dpop_calls_cache [OF assms(3)]
  then have skew: "dv_MaxSkew w = dv_MaxSkew v" using u by simp
  have skew_ok: "dpop_skew_ok ?skew"
    using assms(1) by (simp add: dpop_skew_ok_def dpop_skew_def Minute_def Second_def)
  show ?thesis
    using DPoP_Verify_cases [of jose sha256 token meth' target' accessToken' later w]
  proof (elim disjE exE conjE)
    fix claims' k'
    assume c': "dpop_checks jose sha256 token meth' target' accessToken' later (dpop_skew (dv_MaxSkew w)) claims' k'"
      and run: "DPoP_Verify jose sha256 token meth' target' accessToken' later w =
        (case replay_insert replayed_dpop (dpop_cutoff (dpop_skew (dv_MaxSkew w)) later) k' (dc_IAT claims')
            (dv_seen w) of (r, seen) \<Rightarrow> (r, w\<lparr>dv_seen := seen\<rparr>))"
    have same: "claims' = claims" "k' = k" using dpop_checks_functional [OF c' c] by simp_all
    have "dpop_fresh ?skew later (dc_IAT claims)"
      using c' same skew by (auto simp: dpop_checks_def)
    from dpop.no_replay [OF ok skew_ok _ this, of "dv_seen w"] calls u
    have "fst (replay_insert replayed_dpop (dpop_cutoff ?skew later) k (dc_IAT claims) (dv_seen w)) = Inl replayed_dpop"
      by simp
    then show ?thesis using run same skew by (simp add: case_prod_beta)
  qed auto
qed

text \<open>
  C22: The middleware lets a request through only if it is the health check or its DPoP token
  verified for exactly this method and URL, is bound to the bearer token the request carries, if
  any, and enters the replay cache with it.
\<close>

theorem middleware_requires_dpop:
  assumes "dpopMiddleware jose sha256 now r v = (Inr (), u)"
  shows "req_Method r = ''GET'' \<and> req_Path r = ''/healthz'' \<and> u = v
     \<or> (\<exists>claims k. dpop_checks jose sha256 (req_DPoP r) (req_Method r) (''https://'' @ req_Host r @ req_Path r)
            (bearer_token (req_Authorization r)) now (dpop_skew (dv_MaxSkew v)) claims k
          \<and> dv_seen u k = Some (dc_IAT claims))"
proof (cases "req_Method r = ''GET'' \<and> req_Path r = ''/healthz''")
  case True
  then show ?thesis using assms by (simp add: dpopMiddleware_def)
next
  case False
  then have run: "DPoP_Verify jose sha256 (req_DPoP r) (req_Method r) (''https://'' @ req_Host r @ req_Path r)
      (bearer_token (req_Authorization r)) now v = (Inr (), u)"
    using assms by (auto simp: dpopMiddleware_def split: if_splits prod.splits sum.splits)
  then show ?thesis
    by (rule DPoP_Verify_ok) (auto dest: replay_insert_ok)
qed

section \<open>A concrete token\<close>

definition sample_claims :: bytes where
  "sample_claims = ''{\"jti\":\"j\",\"htm\":\"post\",\"htu\":\"https://h/v1\",\"iat\":100}''"

definition sample_jose :: "unit jose_lib" where
  "sample_jose =
     \<lparr>jose_ParseSigned = (\<lambda>_. Inr ()),
      jose_Signatures = (\<lambda>_. [\<lparr>jws_JWK = Some \<lparr>jwk_Valid = True, jwk_Public = True, jwk_JSON = Inr ''key''\<rparr>,
                             jws_typ = Some ''DPoP+JWT''\<rparr>]),
      jose_Verify = (\<lambda>_ _. Inr sample_claims)\<rparr>"

definition sample_request :: http_request where
  "sample_request = \<lparr>req_Method = ''POST'', req_Path = ''/v1'', req_Host = ''h'', req_DPoP = ''t'',
     req_Authorization = []\<rparr>"

definition sample_verified :: DPoPVerifier where
  "sample_verified = snd (DPoP_Verify sample_jose (take 3) ''t'' ''POST'' ''https://h/v1'' [] (100 * Second) NewDPoPVerifier)"

lemma sample_dpop_ok:
  "DPoP_Verify sample_jose (take 3) ''t'' ''POST'' ''https://h/v1'' [] (100 * Second) NewDPoPVerifier =
     (Inr (), sample_verified)"
proof (rule prod_eqI)
  have "unmarshal_dpopClaims sample_claims =
      Inr \<lparr>dc_JTI = ''j'', dc_HTM = ''post'', dc_HTU = ''https://h/v1'', dc_IAT = 100, dc_ATH = [], dc_Nonce = []\<rparr>"
    by code_simp
  moreover have "strings_EqualFold ''DPoP+JWT'' ''dpop+jwt''" "strings_EqualFold ''post'' ''POST''"
    "dpop_fresh (dpop_skew (dv_MaxSkew NewDPoPVerifier)) (100 * Second) 100"
    by code_simp+
  ultimately show "fst (DPoP_Verify sample_jose (take 3) ''t'' ''POST'' ''https://h/v1'' [] (100 * Second)
      NewDPoPVerifier) = fst (Inr () :: unit result, sample_verified)"
    by (simp add: DPoP_Verify_def sample_jose_def Let_def replay_insert_def replay_prune_def)
      (simp add: NewDPoPVerifier_def)
qed (simp add: sample_verified_def)

theorem DPoP_no_replay_witness:
  "\<exists>e. fst (DPoP_Verify sample_jose (take 3) ''t'' ''POST'' ''https://h/v1'' [] (101 * Second) sample_verified) = Inl e"
  by (rule DPoP_no_replay [OF _ sample_dpop_ok rtranclp.rtrancl_refl])
    (simp add: NewDPoPVerifier_def Minute_def Second_def)

theorem middleware_requires_dpop_witness:
  "\<exists>claims k. dv_seen sample_verified k = Some (dc_IAT claims)
     \<and> dpop_checks sample_jose (take 3) ''t'' ''POST'' ''https://h/v1'' [] (100 * Second) (5 * Minute) claims k"
proof -
  have "dpopMiddleware sample_jose (take 3) (100 * Second) sample_request NewDPoPVerifier = (Inr (), sample_verified)"
    by (simp add: dpopMiddleware_def sample_request_def bearer_token_def sample_dpop_ok)
  from middleware_requires_dpop [OF this] show ?thesis
    by (auto simp: sample_request_def bearer_token_def NewDPoPVerifier_def dpop_skew_def Minute_def Second_def)
qed

end
