(* ===== verification/UbiQ_ShardBackend.thy ===== *)
theory UbiQ_ShardBackend
  imports UbiQ_Transport
begin

text \<open>
  The shard backends (\<^verbatim>\<open>shard_sql.go\<close>, \<^verbatim>\<open>shard_mongo.go\<close>) behind the interface of
  \<^verbatim>\<open>shard.go\<close>: exporting a range of documents in batches, importing, counting and deleting. The
  contract the coordinator relies on is the locale \<open>shard_backend\<close>, which both kinds of backend and
  their union satisfy whichever statements fail, and \<open>healthy_backend\<close> when none does.
\<close>

section \<open>Documents and the backend interface\<close>

record ShardDocument =
  sd_Key :: string
  sd_Data :: bytes

record ShardBatch =
  sb_Documents :: "ShardDocument list"
  sb_Next :: string
  sb_Done :: bool

text \<open>The interface a shard backend implements, on a type \<open>'b\<close> of backend states.\<close>

record 'b ShardBackend =
  bk_ID :: "'b \<Rightarrow> string"
  bk_ExportRange :: "string \<Rightarrow> string \<Rightarrow> string \<Rightarrow> nat \<Rightarrow> 'b \<Rightarrow> ShardBatch result"
  bk_Import :: "ShardDocument list \<Rightarrow> 'b \<Rightarrow> unit result \<times> 'b"
  bk_CountRange :: "string \<Rightarrow> string \<Rightarrow> 'b \<Rightarrow> int result"
  bk_DeleteRange :: "string \<Rightarrow> string \<Rightarrow> 'b \<Rightarrow> unit result \<times> 'b"

definition in_shard :: "string \<Rightarrow> string \<Rightarrow> string \<Rightarrow> bool" where
  "in_shard start end k \<longleftrightarrow> start \<le> k \<and> k < end"

text \<open>The condition on the checkpoint is only added when there is one.\<close>

definition after_ok :: "string \<Rightarrow> string \<Rightarrow> bool" where
  "after_ok after k \<longleftrightarrow> after = [] \<or> after < k"

text \<open>
  The loop over the rows of a batch, which stops at the first row that cannot be encoded, and the
  batch made of its documents: the checkpoint is the last key, and a short batch is the last.
\<close>

fun export_docs :: "('r \<Rightarrow> string) \<Rightarrow> ('r \<Rightarrow> bytes result) \<Rightarrow> 'r list \<Rightarrow> ShardDocument list result" where
  "export_docs key marshal [] = Inr []"
| "export_docs key marshal (r # rs) =
     (case marshal r of
        Inl e \<Rightarrow> Inl e
      | Inr raw \<Rightarrow>
          (case export_docs key marshal rs of
             Inl e \<Rightarrow> Inl e
           | Inr docs \<Rightarrow> Inr (\<lparr>sd_Key = key r, sd_Data = raw\<rparr> # docs)))"

definition make_batch :: "nat \<Rightarrow> ShardDocument list \<Rightarrow> ShardBatch" where
  "make_batch limit docs =
     \<lparr>sb_Documents = docs, sb_Next = (if docs = [] then [] else sd_Key (last docs)),
      sb_Done = (length docs < limit)\<rparr>"

section \<open>SQL backends\<close>

text \<open>
  A row is its columns with their values. Reading a value as text, encoding a row as a JSON object
  and decoding an object into the values an insert binds depend on the driver's value types; the
  codec holds these three functions. Keys are text compared bytewise.
\<close>

type_synonym 'v sql_row = "(string \<times> 'v) list"

record 'v sql_codec =
  cd_Sprint :: "'v \<Rightarrow> string"
  cd_Marshal :: "'v sql_row \<Rightarrow> bytes result"
  cd_Unmarshal :: "bytes \<Rightarrow> 'v sql_row result"

datatype backend_stmt =
  SelectRange | ReadRows | BeginImport | ImportRow nat | CommitImport | CountRows | DeleteRows

type_synonym backend_faults = "backend_stmt \<Rightarrow> go_error option"

definition sqlIdentifier :: rexp where
  "sqlIdentifier =
     Seq (Cls (\<lambda>c. is_alpha c \<or> c = CHR ''_'')) (Star (Cls (\<lambda>c. is_alpha c \<or> is_digit c \<or> c = CHR ''_'')))"

record 'v SQLShardBackend =
  sq_id :: string
  sq_table :: string
  sq_keyColumn :: string
  sq_rows :: "'v sql_row list"

definition OpenSQLShardBackend ::
  "('v sql_row list) result \<Rightarrow> string \<Rightarrow> string \<Rightarrow> string \<Rightarrow> 'v SQLShardBackend result" where
  "OpenSQLShardBackend conn sid table keyColumn =
     (if \<not> MatchString sqlIdentifier table \<or> \<not> MatchString sqlIdentifier keyColumn
      then Inl (errors_New ''unsafe SQL identifier'')
      else case conn of
        Inl e \<Rightarrow> Inl e
      | Inr rows \<Rightarrow> Inr \<lparr>sq_id = sid, sq_table = table, sq_keyColumn = keyColumn, sq_rows = rows\<rparr>)"

definition row_key :: "'v sql_codec \<Rightarrow> string \<Rightarrow> 'v sql_row \<Rightarrow> string" where
  "row_key cd keyColumn row =
     (case map_of row keyColumn of None \<Rightarrow> [] | Some v \<Rightarrow> cd_Sprint cd v)"

definition SQL_ExportRange ::
  "'v sql_codec \<Rightarrow> backend_faults \<Rightarrow> string \<Rightarrow> string \<Rightarrow> string \<Rightarrow> nat \<Rightarrow> 'v SQLShardBackend \<Rightarrow> ShardBatch result"
where
  "SQL_ExportRange cd fl start end after limit b =
     (case fl SelectRange of
        Some e \<Rightarrow> Inl e
      | None \<Rightarrow>
          let key = row_key cd (sq_keyColumn b);
              rows = order_limit key limit
                (filter (\<lambda>r. in_shard start end (key r) \<and> after_ok after (key r)) (sq_rows b)) in
          case export_docs key (cd_Marshal cd) rows of
            Inl e \<Rightarrow> Inl e
          | Inr docs \<Rightarrow>
              (case fl ReadRows of Some e \<Rightarrow> Inl e | None \<Rightarrow> Inr (make_batch limit docs)))"

text \<open>\<^verbatim>\<open>INSERT \<dots> ON CONFLICT (key) DO NOTHING\<close>\<close>

definition insert_row :: "('r \<Rightarrow> string) \<Rightarrow> 'r \<Rightarrow> 'r list \<Rightarrow> 'r list" where
  "insert_row key row rows = (if key row \<in> key ` set rows then rows else rows @ [row])"

definition import_fields :: "'v sql_codec \<Rightarrow> bytes \<Rightarrow> 'v sql_row result" where
  "import_fields cd raw =
     (case cd_Unmarshal cd raw of
        Inl e \<Rightarrow> Inl e
      | Inr flds \<Rightarrow>
          (if \<exists>col \<in> set (map fst flds). \<not> MatchString sqlIdentifier col
           then Inl (errors_New ''unsafe imported column'') else Inr flds))"

fun sql_import_docs ::
  "'v sql_codec \<Rightarrow> backend_faults \<Rightarrow> ('v sql_row \<Rightarrow> string) \<Rightarrow> nat \<Rightarrow> ShardDocument list \<Rightarrow> 'v sql_row list
    \<Rightarrow> 'v sql_row list result" where
  "sql_import_docs cd fl key i [] rows = Inr rows"
| "sql_import_docs cd fl key i (doc # docs) rows =
     (case import_fields cd (sd_Data doc) of
        Inl e \<Rightarrow> Inl e
      | Inr flds \<Rightarrow>
          (case fl (ImportRow i) of
             Some e \<Rightarrow> Inl e
           | None \<Rightarrow> sql_import_docs cd fl key (Suc i) docs (insert_row key flds rows)))"

text \<open>The import is one transaction: whatever fails, the deferred rollback undoes all of it.\<close>

definition SQL_Import ::
  "'v sql_codec \<Rightarrow> backend_faults \<Rightarrow> ShardDocument list \<Rightarrow> 'v SQLShardBackend
    \<Rightarrow> unit result \<times> 'v SQLShardBackend" where
  "SQL_Import cd fl docs b =
     (case fl BeginImport of
        Some e \<Rightarrow> (Inl e, b)
      | None \<Rightarrow>
          (case sql_import_docs cd fl (row_key cd (sq_keyColumn b)) 0 docs (sq_rows b) of
             Inl e \<Rightarrow> (Inl e, b)
           | Inr rows \<Rightarrow>
               (case fl CommitImport of
                  Some e \<Rightarrow> (Inl e, b)
                | None \<Rightarrow> (Inr (), b\<lparr>sq_rows := rows\<rparr>))))"

definition SQL_CountRange ::
  "'v sql_codec \<Rightarrow> backend_faults \<Rightarrow> string \<Rightarrow> string \<Rightarrow> 'v SQLShardBackend \<Rightarrow> int result" where
  "SQL_CountRange cd fl start end b =
     (case fl CountRows of
        Some e \<Rightarrow> Inl e
      | None \<Rightarrow> Inr (int (sql_count (\<lambda>r. in_shard start end (row_key cd (sq_keyColumn b) r)) (sq_rows b))))"

definition SQL_DeleteRange ::
  "'v sql_codec \<Rightarrow> backend_faults \<Rightarrow> string \<Rightarrow> string \<Rightarrow> 'v SQLShardBackend
    \<Rightarrow> unit result \<times> 'v SQLShardBackend" where
  "SQL_DeleteRange cd fl start end b =
     (case fl DeleteRows of
        Some e \<Rightarrow> (Inl e, b)
      | None \<Rightarrow>
          (Inr (), b\<lparr>sq_rows :=
             filter (\<lambda>r. \<not> in_shard start end (row_key cd (sq_keyColumn b) r)) (sq_rows b)\<rparr>))"

definition SQLShard_ops :: "'v sql_codec \<Rightarrow> backend_faults \<Rightarrow> 'v SQLShardBackend ShardBackend" where
  "SQLShard_ops cd fl =
     \<lparr>bk_ID = sq_id, bk_ExportRange = SQL_ExportRange cd fl, bk_Import = SQL_Import cd fl,
      bk_CountRange = SQL_CountRange cd fl, bk_DeleteRange = SQL_DeleteRange cd fl\<rparr>"

section \<open>MongoDB backends\<close>

text \<open>
  A collection is the list of its documents. A field read as text, and the extended JSON form, are
  the driver's; a document without the key field matches no range.
\<close>

record 'd bson_codec =
  bc_Field :: "string \<Rightarrow> 'd \<Rightarrow> string option"
  bc_MarshalExtJSON :: "'d \<Rightarrow> bytes result"
  bc_UnmarshalExtJSON :: "bytes \<Rightarrow> 'd result"

record 'd MongoShardBackend =
  mo_id :: string
  mo_keyField :: string
  mo_docs :: "'d list"

definition OpenMongoShardBackend ::
  "('d list) result \<Rightarrow> string \<Rightarrow> string \<Rightarrow> string \<Rightarrow> string \<Rightarrow> string \<Rightarrow> 'd MongoShardBackend result" where
  "OpenMongoShardBackend conn sid uri database collection keyField =
     (if sid = [] \<or> uri = [] \<or> database = [] \<or> collection = [] \<or> keyField = []
      then Inl (errors_New ''invalid Mongo shard config'')
      else case conn of
        Inl e \<Rightarrow> Inl e
      | Inr docs \<Rightarrow> Inr \<lparr>mo_id = sid, mo_keyField = keyField, mo_docs = docs\<rparr>)"

definition rangeFilter ::
  "'d bson_codec \<Rightarrow> string \<Rightarrow> string \<Rightarrow> string \<Rightarrow> string \<Rightarrow> 'd \<Rightarrow> bool" where
  "rangeFilter cd keyField start end after d \<longleftrightarrow>
     (case bc_Field cd keyField d of
        None \<Rightarrow> False
      | Some k \<Rightarrow> in_shard start end k \<and> after_ok after k)"

definition doc_key :: "'d bson_codec \<Rightarrow> string \<Rightarrow> 'd \<Rightarrow> string" where
  "doc_key cd keyField d = (case bc_Field cd keyField d of None \<Rightarrow> ''<nil>'' | Some k \<Rightarrow> k)"

definition Mongo_ExportRange ::
  "'d bson_codec \<Rightarrow> backend_faults \<Rightarrow> string \<Rightarrow> string \<Rightarrow> string \<Rightarrow> nat \<Rightarrow> 'd MongoShardBackend \<Rightarrow> ShardBatch result"
where
  "Mongo_ExportRange cd fl start end after limit b =
     (case fl SelectRange of
        Some e \<Rightarrow> Inl e
      | None \<Rightarrow>
          let key = doc_key cd (mo_keyField b);
              found = order_limit key limit (filter (rangeFilter cd (mo_keyField b) start end after) (mo_docs b)) in
          case export_docs key (bc_MarshalExtJSON cd) found of
            Inl e \<Rightarrow> Inl e
          | Inr docs \<Rightarrow>
              (case fl ReadRows of Some e \<Rightarrow> Inl e | None \<Rightarrow> Inr (make_batch limit docs)))"

text \<open>\<^verbatim>\<open>ReplaceOne\<close> with upsert: the first document with the key is replaced, or the document is new.\<close>

fun replace_one :: "('d \<Rightarrow> bool) \<Rightarrow> 'd \<Rightarrow> 'd list \<Rightarrow> 'd list" where
  "replace_one p new [] = [new]"
| "replace_one p new (d # ds) = (if p d then new # ds else d # replace_one p new ds)"

text \<open>There is no transaction here: the documents before the failing one stay imported.\<close>

fun mongo_import_docs ::
  "'d bson_codec \<Rightarrow> backend_faults \<Rightarrow> string \<Rightarrow> nat \<Rightarrow> ShardDocument list \<Rightarrow> 'd list \<Rightarrow> unit result \<times> 'd list" where
  "mongo_import_docs cd fl keyField i [] ds = (Inr (), ds)"
| "mongo_import_docs cd fl keyField i (item # items) ds =
     (case bc_UnmarshalExtJSON cd (sd_Data item) of
        Inl e \<Rightarrow> (Inl e, ds)
      | Inr doc \<Rightarrow>
          (case bc_Field cd keyField doc of
             None \<Rightarrow> (Inl (Errorf ''document missing shard key %q'' [keyField]), ds)
           | Some k \<Rightarrow>
               (case fl (ImportRow i) of
                  Some e \<Rightarrow> (Inl e, ds)
                | None \<Rightarrow> mongo_import_docs cd fl keyField (Suc i) items
                            (replace_one (\<lambda>d. bc_Field cd keyField d = Some k) doc ds))))"

definition Mongo_Import ::
  "'d bson_codec \<Rightarrow> backend_faults \<Rightarrow> ShardDocument list \<Rightarrow> 'd MongoShardBackend
    \<Rightarrow> unit result \<times> 'd MongoShardBackend" where
  "Mongo_Import cd fl docs b =
     (case mongo_import_docs cd fl (mo_keyField b) 0 docs (mo_docs b) of
        (res, ds) \<Rightarrow> (res, b\<lparr>mo_docs := ds\<rparr>))"

definition Mongo_CountRange ::
  "'d bson_codec \<Rightarrow> backend_faults \<Rightarrow> string \<Rightarrow> string \<Rightarrow> 'd MongoShardBackend \<Rightarrow> int result" where
  "Mongo_CountRange cd fl start end b =
     (case fl CountRows of
        Some e \<Rightarrow> Inl e
      | None \<Rightarrow> Inr (int (length (filter (rangeFilter cd (mo_keyField b) start end []) (mo_docs b)))))"

definition Mongo_DeleteRange ::
  "'d bson_codec \<Rightarrow> backend_faults \<Rightarrow> string \<Rightarrow> string \<Rightarrow> 'd MongoShardBackend
    \<Rightarrow> unit result \<times> 'd MongoShardBackend" where
  "Mongo_DeleteRange cd fl start end b =
     (case fl DeleteRows of
        Some e \<Rightarrow> (Inl e, b)
      | None \<Rightarrow>
          (Inr (), b\<lparr>mo_docs := filter (\<lambda>d. \<not> rangeFilter cd (mo_keyField b) start end [] d) (mo_docs b)\<rparr>))"

definition MongoShard_ops :: "'d bson_codec \<Rightarrow> backend_faults \<Rightarrow> 'd MongoShardBackend ShardBackend" where
  "MongoShard_ops cd fl =
     \<lparr>bk_ID = mo_id, bk_ExportRange = Mongo_ExportRange cd fl, bk_Import = Mongo_Import cd fl,
      bk_CountRange = Mongo_CountRange cd fl, bk_DeleteRange = Mongo_DeleteRange cd fl\<rparr>"

text \<open>A registered backend is of either kind; calls through the interface go to the methods of its kind.\<close>

datatype ('v, 'd) any_backend = SQLBackend "'v SQLShardBackend" | MongoBackend "'d MongoShardBackend"

definition any_ops ::
  "'v sql_codec \<Rightarrow> 'd bson_codec \<Rightarrow> backend_faults \<Rightarrow> ('v, 'd) any_backend ShardBackend" where
  "any_ops scd bcd fl =
     \<lparr>bk_ID = case_any_backend sq_id mo_id,
      bk_ExportRange = (\<lambda>start end after limit.
        case_any_backend (SQL_ExportRange scd fl start end after limit)
          (Mongo_ExportRange bcd fl start end after limit)),
      bk_Import = (\<lambda>docs.
        case_any_backend (map_prod id SQLBackend \<circ> SQL_Import scd fl docs)
          (map_prod id MongoBackend \<circ> Mongo_Import bcd fl docs)),
      bk_CountRange = (\<lambda>start end.
        case_any_backend (SQL_CountRange scd fl start end) (Mongo_CountRange bcd fl start end)),
      bk_DeleteRange = (\<lambda>start end.
        case_any_backend (map_prod id SQLBackend \<circ> SQL_DeleteRange scd fl start end)
          (map_prod id MongoBackend \<circ> Mongo_DeleteRange bcd fl start end))\<rparr>"

section \<open>The contract of a backend\<close>

text \<open>
  What the coordinator relies on. \<open>lookup b k\<close> is what backend \<open>b\<close> holds under key \<open>k\<close>, \<open>encode\<close> the
  data it exports for it, \<open>decode b raw\<close> what an import of the data \<open>raw\<close> stores, and \<open>fits b d\<close> that
  the data of document \<open>d\<close> can be stored and holds \<open>d\<close>'s key. An export is the next keys of the range
  in order, an import stores every document or keeps what is there under its key, counts and
  deletions are those of the range. Every law is about calls that succeed, so that it holds
  whichever statements fail.
\<close>

locale shard_backend =
  fixes ops :: "'b ShardBackend"
    and valid :: "'b \<Rightarrow> bool"
    and lookup :: "'b \<Rightarrow> string \<Rightarrow> 'x option"
    and encode :: "'x \<Rightarrow> bytes result"
    and decode :: "'b \<Rightarrow> bytes \<Rightarrow> 'x result"
    and fits :: "'b \<Rightarrow> ShardDocument \<Rightarrow> bool"
  assumes finite_keys: "finite (dom (lookup b))"
    and export: "valid b \<Longrightarrow> bk_ExportRange ops start end after limit b = Inr batch \<Longrightarrow>
        batch = make_batch limit (sb_Documents batch)
        \<and> map sd_Key (sb_Documents batch) =
            take limit (sorted_list_of_set {k \<in> dom (lookup b). in_shard start end k \<and> after_ok after k})
        \<and> (\<forall>d \<in> set (sb_Documents batch). \<exists>x. lookup b (sd_Key d) = Some x \<and> encode x = Inr (sd_Data d))"
    and import: "valid b \<Longrightarrow> list_all (fits b) docs \<Longrightarrow> bk_Import ops docs b = (res, b') \<Longrightarrow>
        valid b' \<and> fits b' = fits b \<and> decode b' = decode b
        \<and> (\<forall>k. k \<notin> sd_Key ` set docs \<longrightarrow> lookup b' k = lookup b k)
        \<and> (\<forall>k. lookup b' k = lookup b k \<or> (\<exists>d \<in> set docs. \<exists>y. sd_Key d = k
              \<and> lookup b' k = Some y \<and> decode b (sd_Data d) = Inr y))
        \<and> (res = Inr () \<longrightarrow> sd_Key ` set docs \<subseteq> dom (lookup b'))"
    and count: "valid b \<Longrightarrow> bk_CountRange ops start end b = Inr n \<Longrightarrow>
        n = int (card {k \<in> dom (lookup b). in_shard start end k})"
    and delete: "valid b \<Longrightarrow> bk_DeleteRange ops start end b = (Inr (), b') \<Longrightarrow>
        valid b' \<and> fits b' = fits b \<and> decode b' = decode b
        \<and> (\<forall>k. lookup b' k = (if in_shard start end k then None else lookup b k))"
    and delete_error: "bk_DeleteRange ops start end b = (Inl e, b') \<Longrightarrow> b' = b"
    and import_id: "bk_Import ops docs b = (res, b') \<Longrightarrow> bk_ID ops b' = bk_ID ops b"
    and delete_id: "bk_DeleteRange ops start end b = (Inr (), b') \<Longrightarrow> bk_ID ops b' = bk_ID ops b"

text \<open>A backend whose statements do not fail, on data that it can encode and decode.\<close>

locale healthy_backend = shard_backend ops valid lookup encode decode fits
  for ops :: "'b ShardBackend" and valid and lookup :: "'b \<Rightarrow> string \<Rightarrow> 'x option" and encode decode fits +
  assumes export_ok: "valid b \<Longrightarrow> (\<And>k x. lookup b k = Some x \<Longrightarrow> is_ok (encode x)) \<Longrightarrow>
        is_ok (bk_ExportRange ops start end after limit b)"
    and import_ok: "list_all (fits b) docs \<Longrightarrow> is_ok (fst (bk_Import ops docs b))"
    and count_ok: "is_ok (bk_CountRange ops start end b)"

subsection \<open>Rows under keys\<close>

definition lookup_by :: "('r \<Rightarrow> string option) \<Rightarrow> 'r list \<Rightarrow> string \<Rightarrow> 'r option" where
  "lookup_by key rows k = find (\<lambda>r. key r = Some k) rows"

text \<open>No two rows share a key; rows without one do not matter.\<close>

definition keyed :: "('r \<Rightarrow> string option) \<Rightarrow> 'r list \<Rightarrow> bool" where
  "keyed key rows \<longleftrightarrow> distinct (List.map_filter key rows)"

lemma set_List_map_filter: "set (List.map_filter f xs) = {y. \<exists>x \<in> set xs. f x = Some y}"
  by (force simp: List.map_filter_def)

lemma keyed_Cons [simp]:
  "keyed key []"
  "keyed key (r # rows) \<longleftrightarrow> keyed key rows \<and> (\<forall>k. key r = Some k \<longrightarrow> (\<forall>q \<in> set rows. key q \<noteq> Some k))"
  by (auto simp: keyed_def List.map_filter_simps set_List_map_filter split: option.splits)

lemma lookup_by_Cons [simp]:
  "lookup_by key [] k = None"
  "lookup_by key (r # rows) k = (if key r = Some k then Some r else lookup_by key rows k)"
  by (simp_all add: lookup_by_def)

lemma lookup_by_Some: "lookup_by key rows k = Some r \<Longrightarrow> r \<in> set rows \<and> key r = Some k"
  by (induction rows) (auto split: if_splits)

lemma dom_lookup_by: "dom (lookup_by key rows) = {k. \<exists>r \<in> set rows. key r = Some k}"
  by (induction rows) (auto split: if_splits simp: dom_def)

lemma lookup_by_None: "lookup_by key rows k = None \<longleftrightarrow> (\<forall>r \<in> set rows. key r \<noteq> Some k)"
  using dom_lookup_by [of key rows] by auto

lemma finite_lookup_by: "finite (dom (lookup_by key rows))"
proof -
  have "dom (lookup_by key rows) = set (List.map_filter key rows)"
    by (auto simp: dom_lookup_by set_List_map_filter)
  then show ?thesis by simp
qed

lemma lookup_by_row:
  "keyed key rows \<Longrightarrow> r \<in> set rows \<Longrightarrow> key r = Some k \<Longrightarrow> lookup_by key rows k = Some r"
  by (induction rows) auto

lemma lookup_by_append:
  "lookup_by key (rows @ [r]) k =
     (case lookup_by key rows k of Some q \<Rightarrow> Some q | None \<Rightarrow> if key r = Some k then Some r else None)"
  by (induction rows) (auto split: option.splits)

lemma keyed_append:
  "keyed key (rows @ [r]) \<longleftrightarrow> keyed key rows \<and> (\<forall>q \<in> set rows. key r = Some k \<longrightarrow> key q \<noteq> Some k)"
  if "key r = Some k"
  using that by (induction rows) auto

lemma keyed_filter: "keyed key rows \<Longrightarrow> keyed key (filter p rows)"
  by (induction rows) auto

lemma lookup_by_filter:
  assumes "\<And>r l. key r = Some l \<Longrightarrow> p r \<longleftrightarrow> q l"
  shows "lookup_by key (filter p rows) k = (if q k then lookup_by key rows k else None)"
  using assms by (induction rows) (auto split: if_splits)

lemma keyed_count:
  assumes "keyed key rows" and "\<And>r. r \<in> set rows \<Longrightarrow> p r \<longleftrightarrow> (\<exists>k. key r = Some k \<and> q k)"
  shows "length (filter p rows) = card {k \<in> dom (lookup_by key rows). q k}"
  using assms
proof (induction rows)
  case (Cons r rows)
  let ?D = "{k \<in> dom (lookup_by key rows). q k}"
  have IH: "length (filter p rows) = card ?D" using Cons by simp
  show ?case
  proof (cases "p r")
    case True
    then obtain k where k: "key r = Some k" "q k" using Cons.prems(2) by auto
    have "k \<notin> ?D" using Cons.prems(1) k by (auto simp: dom_lookup_by)
    moreover have "{l \<in> dom (lookup_by key (r # rows)). q l} = insert k ?D"
      using k by (auto simp: dom_def)
    moreover have "finite ?D" using finite_lookup_by [of key rows] by simp
    ultimately show ?thesis using True IH by (simp del: lookup_by_Cons)
  next
    case False
    then have "{l \<in> dom (lookup_by key (r # rows)). q l} = ?D"
      using Cons.prems(2) by (auto simp: dom_def split: if_splits)
    with False IH show ?thesis by (simp del: lookup_by_Cons)
  qed
qed (simp add: dom_def)

lemma export_docs_ok:
  "export_docs key marshal rows = Inr docs \<Longrightarrow>
     map sd_Key docs = map key rows
     \<and> (\<forall>d \<in> set docs. \<exists>r \<in> set rows. sd_Key d = key r \<and> marshal r = Inr (sd_Data d))"
  by (induction rows arbitrary: docs) (auto split: sum.splits)

lemma export_docs_total:
  "(\<And>r. r \<in> set rows \<Longrightarrow> is_ok (marshal r)) \<Longrightarrow> is_ok (export_docs key marshal rows)"
proof (induction rows)
  case (Cons r rows)
  from Cons.prems [of r] obtain raw where "marshal r = Inr raw" by (auto simp: is_ok_def split: sum.splits)
  with Cons show ?case by (auto simp: is_ok_def split: sum.splits)
qed simp

text \<open>Rows of a range, ordered by a key that is unique, are the sorted keys of the range.\<close>

lemma order_limit_keys:
  assumes "keyed key rows" and "\<And>r. r \<in> set rows \<Longrightarrow> p r \<longleftrightarrow> (\<exists>k. key r = Some k \<and> q k)"
    and "\<And>r k. key r = Some k \<Longrightarrow> name r = k"
  shows "map name (order_limit name limit (filter p rows)) =
     take limit (sorted_list_of_set {k \<in> dom (lookup_by key rows). q k})"
proof -
  have names: "map name (filter p rows) = List.map_filter key (filter p rows)"
    using assms(2,3) by (induction rows) (auto simp: List.map_filter_simps)
  let ?names = "map name (sort_key name (filter p rows))"
  have "distinct (map name (filter p rows))"
    using keyed_filter [OF assms(1), of p] by (simp add: names keyed_def)
  then have "distinct ?names" by (simp add: distinct_map)
  moreover have "sorted ?names" by (rule sorted_sort_key)
  moreover have "set ?names = {k \<in> dom (lookup_by key rows). q k}"
    using assms(2,3) by (force simp: dom_lookup_by)
  ultimately have "sorted_list_of_set {k \<in> dom (lookup_by key rows). q k} = ?names"
    using sorted_list_of_set.idem_if_sorted_distinct by metis
  then show ?thesis by (simp add: order_limit_def take_map)
qed

subsection \<open>What an import stores\<close>

text \<open>\<open>rows'\<close> is \<open>rows\<close> after some of the documents have been stored or found present.\<close>

definition stored ::
  "('r \<Rightarrow> string option) \<Rightarrow> (bytes \<Rightarrow> 'r result) \<Rightarrow> ShardDocument list \<Rightarrow> 'r list \<Rightarrow> 'r list \<Rightarrow> bool" where
  "stored key decode docs rows rows' \<longleftrightarrow>
     keyed key rows'
     \<and> (\<forall>k. k \<notin> sd_Key ` set docs \<longrightarrow> lookup_by key rows' k = lookup_by key rows k)
     \<and> (\<forall>k. lookup_by key rows' k = lookup_by key rows k \<or> (\<exists>d \<in> set docs. \<exists>y. sd_Key d = k
          \<and> lookup_by key rows' k = Some y \<and> decode (sd_Data d) = Inr y))"

lemma stored_refl: "keyed key rows \<Longrightarrow> stored key decode docs rows rows"
  by (simp add: stored_def)

lemma stored_dom: "stored key decode docs rows rows' \<Longrightarrow> dom (lookup_by key rows) \<subseteq> dom (lookup_by key rows')"
  unfolding stored_def by (auto simp: dom_def) (metis option.distinct(1))

lemma stored_Cons:
  assumes "stored key decode [d] rows rows1" and "stored key decode docs rows1 rows2"
  shows "stored key decode (d # docs) rows rows2"
  unfolding stored_def
proof (intro conjI allI impI)
  fix k
  consider "lookup_by key rows2 k = lookup_by key rows1 k"
    | d' y where "d' \<in> set docs" "sd_Key d' = k" "lookup_by key rows2 k = Some y" "decode (sd_Data d') = Inr y"
    using assms(2) unfolding stored_def by blast
  then show "lookup_by key rows2 k = lookup_by key rows k \<or> (\<exists>d \<in> set (d # docs). \<exists>y. sd_Key d = k
          \<and> lookup_by key rows2 k = Some y \<and> decode (sd_Data d) = Inr y)"
  proof cases
    case 1
    then show ?thesis using assms(1) by (auto simp: stored_def)
  next
    case 2
    then show ?thesis by auto
  qed
qed (use assms in \<open>auto simp: stored_def\<close>)

lemma insert_row_stored:
  assumes "keyed key rows" and "decode (sd_Data d) = Inr r" and "key r = Some (sd_Key d)"
    and "\<And>q. key q = Some (name q)"
  shows "stored key decode [d] rows (insert_row name r rows)"
    and "sd_Key d \<in> dom (lookup_by key (insert_row name r rows))"
proof -
  have name: "name r = sd_Key d" using assms(3,4) by (metis option.inject)
  show "stored key decode [d] rows (insert_row name r rows)"
  proof (cases "name r \<in> name ` set rows")
    case True
    with assms(1) show ?thesis by (simp add: insert_row_def stored_refl)
  next
    case False
    then have "lookup_by key rows (sd_Key d) = None" "\<forall>q \<in> set rows. key q \<noteq> Some (sd_Key d)"
      using name assms(4) by (auto simp: lookup_by_None image_iff)
    with False assms name show ?thesis
      by (auto simp: insert_row_def stored_def lookup_by_append keyed_append split: option.splits)
  qed
  show "sd_Key d \<in> dom (lookup_by key (insert_row name r rows))"
    using name assms(4) by (auto simp: insert_row_def dom_lookup_by)
qed

lemma replace_one_stored:
  assumes "keyed key rows" and "decode (sd_Data d) = Inr r" and "key r = Some (sd_Key d)"
  shows "stored key decode [d] rows (replace_one (\<lambda>q. key q = Some (sd_Key d)) r rows)"
    and "sd_Key d \<in> dom (lookup_by key (replace_one (\<lambda>q. key q = Some (sd_Key d)) r rows))"
proof -
  let ?rows = "replace_one (\<lambda>q. key q = Some (sd_Key d)) r rows"
  have sub: "q \<in> set ?rows \<Longrightarrow> q = r \<or> q \<in> set rows" for q
    by (induction rows) (auto split: if_splits)
  have look: "lookup_by key ?rows k = (if k = sd_Key d then Some r else lookup_by key rows k)" for k
    using assms(3) by (induction rows) auto
  have "keyed key ?rows"
    using assms(1,3)
  proof (induction rows)
    case (Cons q rows)
    let ?rest = "replace_one (\<lambda>q. key q = Some (sd_Key d)) r rows"
    have "p \<in> set ?rest \<Longrightarrow> p = r \<or> p \<in> set rows" for p
      by (induction rows) (auto split: if_splits)
    then have "key p = Some k \<Longrightarrow> p \<in> set ?rest \<Longrightarrow> k = sd_Key d \<or> p \<in> set rows" for p k
      using Cons.prems(2) by fastforce
    with Cons show ?case by fastforce
  qed simp
  with assms look show "stored key decode [d] rows ?rows" by (auto simp: stored_def)
  show "sd_Key d \<in> dom (lookup_by key ?rows)" using look by auto
qed

subsection \<open>SQL backends keep the contract\<close>

definition sql_key :: "'v sql_codec \<Rightarrow> 'v SQLShardBackend \<Rightarrow> 'v sql_row \<Rightarrow> string option" where
  "sql_key cd b r = Some (row_key cd (sq_keyColumn b) r)"

definition sql_valid :: "'v sql_codec \<Rightarrow> 'v SQLShardBackend \<Rightarrow> bool" where
  "sql_valid cd b \<longleftrightarrow> keyed (sql_key cd b) (sq_rows b)"

definition sql_lookup :: "'v sql_codec \<Rightarrow> 'v SQLShardBackend \<Rightarrow> string \<Rightarrow> 'v sql_row option" where
  "sql_lookup cd b = lookup_by (sql_key cd b) (sq_rows b)"

definition sql_fits :: "'v sql_codec \<Rightarrow> 'v SQLShardBackend \<Rightarrow> ShardDocument \<Rightarrow> bool" where
  "sql_fits cd b d \<longleftrightarrow> (\<exists>r. import_fields cd (sd_Data d) = Inr r \<and> sql_key cd b r = Some (sd_Key d))"

lemma sql_import_docs_stored:
  assumes "keyed (sql_key cd b) rows" and "list_all (sql_fits cd b) docs"
    and "sql_import_docs cd fl (row_key cd (sq_keyColumn b)) i docs rows = Inr rows'"
  shows "stored (sql_key cd b) (import_fields cd) docs rows rows'
     \<and> sd_Key ` set docs \<subseteq> dom (lookup_by (sql_key cd b) rows')"
  using assms
proof (induction docs arbitrary: i rows)
  case (Cons d docs)
  obtain r where r: "import_fields cd (sd_Data d) = Inr r" "sql_key cd b r = Some (sd_Key d)"
    using Cons.prems(2) by (auto simp: sql_fits_def)
  let ?rows = "insert_row (row_key cd (sq_keyColumn b)) r rows"
  note ins = insert_row_stored [where key = "sql_key cd b" and decode = "import_fields cd"
      and name = "row_key cd (sq_keyColumn b)", OF Cons.prems(1) r sql_key_def]
  then have "keyed (sql_key cd b) ?rows" by (simp add: stored_def)
  moreover have "sql_import_docs cd fl (row_key cd (sq_keyColumn b)) (Suc i) docs ?rows = Inr rows'"
    using Cons.prems(3) r(1) by (simp split: option.splits)
  ultimately have rest: "stored (sql_key cd b) (import_fields cd) docs ?rows rows'"
    "sd_Key ` set docs \<subseteq> dom (lookup_by (sql_key cd b) rows')"
    using Cons by auto
  then show ?case using stored_Cons [OF ins(1) rest(1)] ins(2) stored_dom [OF rest(1)] by auto
qed (simp add: stored_refl)

lemma sql_key_update [simp]: "sql_key cd (b\<lparr>sq_rows := rows\<rparr>) = sql_key cd b"
  by (simp add: sql_key_def fun_eq_iff)

lemmas SQLShard_defs = SQLShard_ops_def SQL_ExportRange_def SQL_Import_def SQL_CountRange_def
  SQL_DeleteRange_def sql_valid_def sql_lookup_def sql_fits_def

lemma SQL_export_law:
  assumes b: "sql_valid cd b" and exp: "SQL_ExportRange cd fl start stop after limit b = Inr batch"
  shows "batch = make_batch limit (sb_Documents batch)"
    and "map sd_Key (sb_Documents batch) =
      take limit (sorted_list_of_set {k \<in> dom (sql_lookup cd b). in_shard start stop k \<and> after_ok after k})"
    and "\<forall>d \<in> set (sb_Documents batch). \<exists>x. sql_lookup cd b (sd_Key d) = Some x \<and> cd_Marshal cd x = Inr (sd_Data d)"
proof -
  let ?key = "row_key cd (sq_keyColumn b)" and ?k = "sql_key cd b"
  let ?q = "\<lambda>k. in_shard start stop k \<and> after_ok after k"
  let ?rows = "order_limit ?key limit (filter (\<lambda>r. ?q (?key r)) (sq_rows b))"
  obtain docs where docs: "export_docs ?key (cd_Marshal cd) ?rows = Inr docs" "batch = make_batch limit docs"
    using exp by (auto simp: SQL_ExportRange_def Let_def split: option.splits sum.splits)
  have keyed: "keyed ?k (sq_rows b)" using b by (simp add: sql_valid_def)
  have keys: "map ?key ?rows = take limit (sorted_list_of_set {k \<in> dom (lookup_by ?k (sq_rows b)). ?q k})"
    by (rule order_limit_keys [OF keyed]) (simp_all add: sql_key_def)
  have rows: "set ?rows \<subseteq> set (sq_rows b)"
    using order_limit_subset [of ?key limit "filter (\<lambda>r. ?q (?key r)) (sq_rows b)"] by auto
  note ok = export_docs_ok [OF docs(1)]
  show "batch = make_batch limit (sb_Documents batch)" by (simp add: docs(2) make_batch_def)
  show "map sd_Key (sb_Documents batch) = take limit (sorted_list_of_set {k \<in> dom (sql_lookup cd b). ?q k})"
    using ok keys by (simp add: docs(2) make_batch_def sql_lookup_def)
  show "\<forall>d \<in> set (sb_Documents batch). \<exists>x. sql_lookup cd b (sd_Key d) = Some x \<and> cd_Marshal cd x = Inr (sd_Data d)"
  proof
    fix d assume "d \<in> set (sb_Documents batch)"
    with ok obtain r where r: "r \<in> set ?rows" "sd_Key d = ?key r" "cd_Marshal cd r = Inr (sd_Data d)"
      by (auto simp: docs(2) make_batch_def)
    then have "lookup_by ?k (sq_rows b) (sd_Key d) = Some r"
      using rows by (intro lookup_by_row [OF keyed]) (auto simp: sql_key_def)
    with r(3) show "\<exists>x. sql_lookup cd b (sd_Key d) = Some x \<and> cd_Marshal cd x = Inr (sd_Data d)"
      by (simp add: sql_lookup_def)
  qed
qed

lemma SQL_import_law:
  assumes b: "sql_valid cd b" and fit: "list_all (sql_fits cd b) docs"
    and imp: "SQL_Import cd fl docs b = (res, b')"
  shows "sql_valid cd b' \<and> sql_fits cd b' = sql_fits cd b
     \<and> (\<forall>k. k \<notin> sd_Key ` set docs \<longrightarrow> sql_lookup cd b' k = sql_lookup cd b k)
     \<and> (\<forall>k. sql_lookup cd b' k = sql_lookup cd b k \<or> (\<exists>d \<in> set docs. \<exists>y. sd_Key d = k
            \<and> sql_lookup cd b' k = Some y \<and> import_fields cd (sd_Data d) = Inr y))
     \<and> (res = Inr () \<longrightarrow> sd_Key ` set docs \<subseteq> dom (sql_lookup cd b'))"
proof (cases res)
  case Inl
  with imp b show ?thesis
    by (auto simp: SQL_Import_def split: option.splits sum.splits)
next
  case (Inr u)
  then obtain rows where rows: "b' = b\<lparr>sq_rows := rows\<rparr>"
    "sql_import_docs cd fl (row_key cd (sq_keyColumn b)) 0 docs (sq_rows b) = Inr rows"
    using imp by (auto simp: SQL_Import_def split: option.splits sum.splits)
  have "keyed (sql_key cd b) (sq_rows b)" using b by (simp add: sql_valid_def)
  from sql_import_docs_stored [OF this fit rows(2)] rows(1) show ?thesis
    by (simp add: stored_def sql_valid_def sql_lookup_def sql_fits_def fun_eq_iff)
qed

lemma SQL_count_law:
  assumes "sql_valid cd b" and "SQL_CountRange cd fl start stop b = Inr n"
  shows "n = int (card {k \<in> dom (sql_lookup cd b). in_shard start stop k})"
  using assms keyed_count [of "sql_key cd b" "sq_rows b"
      "\<lambda>r. in_shard start stop (row_key cd (sq_keyColumn b) r)" "in_shard start stop"]
  by (auto simp: SQL_CountRange_def sql_count_def sql_valid_def sql_lookup_def sql_key_def split: option.splits)

lemma SQL_delete_law:
  assumes b: "sql_valid cd b" and "SQL_DeleteRange cd fl start stop b = (Inr (), b')"
  shows "sql_valid cd b' \<and> sql_fits cd b' = sql_fits cd b
     \<and> (\<forall>k. sql_lookup cd b' k = (if in_shard start stop k then None else sql_lookup cd b k))"
proof -
  let ?p = "\<lambda>r. \<not> in_shard start stop (row_key cd (sq_keyColumn b) r)"
  have "b' = b\<lparr>sq_rows := filter ?p (sq_rows b)\<rparr>"
    using assms(2) by (auto simp: SQL_DeleteRange_def split: option.splits)
  moreover have "lookup_by (sql_key cd b) (filter ?p (sq_rows b)) k =
      (if \<not> in_shard start stop k then lookup_by (sql_key cd b) (sq_rows b) k else None)" for k
    by (rule lookup_by_filter) (simp add: sql_key_def)
  ultimately show ?thesis
    using b by (simp add: sql_valid_def sql_lookup_def sql_fits_def fun_eq_iff keyed_filter)
qed

lemma SQLShard_ops_simps [simp]:
  "bk_ID (SQLShard_ops cd fl) = sq_id" "bk_ExportRange (SQLShard_ops cd fl) = SQL_ExportRange cd fl"
  "bk_Import (SQLShard_ops cd fl) = SQL_Import cd fl" "bk_CountRange (SQLShard_ops cd fl) = SQL_CountRange cd fl"
  "bk_DeleteRange (SQLShard_ops cd fl) = SQL_DeleteRange cd fl"
  by (simp_all add: SQLShard_ops_def)

lemma SQL_frame:
  "SQL_DeleteRange cd fl start stop b = (Inl e, b') \<Longrightarrow> b' = b"
  "SQL_DeleteRange cd fl start stop b = (res, b') \<Longrightarrow> sq_id b' = sq_id b"
  "SQL_Import cd fl docs b = (res, b') \<Longrightarrow> sq_id b' = sq_id b"
  by (auto simp: SQL_DeleteRange_def SQL_Import_def split: option.splits sum.splits)

interpretation sql: shard_backend "SQLShard_ops cd fl" "sql_valid cd" "sql_lookup cd" "cd_Marshal cd"
    "\<lambda>_. import_fields cd" "sql_fits cd"
proof (unfold_locales, unfold SQLShard_ops_simps)
  fix b :: "'a SQLShardBackend" and start stop after limit batch
  assume "sql_valid cd b" and "SQL_ExportRange cd fl start stop after limit b = Inr batch"
  from SQL_export_law [OF this] show "batch = make_batch limit (sb_Documents batch)
      \<and> map sd_Key (sb_Documents batch) = take limit (sorted_list_of_set
          {k \<in> dom (sql_lookup cd b). in_shard start stop k \<and> after_ok after k})
      \<and> (\<forall>d \<in> set (sb_Documents batch). \<exists>x. sql_lookup cd b (sd_Key d) = Some x
          \<and> cd_Marshal cd x = Inr (sd_Data d))" by (intro conjI)
next
  fix b docs res b'
  assume "sql_valid cd b" and "list_all (sql_fits cd b) docs" and "SQL_Import cd fl docs b = (res, b')"
  from SQL_import_law [OF this] show "sql_valid cd b' \<and> sql_fits cd b' = sql_fits cd b
     \<and> import_fields cd = import_fields cd
     \<and> (\<forall>k. k \<notin> sd_Key ` set docs \<longrightarrow> sql_lookup cd b' k = sql_lookup cd b k)
     \<and> (\<forall>k. sql_lookup cd b' k = sql_lookup cd b k \<or> (\<exists>d \<in> set docs. \<exists>y. sd_Key d = k
            \<and> sql_lookup cd b' k = Some y \<and> import_fields cd (sd_Data d) = Inr y))
     \<and> (res = Inr () \<longrightarrow> sd_Key ` set docs \<subseteq> dom (sql_lookup cd b'))" by simp
next
  fix b start stop b'
  assume "sql_valid cd b" and "SQL_DeleteRange cd fl start stop b = (Inr (), b')"
  from SQL_delete_law [OF this] show "sql_valid cd b' \<and> sql_fits cd b' = sql_fits cd b
     \<and> import_fields cd = import_fields cd
     \<and> (\<forall>k. sql_lookup cd b' k = (if in_shard start stop k then None else sql_lookup cd b k))" by simp
next
  show "finite (dom (sql_lookup cd b))" for b by (simp add: sql_lookup_def finite_lookup_by)
next
  fix b start stop n
  assume "sql_valid cd b" and "SQL_CountRange cd fl start stop b = Inr n"
  then show "n = int (card {k \<in> dom (sql_lookup cd b). in_shard start stop k})" by (rule SQL_count_law)
next
  fix b b' start stop e docs res
  show "SQL_DeleteRange cd fl start stop b = (Inl e, b') \<Longrightarrow> b' = b" by (rule SQL_frame(1))
  show "SQL_DeleteRange cd fl start stop b = (Inr (), b') \<Longrightarrow> sq_id b' = sq_id b" by (rule SQL_frame(2))
  show "SQL_Import cd fl docs b = (res, b') \<Longrightarrow> sq_id b' = sq_id b" by (rule SQL_frame(3))
qed

subsection \<open>MongoDB backends keep the contract\<close>

definition mongo_key :: "'d bson_codec \<Rightarrow> 'd MongoShardBackend \<Rightarrow> 'd \<Rightarrow> string option" where
  "mongo_key cd b = bc_Field cd (mo_keyField b)"

definition mongo_valid :: "'d bson_codec \<Rightarrow> 'd MongoShardBackend \<Rightarrow> bool" where
  "mongo_valid cd b \<longleftrightarrow> keyed (mongo_key cd b) (mo_docs b)"

definition mongo_lookup :: "'d bson_codec \<Rightarrow> 'd MongoShardBackend \<Rightarrow> string \<Rightarrow> 'd option" where
  "mongo_lookup cd b = lookup_by (mongo_key cd b) (mo_docs b)"

definition mongo_fits :: "'d bson_codec \<Rightarrow> 'd MongoShardBackend \<Rightarrow> ShardDocument \<Rightarrow> bool" where
  "mongo_fits cd b d \<longleftrightarrow>
     (\<exists>r. bc_UnmarshalExtJSON cd (sd_Data d) = Inr r \<and> mongo_key cd b r = Some (sd_Key d))"

lemma mongo_key_update [simp]: "mongo_key cd (b\<lparr>mo_docs := ds\<rparr>) = mongo_key cd b"
  by (simp add: mongo_key_def)

lemma Mongo_export_law:
  assumes b: "mongo_valid cd b" and exp: "Mongo_ExportRange cd fl start stop after limit b = Inr batch"
  shows "batch = make_batch limit (sb_Documents batch)"
    and "map sd_Key (sb_Documents batch) =
      take limit (sorted_list_of_set {k \<in> dom (mongo_lookup cd b). in_shard start stop k \<and> after_ok after k})"
    and "\<forall>d \<in> set (sb_Documents batch). \<exists>x. mongo_lookup cd b (sd_Key d) = Some x
      \<and> bc_MarshalExtJSON cd x = Inr (sd_Data d)"
proof -
  let ?key = "doc_key cd (mo_keyField b)" and ?k = "mongo_key cd b"
  let ?q = "\<lambda>k. in_shard start stop k \<and> after_ok after k"
  let ?p = "rangeFilter cd (mo_keyField b) start stop after"
  let ?rows = "order_limit ?key limit (filter ?p (mo_docs b))"
  obtain docs where docs: "export_docs ?key (bc_MarshalExtJSON cd) ?rows = Inr docs" "batch = make_batch limit docs"
    using exp by (auto simp: Mongo_ExportRange_def Let_def split: option.splits sum.splits)
  have keyed: "keyed ?k (mo_docs b)" using b by (simp add: mongo_valid_def)
  have p: "?p r \<longleftrightarrow> (\<exists>k. ?k r = Some k \<and> ?q k)" for r
    by (auto simp: rangeFilter_def mongo_key_def split: option.splits)
  have keys: "map ?key ?rows = take limit (sorted_list_of_set {k \<in> dom (lookup_by ?k (mo_docs b)). ?q k})"
    by (rule order_limit_keys [OF keyed p]) (simp add: mongo_key_def doc_key_def)
  have rows: "set ?rows \<subseteq> set (filter ?p (mo_docs b))" by (rule order_limit_subset)
  note ok = export_docs_ok [OF docs(1)]
  show "batch = make_batch limit (sb_Documents batch)" by (simp add: docs(2) make_batch_def)
  show "map sd_Key (sb_Documents batch) = take limit (sorted_list_of_set {k \<in> dom (mongo_lookup cd b). ?q k})"
    using ok keys by (simp add: docs(2) make_batch_def mongo_lookup_def)
  show "\<forall>d \<in> set (sb_Documents batch). \<exists>x. mongo_lookup cd b (sd_Key d) = Some x
      \<and> bc_MarshalExtJSON cd x = Inr (sd_Data d)"
  proof
    fix d assume "d \<in> set (sb_Documents batch)"
    with ok obtain r where r: "r \<in> set ?rows" "sd_Key d = ?key r" "bc_MarshalExtJSON cd r = Inr (sd_Data d)"
      by (auto simp: docs(2) make_batch_def)
    then have "?k r = Some (sd_Key d)" and "r \<in> set (mo_docs b)"
      using rows p by (auto simp: mongo_key_def doc_key_def)
    then have "lookup_by ?k (mo_docs b) (sd_Key d) = Some r" by (intro lookup_by_row [OF keyed])
    with r(3) show "\<exists>x. mongo_lookup cd b (sd_Key d) = Some x \<and> bc_MarshalExtJSON cd x = Inr (sd_Data d)"
      by (simp add: mongo_lookup_def)
  qed
qed

lemma mongo_import_docs_stored:
  assumes "keyed (mongo_key cd b) ds" and "list_all (mongo_fits cd b) docs"
    and "mongo_import_docs cd fl (mo_keyField b) i docs ds = (res, ds')"
  shows "stored (mongo_key cd b) (bc_UnmarshalExtJSON cd) docs ds ds'
     \<and> (res = Inr () \<longrightarrow> sd_Key ` set docs \<subseteq> dom (lookup_by (mongo_key cd b) ds'))"
  using assms
proof (induction docs arbitrary: i ds)
  case (Cons d docs)
  obtain r where r: "bc_UnmarshalExtJSON cd (sd_Data d) = Inr r" "mongo_key cd b r = Some (sd_Key d)"
    using Cons.prems(2) by (auto simp: mongo_fits_def)
  let ?ds = "replace_one (\<lambda>q. mongo_key cd b q = Some (sd_Key d)) r ds"
  note rep = replace_one_stored [where key = "mongo_key cd b" and decode = "bc_UnmarshalExtJSON cd",
      OF Cons.prems(1) r]
  show ?case
  proof (cases "fl (ImportRow i)")
    case None
    then have "mongo_import_docs cd fl (mo_keyField b) (Suc i) docs ?ds = (res, ds')"
      using Cons.prems(3) r by (simp add: mongo_key_def)
    moreover have "keyed (mongo_key cd b) ?ds" using rep(1) by (simp add: stored_def)
    moreover have "list_all (mongo_fits cd b) docs" using Cons.prems(2) by simp
    ultimately have rest: "stored (mongo_key cd b) (bc_UnmarshalExtJSON cd) docs ?ds ds'"
      "res = Inr () \<longrightarrow> sd_Key ` set docs \<subseteq> dom (lookup_by (mongo_key cd b) ds')"
      using Cons.IH by blast+
    then show ?thesis using stored_Cons [OF rep(1) rest(1)] rep(2) stored_dom [OF rest(1)] by auto
  next
    case (Some e)
    with Cons.prems r show ?thesis by (auto simp: mongo_key_def intro: stored_refl)
  qed
qed (simp add: stored_refl)

lemma Mongo_import_law:
  assumes b: "mongo_valid cd b" and fit: "list_all (mongo_fits cd b) docs"
    and imp: "Mongo_Import cd fl docs b = (res, b')"
  shows "mongo_valid cd b' \<and> mongo_fits cd b' = mongo_fits cd b
     \<and> (\<forall>k. k \<notin> sd_Key ` set docs \<longrightarrow> mongo_lookup cd b' k = mongo_lookup cd b k)
     \<and> (\<forall>k. mongo_lookup cd b' k = mongo_lookup cd b k \<or> (\<exists>d \<in> set docs. \<exists>y. sd_Key d = k
            \<and> mongo_lookup cd b' k = Some y \<and> bc_UnmarshalExtJSON cd (sd_Data d) = Inr y))
     \<and> (res = Inr () \<longrightarrow> sd_Key ` set docs \<subseteq> dom (mongo_lookup cd b'))"
proof -
  obtain ds where ds: "b' = b\<lparr>mo_docs := ds\<rparr>"
    "mongo_import_docs cd fl (mo_keyField b) 0 docs (mo_docs b) = (res, ds)"
    using imp by (auto simp: Mongo_Import_def split: prod.splits)
  have "keyed (mongo_key cd b) (mo_docs b)" using b by (simp add: mongo_valid_def)
  from mongo_import_docs_stored [OF this fit ds(2)] ds(1) show ?thesis
    by (simp add: stored_def mongo_valid_def mongo_lookup_def mongo_fits_def fun_eq_iff)
qed

lemma rangeFilter_all:
  "rangeFilter cd keyField start stop [] d \<longleftrightarrow> (\<exists>k. bc_Field cd keyField d = Some k \<and> in_shard start stop k)"
  by (auto simp: rangeFilter_def after_ok_def split: option.splits)

lemma Mongo_count_law:
  assumes "mongo_valid cd b" and "Mongo_CountRange cd fl start stop b = Inr n"
  shows "n = int (card {k \<in> dom (mongo_lookup cd b). in_shard start stop k})"
  using assms keyed_count [of "mongo_key cd b" "mo_docs b" "rangeFilter cd (mo_keyField b) start stop []"
      "in_shard start stop"]
  by (auto simp: Mongo_CountRange_def mongo_valid_def mongo_lookup_def mongo_key_def rangeFilter_all
      split: option.splits)

lemma Mongo_delete_law:
  assumes b: "mongo_valid cd b" and "Mongo_DeleteRange cd fl start stop b = (Inr (), b')"
  shows "mongo_valid cd b' \<and> mongo_fits cd b' = mongo_fits cd b
     \<and> (\<forall>k. mongo_lookup cd b' k = (if in_shard start stop k then None else mongo_lookup cd b k))"
proof -
  let ?p = "\<lambda>d. \<not> rangeFilter cd (mo_keyField b) start stop [] d"
  have "b' = b\<lparr>mo_docs := filter ?p (mo_docs b)\<rparr>"
    using assms(2) by (auto simp: Mongo_DeleteRange_def split: option.splits)
  moreover have "lookup_by (mongo_key cd b) (filter ?p (mo_docs b)) k =
      (if \<not> in_shard start stop k then lookup_by (mongo_key cd b) (mo_docs b) k else None)" for k
    by (rule lookup_by_filter) (simp add: mongo_key_def rangeFilter_all)
  ultimately show ?thesis
    using b by (simp add: mongo_valid_def mongo_lookup_def mongo_fits_def fun_eq_iff keyed_filter)
qed

lemma MongoShard_ops_simps [simp]:
  "bk_ID (MongoShard_ops cd fl) = mo_id" "bk_ExportRange (MongoShard_ops cd fl) = Mongo_ExportRange cd fl"
  "bk_Import (MongoShard_ops cd fl) = Mongo_Import cd fl"
  "bk_CountRange (MongoShard_ops cd fl) = Mongo_CountRange cd fl"
  "bk_DeleteRange (MongoShard_ops cd fl) = Mongo_DeleteRange cd fl"
  by (simp_all add: MongoShard_ops_def)

lemma Mongo_frame:
  "Mongo_DeleteRange cd fl start stop b = (Inl e, b') \<Longrightarrow> b' = b"
  "Mongo_DeleteRange cd fl start stop b = (res, b') \<Longrightarrow> mo_id b' = mo_id b"
  "Mongo_Import cd fl docs b = (res, b') \<Longrightarrow> mo_id b' = mo_id b"
  by (auto simp: Mongo_DeleteRange_def Mongo_Import_def split: option.splits prod.splits)

interpretation mongo: shard_backend "MongoShard_ops cd fl" "mongo_valid cd" "mongo_lookup cd"
    "bc_MarshalExtJSON cd" "\<lambda>_. bc_UnmarshalExtJSON cd" "mongo_fits cd"
proof (unfold_locales, unfold MongoShard_ops_simps)
  fix b :: "'a MongoShardBackend" and start stop after limit batch
  assume "mongo_valid cd b" and "Mongo_ExportRange cd fl start stop after limit b = Inr batch"
  from Mongo_export_law [OF this] show "batch = make_batch limit (sb_Documents batch)
      \<and> map sd_Key (sb_Documents batch) = take limit (sorted_list_of_set
          {k \<in> dom (mongo_lookup cd b). in_shard start stop k \<and> after_ok after k})
      \<and> (\<forall>d \<in> set (sb_Documents batch). \<exists>x. mongo_lookup cd b (sd_Key d) = Some x
          \<and> bc_MarshalExtJSON cd x = Inr (sd_Data d))" by (intro conjI)
next
  fix b docs res b'
  assume "mongo_valid cd b" and "list_all (mongo_fits cd b) docs" and "Mongo_Import cd fl docs b = (res, b')"
  from Mongo_import_law [OF this] show "mongo_valid cd b' \<and> mongo_fits cd b' = mongo_fits cd b
     \<and> bc_UnmarshalExtJSON cd = bc_UnmarshalExtJSON cd
     \<and> (\<forall>k. k \<notin> sd_Key ` set docs \<longrightarrow> mongo_lookup cd b' k = mongo_lookup cd b k)
     \<and> (\<forall>k. mongo_lookup cd b' k = mongo_lookup cd b k \<or> (\<exists>d \<in> set docs. \<exists>y. sd_Key d = k
            \<and> mongo_lookup cd b' k = Some y \<and> bc_UnmarshalExtJSON cd (sd_Data d) = Inr y))
     \<and> (res = Inr () \<longrightarrow> sd_Key ` set docs \<subseteq> dom (mongo_lookup cd b'))" by simp
next
  fix b start stop b'
  assume "mongo_valid cd b" and "Mongo_DeleteRange cd fl start stop b = (Inr (), b')"
  from Mongo_delete_law [OF this] show "mongo_valid cd b' \<and> mongo_fits cd b' = mongo_fits cd b
     \<and> bc_UnmarshalExtJSON cd = bc_UnmarshalExtJSON cd
     \<and> (\<forall>k. mongo_lookup cd b' k = (if in_shard start stop k then None else mongo_lookup cd b k))" by simp
next
  show "finite (dom (mongo_lookup cd b))" for b by (simp add: mongo_lookup_def finite_lookup_by)
next
  fix b start stop n
  assume "mongo_valid cd b" and "Mongo_CountRange cd fl start stop b = Inr n"
  then show "n = int (card {k \<in> dom (mongo_lookup cd b). in_shard start stop k})" by (rule Mongo_count_law)
next
  fix b b' start stop e docs res
  show "Mongo_DeleteRange cd fl start stop b = (Inl e, b') \<Longrightarrow> b' = b" by (rule Mongo_frame(1))
  show "Mongo_DeleteRange cd fl start stop b = (Inr (), b') \<Longrightarrow> mo_id b' = mo_id b" by (rule Mongo_frame(2))
  show "Mongo_Import cd fl docs b = (res, b') \<Longrightarrow> mo_id b' = mo_id b" by (rule Mongo_frame(3))
qed

subsection \<open>Backends of either kind\<close>

definition any_valid :: "'v sql_codec \<Rightarrow> 'd bson_codec \<Rightarrow> ('v, 'd) any_backend \<Rightarrow> bool" where
  "any_valid scd bcd = case_any_backend (sql_valid scd) (mongo_valid bcd)"

definition any_lookup ::
  "'v sql_codec \<Rightarrow> 'd bson_codec \<Rightarrow> ('v, 'd) any_backend \<Rightarrow> string \<Rightarrow> ('v sql_row + 'd) option" where
  "any_lookup scd bcd b k =
     (case b of SQLBackend s \<Rightarrow> map_option Inl (sql_lookup scd s k)
      | MongoBackend m \<Rightarrow> map_option Inr (mongo_lookup bcd m k))"

definition any_encode :: "'v sql_codec \<Rightarrow> 'd bson_codec \<Rightarrow> 'v sql_row + 'd \<Rightarrow> bytes result" where
  "any_encode scd bcd = case_sum (cd_Marshal scd) (bc_MarshalExtJSON bcd)"

definition any_decode ::
  "'v sql_codec \<Rightarrow> 'd bson_codec \<Rightarrow> ('v, 'd) any_backend \<Rightarrow> bytes \<Rightarrow> ('v sql_row + 'd) result" where
  "any_decode scd bcd b raw =
     (case b of SQLBackend _ \<Rightarrow> map_result Inl (import_fields scd raw)
      | MongoBackend _ \<Rightarrow> map_result Inr (bc_UnmarshalExtJSON bcd raw))"

definition any_fits :: "'v sql_codec \<Rightarrow> 'd bson_codec \<Rightarrow> ('v, 'd) any_backend \<Rightarrow> ShardDocument \<Rightarrow> bool" where
  "any_fits scd bcd = case_any_backend (sql_fits scd) (mongo_fits bcd)"

lemmas any_defs = any_valid_def any_lookup_def any_encode_def any_decode_def any_fits_def

lemma any_ops_SQL [simp]:
  "bk_ID (any_ops scd bcd fl) (SQLBackend s) = sq_id s"
  "bk_ExportRange (any_ops scd bcd fl) start stop after limit (SQLBackend s) =
     SQL_ExportRange scd fl start stop after limit s"
  "bk_Import (any_ops scd bcd fl) docs (SQLBackend s) = map_prod id SQLBackend (SQL_Import scd fl docs s)"
  "bk_CountRange (any_ops scd bcd fl) start stop (SQLBackend s) = SQL_CountRange scd fl start stop s"
  "bk_DeleteRange (any_ops scd bcd fl) start stop (SQLBackend s) =
     map_prod id SQLBackend (SQL_DeleteRange scd fl start stop s)"
  by (simp_all add: any_ops_def)

lemma any_ops_Mongo [simp]:
  "bk_ID (any_ops scd bcd fl) (MongoBackend m) = mo_id m"
  "bk_ExportRange (any_ops scd bcd fl) start stop after limit (MongoBackend m) =
     Mongo_ExportRange bcd fl start stop after limit m"
  "bk_Import (any_ops scd bcd fl) docs (MongoBackend m) = map_prod id MongoBackend (Mongo_Import bcd fl docs m)"
  "bk_CountRange (any_ops scd bcd fl) start stop (MongoBackend m) = Mongo_CountRange bcd fl start stop m"
  "bk_DeleteRange (any_ops scd bcd fl) start stop (MongoBackend m) =
     map_prod id MongoBackend (Mongo_DeleteRange bcd fl start stop m)"
  by (simp_all add: any_ops_def)

lemma dom_any_lookup [simp]:
  "dom (any_lookup scd bcd (SQLBackend s)) = dom (sql_lookup scd s)"
  "dom (any_lookup scd bcd (MongoBackend m)) = dom (mongo_lookup bcd m)"
  by (auto simp: any_lookup_def dom_def)

lemma map_prod_eq: "map_prod id f p = (r, y) \<longleftrightarrow> (\<exists>x. p = (r, x) \<and> y = f x)"
  by (cases p) auto

lemma any_export_law:
  assumes "any_valid scd bcd b" and "bk_ExportRange (any_ops scd bcd fl) start stop after limit b = Inr batch"
  shows "batch = make_batch limit (sb_Documents batch)
        \<and> map sd_Key (sb_Documents batch) = take limit (sorted_list_of_set
            {k \<in> dom (any_lookup scd bcd b). in_shard start stop k \<and> after_ok after k})
        \<and> (\<forall>d \<in> set (sb_Documents batch). \<exists>x. any_lookup scd bcd b (sd_Key d) = Some x
            \<and> any_encode scd bcd x = Inr (sd_Data d))"
proof (cases b)
  case (SQLBackend s)
  with assms show ?thesis
    using SQL_export_law [of scd s fl start stop after limit batch]
    by (simp add: any_valid_def) (fastforce simp: any_lookup_def any_encode_def)
next
  case (MongoBackend m)
  with assms show ?thesis
    using Mongo_export_law [of bcd m fl start stop after limit batch]
    by (simp add: any_valid_def) (fastforce simp: any_lookup_def any_encode_def)
qed

lemma any_import_law:
  assumes "any_valid scd bcd b" and "list_all (any_fits scd bcd b) docs"
    and "bk_Import (any_ops scd bcd fl) docs b = (res, b')"
  shows "any_valid scd bcd b' \<and> any_fits scd bcd b' = any_fits scd bcd b
        \<and> any_decode scd bcd b' = any_decode scd bcd b
        \<and> (\<forall>k. k \<notin> sd_Key ` set docs \<longrightarrow> any_lookup scd bcd b' k = any_lookup scd bcd b k)
        \<and> (\<forall>k. any_lookup scd bcd b' k = any_lookup scd bcd b k \<or> (\<exists>d \<in> set docs. \<exists>y. sd_Key d = k
              \<and> any_lookup scd bcd b' k = Some y \<and> any_decode scd bcd b (sd_Data d) = Inr y))
        \<and> (res = Inr () \<longrightarrow> sd_Key ` set docs \<subseteq> dom (any_lookup scd bcd b'))"
proof (cases b)
  case (SQLBackend s)
  then obtain s' where s': "b' = SQLBackend s'" "SQL_Import scd fl docs s = (res, s')"
    using assms(3) by (auto simp: map_prod_eq)
  have old: "sql_lookup scd s' k = sql_lookup scd s k \<or> (\<exists>d \<in> set docs. \<exists>y. sd_Key d = k
      \<and> sql_lookup scd s' k = Some y \<and> import_fields scd (sd_Data d) = Inr y)" for k
    using SQL_import_law [of scd s docs fl res s'] assms(1,2) SQLBackend s'(2)
    by (auto simp: any_valid_def any_fits_def)
  have "any_lookup scd bcd b' k = any_lookup scd bcd b k \<or> (\<exists>d \<in> set docs. \<exists>y. sd_Key d = k
      \<and> any_lookup scd bcd b' k = Some y \<and> any_decode scd bcd b (sd_Data d) = Inr y)" for k
    using old [of k] SQLBackend s'(1) by (auto simp: any_lookup_def any_decode_def map_result_def)
  moreover have "sql_valid scd s' \<and> sql_fits scd s' = sql_fits scd s
     \<and> (\<forall>k. k \<notin> sd_Key ` set docs \<longrightarrow> sql_lookup scd s' k = sql_lookup scd s k)
     \<and> (res = Inr () \<longrightarrow> sd_Key ` set docs \<subseteq> dom (sql_lookup scd s'))"
    using SQL_import_law [of scd s docs fl res s'] assms(1,2) SQLBackend s'(2)
    by (simp add: any_valid_def any_fits_def)
  ultimately show ?thesis
    using SQLBackend s'(1) by (auto simp: any_valid_def any_fits_def any_lookup_def any_decode_def fun_eq_iff)
next
  case (MongoBackend s)
  then obtain s' where s': "b' = MongoBackend s'" "Mongo_Import bcd fl docs s = (res, s')"
    using assms(3) by (auto simp: map_prod_eq)
  have old: "mongo_lookup bcd s' k = mongo_lookup bcd s k \<or> (\<exists>d \<in> set docs. \<exists>y. sd_Key d = k
      \<and> mongo_lookup bcd s' k = Some y \<and> bc_UnmarshalExtJSON bcd (sd_Data d) = Inr y)" for k
    using Mongo_import_law [of bcd s docs fl res s'] assms(1,2) MongoBackend s'(2)
    by (auto simp: any_valid_def any_fits_def)
  have "any_lookup scd bcd b' k = any_lookup scd bcd b k \<or> (\<exists>d \<in> set docs. \<exists>y. sd_Key d = k
      \<and> any_lookup scd bcd b' k = Some y \<and> any_decode scd bcd b (sd_Data d) = Inr y)" for k
    using old [of k] MongoBackend s'(1) by (auto simp: any_lookup_def any_decode_def map_result_def)
  moreover have "mongo_valid bcd s' \<and> mongo_fits bcd s' = mongo_fits bcd s
     \<and> (\<forall>k. k \<notin> sd_Key ` set docs \<longrightarrow> mongo_lookup bcd s' k = mongo_lookup bcd s k)
     \<and> (res = Inr () \<longrightarrow> sd_Key ` set docs \<subseteq> dom (mongo_lookup bcd s'))"
    using Mongo_import_law [of bcd s docs fl res s'] assms(1,2) MongoBackend s'(2)
    by (simp add: any_valid_def any_fits_def)
  ultimately show ?thesis
    using MongoBackend s'(1) by (auto simp: any_valid_def any_fits_def any_lookup_def any_decode_def fun_eq_iff)
qed

lemma any_count_law:
  assumes "any_valid scd bcd b" and "bk_CountRange (any_ops scd bcd fl) start stop b = Inr n"
  shows "n = int (card {k \<in> dom (any_lookup scd bcd b). in_shard start stop k})"
  using assms SQL_count_law [of scd _ fl start stop n] Mongo_count_law [of bcd _ fl start stop n]
  by (cases b) (simp_all add: any_valid_def)

lemma any_delete_law:
  assumes "any_valid scd bcd b" and "bk_DeleteRange (any_ops scd bcd fl) start stop b = (Inr (), b')"
  shows "any_valid scd bcd b' \<and> any_fits scd bcd b' = any_fits scd bcd b
        \<and> any_decode scd bcd b' = any_decode scd bcd b
        \<and> (\<forall>k. any_lookup scd bcd b' k = (if in_shard start stop k then None else any_lookup scd bcd b k))"
proof (cases b)
  case (SQLBackend s)
  with assms show ?thesis
    using SQL_delete_law [of scd s fl start stop]
    by (auto simp: any_valid_def any_fits_def any_lookup_def any_decode_def fun_eq_iff map_prod_eq)
next
  case (MongoBackend s)
  with assms show ?thesis
    using Mongo_delete_law [of bcd s fl start stop]
    by (auto simp: any_valid_def any_fits_def any_lookup_def any_decode_def fun_eq_iff map_prod_eq)
qed

interpretation backends: shard_backend "any_ops scd bcd fl" "any_valid scd bcd" "any_lookup scd bcd"
    "any_encode scd bcd" "any_decode scd bcd" "any_fits scd bcd"
proof
  fix b :: "('a, 'b) any_backend"
  show "finite (dom (any_lookup scd bcd b))"
    by (cases b) (simp_all add: sql.finite_keys mongo.finite_keys)
next
  fix b b' :: "('a, 'b) any_backend" and start stop e docs res
  show "bk_DeleteRange (any_ops scd bcd fl) start stop b = (Inl e, b') \<Longrightarrow> b' = b"
    by (cases b) (auto simp: map_prod_eq dest: SQL_frame(1) Mongo_frame(1))
  show "bk_Import (any_ops scd bcd fl) docs b = (res, b') \<Longrightarrow>
      bk_ID (any_ops scd bcd fl) b' = bk_ID (any_ops scd bcd fl) b"
    by (cases b) (auto simp: map_prod_eq dest: SQL_frame(3) Mongo_frame(3))
  show "bk_DeleteRange (any_ops scd bcd fl) start stop b = (Inr (), b') \<Longrightarrow>
      bk_ID (any_ops scd bcd fl) b' = bk_ID (any_ops scd bcd fl) b"
    by (cases b) (auto simp: map_prod_eq dest: SQL_frame(2) Mongo_frame(2))
qed (rule any_export_law, assumption+ | rule any_import_law, assumption+ | rule any_count_law, assumption+
    | rule any_delete_law, assumption+)+

definition no_backend_faults :: backend_faults where
  "no_backend_faults q = None"

lemma is_ok_iff: "is_ok r \<longleftrightarrow> (\<exists>x. r = Inr x)"
  by (cases r) auto

lemma SQL_export_ok:
  assumes "sql_valid cd b" and "\<And>k x. sql_lookup cd b k = Some x \<Longrightarrow> is_ok (cd_Marshal cd x)"
  shows "is_ok (SQL_ExportRange cd no_backend_faults start stop after limit b)"
proof -
  have "is_ok (cd_Marshal cd r)" if "r \<in> set (sq_rows b)" for r
  proof -
    have "keyed (sql_key cd b) (sq_rows b)" using assms(1) by (simp add: sql_valid_def)
    from lookup_by_row [OF this that] show ?thesis
      by (auto simp: sql_key_def sql_lookup_def intro!: assms(2))
  qed
  then have "is_ok (export_docs key (cd_Marshal cd) (order_limit key limit (filter p (sq_rows b))))" for key p
    using order_limit_subset [of key limit "filter p (sq_rows b)"] by (intro export_docs_total) auto
  then have "\<exists>docs. export_docs key (cd_Marshal cd) (order_limit key limit (filter p (sq_rows b))) = Inr docs" for key p
    by (simp add: is_ok_iff)
  from this [of "row_key cd (sq_keyColumn b)"
      "\<lambda>r. in_shard start stop (row_key cd (sq_keyColumn b) r) \<and> after_ok after (row_key cd (sq_keyColumn b) r)"]
  show ?thesis by (auto simp: SQL_ExportRange_def no_backend_faults_def)
qed

lemma Mongo_export_ok:
  assumes "mongo_valid cd b" and "\<And>k x. mongo_lookup cd b k = Some x \<Longrightarrow> is_ok (bc_MarshalExtJSON cd x)"
  shows "is_ok (Mongo_ExportRange cd no_backend_faults start stop after limit b)"
proof -
  let ?p = "rangeFilter cd (mo_keyField b) start stop after" and ?key = "doc_key cd (mo_keyField b)"
  have "is_ok (bc_MarshalExtJSON cd r)" if r: "r \<in> set (mo_docs b)" and p: "?p r" for r
  proof -
    obtain k where "mongo_key cd b r = Some k"
      using p by (auto simp: rangeFilter_def mongo_key_def split: option.splits)
    moreover have "keyed (mongo_key cd b) (mo_docs b)" using assms(1) by (simp add: mongo_valid_def)
    ultimately show ?thesis
      using lookup_by_row [OF _ r] assms(2) by (auto simp: mongo_lookup_def)
  qed
  then have "is_ok (export_docs ?key (bc_MarshalExtJSON cd) (order_limit ?key limit (filter ?p (mo_docs b))))"
    using order_limit_subset [of ?key limit "filter ?p (mo_docs b)"] by (intro export_docs_total) auto
  then show ?thesis
    by (auto simp: Mongo_ExportRange_def no_backend_faults_def is_ok_iff)
qed

lemma SQL_import_ok:
  assumes "list_all (sql_fits cd b) docs"
  shows "is_ok (fst (SQL_Import cd no_backend_faults docs b))"
proof -
  have "is_ok (sql_import_docs cd no_backend_faults key i docs rows)" for key i rows
    using assms by (induction docs arbitrary: i rows) (auto simp: sql_fits_def no_backend_faults_def)
  from this [of "row_key cd (sq_keyColumn b)" 0 "sq_rows b"]
  show ?thesis by (auto simp: SQL_Import_def no_backend_faults_def is_ok_iff)
qed

lemma Mongo_import_ok:
  assumes "list_all (mongo_fits cd b) docs"
  shows "is_ok (fst (Mongo_Import cd no_backend_faults docs b))"
proof -
  have "is_ok (fst (mongo_import_docs cd no_backend_faults (mo_keyField b) i docs ds))" for i ds
    using assms by (induction docs arbitrary: i ds) (auto simp: mongo_fits_def mongo_key_def no_backend_faults_def)
  then show ?thesis by (simp add: Mongo_Import_def case_prod_beta)
qed

interpretation healthy: healthy_backend "any_ops scd bcd no_backend_faults" "any_valid scd bcd"
    "any_lookup scd bcd" "any_encode scd bcd" "any_decode scd bcd" "any_fits scd bcd"
proof
  fix b :: "('a, 'b) any_backend" and start stop after limit docs
  show "list_all (any_fits scd bcd b) docs \<Longrightarrow> is_ok (fst (bk_Import (any_ops scd bcd no_backend_faults) docs b))"
    by (cases b) (simp_all add: any_fits_def SQL_import_ok Mongo_import_ok)
  show "is_ok (bk_CountRange (any_ops scd bcd no_backend_faults) start stop b)"
    by (cases b) (simp_all add: SQL_CountRange_def Mongo_CountRange_def no_backend_faults_def)
  assume v: "any_valid scd bcd b" and enc: "\<And>k x. any_lookup scd bcd b k = Some x \<Longrightarrow> is_ok (any_encode scd bcd x)"
  show "is_ok (bk_ExportRange (any_ops scd bcd no_backend_faults) start stop after limit b)"
  proof (cases b)
    case (SQLBackend s)
    have "sql_lookup scd s k = Some x \<Longrightarrow> is_ok (cd_Marshal scd x)" for k x
      using enc [of k "Inl x"] SQLBackend by (simp add: any_lookup_def any_encode_def)
    with v SQLBackend show ?thesis by (simp add: any_valid_def SQL_export_ok)
  next
    case (MongoBackend m)
    have "mongo_lookup bcd m k = Some x \<Longrightarrow> is_ok (bc_MarshalExtJSON bcd x)" for k x
      using enc [of k "Inr x"] MongoBackend by (simp add: any_lookup_def any_encode_def)
    with v MongoBackend show ?thesis by (simp add: any_valid_def Mongo_export_ok)
  qed
qed

end
