(* ===== verification/UbiQ_Shard.thy ===== *)
theory UbiQ_Shard
  imports UbiQ_ShardBackend
begin

text \<open>
  The shard coordinator (\<^verbatim>\<open>shard.go\<close>): its table of migrations and its operations, over any
  backends. An operation is one step; a failing statement changes nothing. The protocol of a
  migration is the relation \<open>migration_edge\<close>; what migrations do to the documents is proved
  inside the backends' contract and holds for the SQL and MongoDB backends by interpretation.
\<close>

section \<open>The coordinator\<close>

datatype MigrationState =
    MigrationPlanned | MigrationDualWrite | MigrationBackfill | MigrationVerify
  | MigrationCutover | MigrationComplete | MigrationRolledBack

record ShardMigration =
  mg_ID :: string
  mg_Source :: string
  mg_Destination :: string
  mg_RangeStart :: string
  mg_RangeEnd :: string
  mg_State :: MigrationState
  mg_Checkpoint :: string
  mg_UpdatedAtMS :: int

text \<open>
  The coordinator's state: the rows of \<^verbatim>\<open>shard_migrations\<close> and the registered backends. Different
  identifiers stand for different tables. The operations take the methods of the backends, the
  failures of the coordinator's own statements, and the clock.
\<close>

record 'b ShardCoordinator =
  sc_rows :: "ShardMigration list"
  sc_backends :: "string \<rightharpoonup> 'b"

datatype shard_stmt =
  MigrationCreateTable | MigrationInsert | MigrationSelect | MigrationUpdate | CheckpointUpdate | TargetsSelect

type_synonym shard_faults = "shard_stmt \<Rightarrow> go_error option"

text \<open>\<^verbatim>\<open>CREATE TABLE IF NOT EXISTS\<close> keeps the rows a database has.\<close>

definition NewShardCoordinator :: "shard_faults \<Rightarrow> ShardMigration list \<Rightarrow> 'b ShardCoordinator result" where
  "NewShardCoordinator db rows =
     (case db MigrationCreateTable of
        Some e \<Rightarrow> Inl e
      | None \<Rightarrow> Inr \<lparr>sc_rows = rows, sc_backends = Map.empty\<rparr>)"

definition Shard_Register ::
  "'b ShardBackend \<Rightarrow> 'b option \<Rightarrow> 'b ShardCoordinator \<Rightarrow> unit result \<times> 'b ShardCoordinator" where
  "Shard_Register ops b c =
     (case b of
        None \<Rightarrow> (Inl (errors_New ''backend id required''), c)
      | Some b \<Rightarrow>
          (if bk_ID ops b = [] then (Inl (errors_New ''backend id required''), c)
           else if sc_backends c (bk_ID ops b) \<noteq> None
             then (Inl (Errorf ''duplicate shard backend %q'' [bk_ID ops b]), c)
           else (Inr (), c\<lparr>sc_backends := (sc_backends c)(bk_ID ops b \<mapsto> b)\<rparr>)))"

definition Shard_backend :: "'b ShardCoordinator \<Rightarrow> string \<Rightarrow> 'b result" where
  "Shard_backend c i =
     (case sc_backends c i of
        None \<Rightarrow> Inl (Errorf ''unknown shard backend %q'' [i])
      | Some b \<Rightarrow> Inr b)"

definition Shard_Create ::
  "shard_faults \<Rightarrow> instant \<Rightarrow> ShardMigration \<Rightarrow> 'b ShardCoordinator \<Rightarrow> unit result \<times> 'b ShardCoordinator" where
  "Shard_Create db now m c =
     (if mg_ID m = [] \<or> mg_Source m = [] \<or> mg_Destination m = [] \<or> mg_Source m = mg_Destination m
      then (Inl (errors_New ''invalid migration''), c)
      else case Shard_backend c (mg_Source m) of
        Inl e \<Rightarrow> (Inl e, c)
      | Inr _ \<Rightarrow>
          (case Shard_backend c (mg_Destination m) of
             Inl e \<Rightarrow> (Inl e, c)
           | Inr _ \<Rightarrow>
               (case db MigrationInsert of
                  Some e \<Rightarrow> (Inl e, c)
                | None \<Rightarrow>
                    (if mg_ID m \<in> mg_ID ` set (sc_rows c)
                     then (Inl (LibError ''UNIQUE constraint failed: shard_migrations.id''), c)
                     else (Inr (), c\<lparr>sc_rows := sc_rows c @
                       [m\<lparr>mg_State := MigrationPlanned, mg_Checkpoint := [], mg_UpdatedAtMS := UnixMilli now\<rparr>]\<rparr>)))))"

definition Shard_Get :: "shard_faults \<Rightarrow> string \<Rightarrow> 'b ShardCoordinator \<Rightarrow> ShardMigration result" where
  "Shard_Get db i c =
     (case db MigrationSelect of
        Some e \<Rightarrow> Inl e
      | None \<Rightarrow>
          (case find (\<lambda>m. mg_ID m = i) (sc_rows c) of None \<Rightarrow> Inl ErrNoRows | Some m \<Rightarrow> Inr m))"

definition Shard_setState ::
  "shard_faults \<Rightarrow> instant \<Rightarrow> string \<Rightarrow> MigrationState list \<Rightarrow> MigrationState \<Rightarrow> string \<Rightarrow> 'b ShardCoordinator
    \<Rightarrow> unit result \<times> 'b ShardCoordinator" where
  "Shard_setState db now i allowed to checkpoint c =
     (case db MigrationUpdate of
        Some e \<Rightarrow> (Inl e, c)
      | None \<Rightarrow>
          let p = (\<lambda>m. mg_ID m = i \<and> mg_State m \<in> set allowed);
              c' = c\<lparr>sc_rows := sql_update p
                (\<lambda>m. m\<lparr>mg_State := to, mg_Checkpoint := checkpoint, mg_UpdatedAtMS := UnixMilli now\<rparr>) (sc_rows c)\<rparr> in
          if sql_count p (sc_rows c) \<noteq> 1 then (Inl (errors_New ''invalid migration transition''), c')
          else (Inr (), c'))"

definition EnableDualWrite ::
  "shard_faults \<Rightarrow> instant \<Rightarrow> string \<Rightarrow> 'b ShardCoordinator \<Rightarrow> unit result \<times> 'b ShardCoordinator" where
  "EnableDualWrite db now i = Shard_setState db now i [MigrationPlanned] MigrationDualWrite []"

definition BeginBackfill ::
  "shard_faults \<Rightarrow> instant \<Rightarrow> string \<Rightarrow> 'b ShardCoordinator \<Rightarrow> unit result \<times> 'b ShardCoordinator" where
  "BeginBackfill db now i = Shard_setState db now i [MigrationDualWrite] MigrationBackfill []"

definition update_backend :: "string \<Rightarrow> 'b \<Rightarrow> 'b ShardCoordinator \<Rightarrow> 'b ShardCoordinator" where
  "update_backend i b c = c\<lparr>sc_backends := (sc_backends c)(i \<mapsto> b)\<rparr>"

text \<open>An empty batch is not imported.\<close>

definition import_batch ::
  "'b ShardBackend \<Rightarrow> ShardDocument list \<Rightarrow> 'b \<Rightarrow> unit result \<times> 'b" where
  "import_batch ops docs dst = (if docs = [] then (Inr (), dst) else bk_Import ops docs dst)"

definition BackfillStep ::
  "'b ShardBackend \<Rightarrow> shard_faults \<Rightarrow> instant \<Rightarrow> string \<Rightarrow> int \<Rightarrow> 'b ShardCoordinator
    \<Rightarrow> bool result \<times> 'b ShardCoordinator" where
  "BackfillStep ops db now i limit c =
     (case Shard_Get db i c of
        Inl e \<Rightarrow> (Inl e, c)
      | Inr m \<Rightarrow>
          (if mg_State m \<noteq> MigrationBackfill then (Inl (errors_New ''migration is not in backfill''), c)
           else case Shard_backend c (mg_Source m) of
             Inl e \<Rightarrow> (Inl e, c)
           | Inr src \<Rightarrow>
               (case Shard_backend c (mg_Destination m) of
                  Inl e \<Rightarrow> (Inl e, c)
                | Inr dst \<Rightarrow>
                    (case bk_ExportRange ops (mg_RangeStart m) (mg_RangeEnd m) (mg_Checkpoint m)
                        (nat (if limit \<le> 0 then 500 else limit)) src of
                       Inl e \<Rightarrow> (Inl e, c)
                     | Inr batch \<Rightarrow>
                         (case import_batch ops (sb_Documents batch) dst of
                            (res, dst') \<Rightarrow>
                              let c1 = update_backend (mg_Destination m) dst' c in
                              case res of
                                Inl e \<Rightarrow> (Inl e, c1)
                              | Inr _ \<Rightarrow>
                                  if sb_Done batch then
                                    (case Shard_setState db now i [MigrationBackfill] MigrationVerify (sb_Next batch) c1 of
                                       (Inl e, c2) \<Rightarrow> (Inl e, c2)
                                     | (Inr _, c2) \<Rightarrow> (Inr True, c2))
                                  else
                                    (case db CheckpointUpdate of
                                       Some e \<Rightarrow> (Inl e, c1)
                                     | None \<Rightarrow>
                                         (Inr False, c1\<lparr>sc_rows := sql_update
                                            (\<lambda>m. mg_ID m = i \<and> mg_State m = MigrationBackfill)
                                            (\<lambda>m. m\<lparr>mg_Checkpoint := sb_Next batch, mg_UpdatedAtMS := UnixMilli now\<rparr>)
                                            (sc_rows c1)\<rparr>)))))))"

definition Shard_Verify ::
  "'b ShardBackend \<Rightarrow> shard_faults \<Rightarrow> instant \<Rightarrow> string \<Rightarrow> 'b ShardCoordinator
    \<Rightarrow> unit result \<times> 'b ShardCoordinator" where
  "Shard_Verify ops db now i c =
     (case Shard_Get db i c of
        Inl e \<Rightarrow> (Inl e, c)
      | Inr m \<Rightarrow>
          (if mg_State m \<noteq> MigrationVerify then (Inl (errors_New ''migration is not ready to verify''), c)
           else case Shard_backend c (mg_Source m) of
             Inl e \<Rightarrow> (Inl e, c)
           | Inr src \<Rightarrow>
               (case Shard_backend c (mg_Destination m) of
                  Inl e \<Rightarrow> (Inl e, c)
                | Inr dst \<Rightarrow>
                    (case bk_CountRange ops (mg_RangeStart m) (mg_RangeEnd m) src of
                       Inl e \<Rightarrow> (Inl e, c)
                     | Inr a \<Rightarrow>
                         (case bk_CountRange ops (mg_RangeStart m) (mg_RangeEnd m) dst of
                            Inl e \<Rightarrow> (Inl e, c)
                          | Inr b \<Rightarrow>
                              (if a \<noteq> b
                               then (Inl (Errorf ''verification failed: source=%d destination=%d'' [int_dec a, int_dec b]), c)
                               else Shard_setState db now i [MigrationVerify] MigrationCutover (mg_Checkpoint m) c))))))"

definition Shard_Complete ::
  "'b ShardBackend \<Rightarrow> shard_faults \<Rightarrow> instant \<Rightarrow> string \<Rightarrow> bool \<Rightarrow> 'b ShardCoordinator
    \<Rightarrow> unit result \<times> 'b ShardCoordinator" where
  "Shard_Complete ops db now i deleteSource c =
     (case Shard_Get db i c of
        Inl e \<Rightarrow> (Inl e, c)
      | Inr m \<Rightarrow>
          (if mg_State m \<noteq> MigrationCutover then (Inl (errors_New ''migration is not cut over''), c)
           else if \<not> deleteSource
             then Shard_setState db now i [MigrationCutover] MigrationComplete (mg_Checkpoint m) c
           else case Shard_backend c (mg_Source m) of
             Inl e \<Rightarrow> (Inl e, c)
           | Inr src \<Rightarrow>
               (case bk_DeleteRange ops (mg_RangeStart m) (mg_RangeEnd m) src of
                  (Inl e, src') \<Rightarrow> (Inl e, update_backend (mg_Source m) src' c)
                | (Inr _, src') \<Rightarrow>
                    Shard_setState db now i [MigrationCutover] MigrationComplete (mg_Checkpoint m)
                      (update_backend (mg_Source m) src' c))))"

definition Shard_Rollback ::
  "'b ShardBackend \<Rightarrow> shard_faults \<Rightarrow> instant \<Rightarrow> string \<Rightarrow> 'b ShardCoordinator
    \<Rightarrow> unit result \<times> 'b ShardCoordinator" where
  "Shard_Rollback ops db now i c =
     (case Shard_Get db i c of
        Inl e \<Rightarrow> (Inl e, c)
      | Inr m \<Rightarrow>
          (if mg_State m = MigrationCutover \<or> mg_State m = MigrationComplete
           then (Inl (errors_New ''cannot rollback after cutover''), c)
           else case Shard_backend c (mg_Destination m) of
             Inl e \<Rightarrow> (Inl e, c)
           | Inr dst \<Rightarrow>
               (case bk_DeleteRange ops (mg_RangeStart m) (mg_RangeEnd m) dst of
                  (Inl e, dst') \<Rightarrow> (Inl e, update_backend (mg_Destination m) dst' c)
                | (Inr _, dst') \<Rightarrow>
                    Shard_setState db now i
                      [MigrationPlanned, MigrationDualWrite, MigrationBackfill, MigrationVerify]
                      MigrationRolledBack (mg_Checkpoint m) (update_backend (mg_Destination m) dst' c))))"

text \<open>The shards one migration sends a write of the key to, and the sorted union over the migrations.\<close>

definition write_targets :: "ShardMigration \<Rightarrow> string \<Rightarrow> string list" where
  "write_targets m key =
     (if key < mg_RangeStart m \<or> mg_RangeEnd m \<le> key then []
      else case mg_State m of
        MigrationPlanned \<Rightarrow> [mg_Source m]
      | MigrationDualWrite \<Rightarrow> [mg_Source m, mg_Destination m]
      | MigrationBackfill \<Rightarrow> [mg_Source m, mg_Destination m]
      | MigrationVerify \<Rightarrow> [mg_Source m, mg_Destination m]
      | MigrationCutover \<Rightarrow> [mg_Destination m]
      | MigrationComplete \<Rightarrow> [mg_Destination m]
      | MigrationRolledBack \<Rightarrow> [])"

definition TargetsForWrite :: "shard_faults \<Rightarrow> string \<Rightarrow> 'b ShardCoordinator \<Rightarrow> string list result" where
  "TargetsForWrite db key c =
     (case db TargetsSelect of
        Some e \<Rightarrow> Inl e
      | None \<Rightarrow>
          Inr (sort (remdups (concat (map (\<lambda>m. write_targets m key)
            (filter (\<lambda>m. mg_State m \<noteq> MigrationRolledBack) (sc_rows c)))))))"

interpretation shard_registry: name_registry "bk_ID ops" "Shard_Register ops" Shard_backend
proof unfold_locales
  fix a r r' n
  assume reg: "Shard_Register ops (Some a) r = (Inr (), r')"
  then show "Shard_backend r' n = (if n = bk_ID ops a then Inr a else Shard_backend r n)"
    by (auto simp: Shard_Register_def Shard_backend_def split: if_splits)
  from reg show "\<not> is_ok (Shard_backend r (bk_ID ops a))"
    by (auto simp: Shard_Register_def Shard_backend_def split: if_splits option.splits)
next
  show "\<not> is_ok (fst (Shard_Register ops None r))" for r by (simp add: Shard_Register_def)
  show "Shard_Register ops x r = (Inl e, r') \<Longrightarrow> r' = r" for x r e r'
    by (auto simp: Shard_Register_def split: option.splits if_splits)
qed

section \<open>Runs of the coordinator\<close>

datatype 'b shard_op =
    OpRegister "'b option" | OpCreate ShardMigration | OpDualWrite string | OpBackfill string
  | OpStep string int | OpVerify string | OpComplete string bool | OpRollback string

fun shard_apply ::
  "'b ShardBackend \<Rightarrow> shard_faults \<Rightarrow> instant \<Rightarrow> 'b shard_op \<Rightarrow> 'b ShardCoordinator \<Rightarrow> 'b ShardCoordinator" where
  "shard_apply ops db now (OpRegister b) c = snd (Shard_Register ops b c)"
| "shard_apply ops db now (OpCreate m) c = snd (Shard_Create db now m c)"
| "shard_apply ops db now (OpDualWrite i) c = snd (EnableDualWrite db now i c)"
| "shard_apply ops db now (OpBackfill i) c = snd (BeginBackfill db now i c)"
| "shard_apply ops db now (OpStep i limit) c = snd (BackfillStep ops db now i limit c)"
| "shard_apply ops db now (OpVerify i) c = snd (Shard_Verify ops db now i c)"
| "shard_apply ops db now (OpComplete i deleteSource) c = snd (Shard_Complete ops db now i deleteSource c)"
| "shard_apply ops db now (OpRollback i) c = snd (Shard_Rollback ops db now i c)"

inductive shard_trans :: "'b ShardCoordinator \<Rightarrow> 'b ShardCoordinator \<Rightarrow> bool" where
  "shard_trans c (shard_apply ops db now op c)"

inductive_cases shard_transE: "shard_trans c c'"

definition shard_init :: "'b ShardCoordinator \<Rightarrow> bool" where
  "shard_init c \<longleftrightarrow> (\<exists>db. NewShardCoordinator db [] = Inr c)"

subsection \<open>The migration protocol\<close>

text \<open>The moves a migration makes, whoever asks for them.\<close>

inductive migration_edge :: "MigrationState \<Rightarrow> MigrationState \<Rightarrow> bool" where
  "migration_edge MigrationPlanned MigrationDualWrite"
| "migration_edge MigrationDualWrite MigrationBackfill"
| "migration_edge MigrationBackfill MigrationVerify"
| "migration_edge MigrationVerify MigrationCutover"
| "migration_edge MigrationCutover MigrationComplete"
| "s \<in> {MigrationPlanned, MigrationDualWrite, MigrationBackfill, MigrationVerify} \<Longrightarrow>
     migration_edge s MigrationRolledBack"

inductive_cases migration_edgeE: "migration_edge s t"

inductive_simps migration_edge_final:
  "migration_edge MigrationComplete t" "migration_edge MigrationRolledBack t"

definition same_migration :: "ShardMigration \<Rightarrow> ShardMigration \<Rightarrow> bool" where
  "same_migration m n \<longleftrightarrow>
     mg_ID n = mg_ID m \<and> mg_Source n = mg_Source m \<and> mg_Destination n = mg_Destination m
     \<and> mg_RangeStart n = mg_RangeStart m \<and> mg_RangeEnd n = mg_RangeEnd m"

definition migration_moves :: "ShardMigration \<Rightarrow> ShardMigration \<Rightarrow> bool" where
  "migration_moves m n \<longleftrightarrow>
     same_migration m n \<and> (mg_State n = mg_State m \<or> migration_edge (mg_State m) (mg_State n))"

lemma migration_moves_refl [simp]: "migration_moves m m"
  by (simp add: migration_moves_def same_migration_def)

text \<open>What any operation does to the table: nothing, one new planned row, or moves of its rows.\<close>

definition table_effect :: "ShardMigration list \<Rightarrow> ShardMigration list \<Rightarrow> bool" where
  "table_effect rows rows' \<longleftrightarrow>
     (\<exists>p f. rows' = sql_update p f rows \<and> (\<forall>m. p m \<longrightarrow> migration_moves m (f m)))
     \<or> (\<exists>m. rows' = rows @ [m] \<and> mg_ID m \<notin> mg_ID ` set rows \<and> mg_ID m \<noteq> []
          \<and> mg_Source m \<noteq> mg_Destination m \<and> mg_State m = MigrationPlanned)"

lemma table_effect_refl [simp]: "table_effect rows rows"
  unfolding table_effect_def by (intro disjI1 exI [of _ "\<lambda>_. False"]) (simp add: sql_update_def)

lemma setState_backends [simp]:
  "sc_backends (snd (Shard_setState db now i allowed to cp c)) = sc_backends c"
  by (simp add: Shard_setState_def Let_def split: option.splits)

lemma setState_effect:
  assumes "\<And>s. s \<in> set allowed \<Longrightarrow> migration_edge s to"
  shows "table_effect (sc_rows c) (sc_rows (snd (Shard_setState db now i allowed to cp c)))"
proof (cases "db MigrationUpdate")
  case None
  let ?p = "\<lambda>m. mg_ID m = i \<and> mg_State m \<in> set allowed"
  let ?f = "\<lambda>m. m\<lparr>mg_State := to, mg_Checkpoint := cp, mg_UpdatedAtMS := UnixMilli now\<rparr>"
  have "sc_rows (snd (Shard_setState db now i allowed to cp c)) = sql_update ?p ?f (sc_rows c)"
    using None by (simp add: Shard_setState_def Let_def)
  moreover have "?p m \<Longrightarrow> migration_moves m (?f m)" for m
    using assms by (simp add: migration_moves_def same_migration_def)
  ultimately show ?thesis unfolding table_effect_def by blast
qed (simp add: Shard_setState_def)

lemma update_backend_simps [simp]:
  "sc_rows (update_backend i b c) = sc_rows c"
  "sc_backends (update_backend i b c) = (sc_backends c)(i \<mapsto> b)"
  by (simp_all add: update_backend_def)

lemma setState_effect_update:
  assumes "\<And>s. s \<in> set allowed \<Longrightarrow> migration_edge s to"
  shows "table_effect (sc_rows c) (sc_rows (snd (Shard_setState db now i allowed to cp (update_backend j b c))))"
  using setState_effect [where c = "update_backend j b c", OF assms] by simp

lemma checkpoint_effect:
  "table_effect rows (sql_update (\<lambda>m. mg_ID m = i \<and> mg_State m = s)
     (\<lambda>m. m\<lparr>mg_Checkpoint := cp, mg_UpdatedAtMS := t\<rparr>) rows)"
  unfolding table_effect_def
  by (intro disjI1 exI conjI, rule refl) (simp add: migration_moves_def same_migration_def)

lemmas edge_effects =
  setState_effect [where allowed = "[MigrationPlanned]" and to = MigrationDualWrite]
  setState_effect [where allowed = "[MigrationDualWrite]" and to = MigrationBackfill]
  setState_effect [where allowed = "[MigrationVerify]" and to = MigrationCutover]
  setState_effect [where allowed = "[MigrationCutover]" and to = MigrationComplete]
  setState_effect_update [where allowed = "[MigrationBackfill]" and to = MigrationVerify]
  setState_effect_update [where allowed = "[MigrationCutover]" and to = MigrationComplete]
  setState_effect_update [where to = MigrationRolledBack and
      allowed = "[MigrationPlanned, MigrationDualWrite, MigrationBackfill, MigrationVerify]"]

lemmas edge_rules = edge_effects [simplified migration_edge.simps, simplified]

lemma setState_pair:
  "Shard_setState db now i allowed to cp c = (r, c') \<Longrightarrow> c' = snd (Shard_setState db now i allowed to cp c)"
  by simp

lemma BackfillStep_effect: "table_effect (sc_rows c) (sc_rows (snd (BackfillStep ops db now i limit c)))"
  unfolding BackfillStep_def Let_def
  by (auto split: sum.splits prod.splits option.splits intro: checkpoint_effect edge_rules
      dest!: setState_pair)

lemma shard_apply_effect: "table_effect (sc_rows c) (sc_rows (shard_apply ops db now op c))"
proof (cases op)
  case (OpCreate m)
  have "table_effect rows (rows @ [n])"
    if "mg_ID n \<notin> mg_ID ` set rows" "mg_ID n \<noteq> []" "mg_Source n \<noteq> mg_Destination n" "mg_State n = MigrationPlanned"
    for rows n
    using that unfolding table_effect_def by blast
  with OpCreate show ?thesis by (auto simp: Shard_Create_def split: sum.splits option.splits)
next
  case (OpStep i limit)
  then show ?thesis by (simp add: BackfillStep_effect)
qed (auto simp: Shard_Register_def EnableDualWrite_def BeginBackfill_def Shard_Verify_def Shard_Complete_def
    Shard_Rollback_def edge_rules split: option.splits sum.splits prod.splits)

definition migrations_inv :: "'b ShardCoordinator \<Rightarrow> bool" where
  "migrations_inv c \<longleftrightarrow> distinct (map mg_ID (sc_rows c))
     \<and> (\<forall>m \<in> set (sc_rows c). mg_ID m \<noteq> [] \<and> mg_Source m \<noteq> mg_Destination m)"

text \<open>Every migration is still there, under its identity, at a later or equal stage.\<close>

definition migrations_le :: "'b ShardCoordinator \<Rightarrow> 'b ShardCoordinator \<Rightarrow> bool" where
  "migrations_le c d \<longleftrightarrow> (\<forall>m \<in> set (sc_rows c). \<exists>n \<in> set (sc_rows d).
     same_migration m n \<and> rtranclp migration_edge (mg_State m) (mg_State n))"

lemma effect_rows:
  assumes "table_effect rows rows'" and "m \<in> set rows"
  shows "\<exists>n \<in> set rows'. migration_moves m n"
  using assms(1) unfolding table_effect_def
proof (elim disjE exE conjE)
  fix p f assume "rows' = sql_update p f rows" and "\<forall>m. p m \<longrightarrow> migration_moves m (f m)"
  with assms(2) show ?thesis
    by (intro bexI [of _ "if p m then f m else m"]) (auto simp: sql_update_def)
qed (use assms(2) in \<open>auto intro: migration_moves_refl\<close>)

lemma effect_inv:
  assumes "table_effect rows rows'" and "distinct (map mg_ID rows)"
    and "\<forall>m \<in> set rows. mg_ID m \<noteq> [] \<and> mg_Source m \<noteq> mg_Destination m"
  shows "distinct (map mg_ID rows')
     \<and> (\<forall>m \<in> set rows'. mg_ID m \<noteq> [] \<and> mg_Source m \<noteq> mg_Destination m)"
  using assms(1) unfolding table_effect_def
proof (elim disjE exE conjE)
  fix p f assume rows': "rows' = sql_update p f rows" and moves: "\<forall>m. p m \<longrightarrow> migration_moves m (f m)"
  have "map mg_ID rows' = map mg_ID rows"
    unfolding rows' using moves by (auto simp: sql_update_def migration_moves_def same_migration_def)
  moreover have "\<forall>m \<in> set rows'. mg_ID m \<noteq> [] \<and> mg_Source m \<noteq> mg_Destination m"
    unfolding rows' using moves assms(3)
    by (auto simp: sql_update_def migration_moves_def same_migration_def)
  ultimately show ?thesis using assms(2) by simp
qed (use assms(2,3) in auto)

lemma migrations_le_trans:
  assumes "migrations_le s t" and "migrations_le t u"
  shows "migrations_le s u"
  unfolding migrations_le_def
proof
  fix m assume "m \<in> set (sc_rows s)"
  then obtain n where n: "n \<in> set (sc_rows t)" "same_migration m n"
    "rtranclp migration_edge (mg_State m) (mg_State n)"
    using assms(1) unfolding migrations_le_def by blast
  then obtain k where "k \<in> set (sc_rows u)" "same_migration n k"
    "rtranclp migration_edge (mg_State n) (mg_State k)"
    using assms(2) unfolding migrations_le_def by blast
  with n show "\<exists>k \<in> set (sc_rows u). same_migration m k \<and> rtranclp migration_edge (mg_State m) (mg_State k)"
    by (intro bexI [of _ k]) (auto simp: same_migration_def)
qed

lemma migrations_le_refl: "migrations_le s s"
  unfolding migrations_le_def same_migration_def by blast

lemma shard_trans_rows: "shard_trans s t \<Longrightarrow> table_effect (sc_rows s) (sc_rows t)"
  by (induction rule: shard_trans.induct) (rule shard_apply_effect)

lemma shard_trans_inv: "migrations_inv s \<Longrightarrow> shard_trans s t \<Longrightarrow> migrations_inv t"
  using effect_inv [OF shard_trans_rows] unfolding migrations_inv_def by blast

lemma shard_trans_le: "shard_trans s t \<Longrightarrow> migrations_le s t"
  unfolding migrations_le_def
proof
  fix m assume "shard_trans s t" and "m \<in> set (sc_rows s)"
  then obtain n where "n \<in> set (sc_rows t)" "migration_moves m n"
    using effect_rows [OF shard_trans_rows] by blast
  then show "\<exists>n \<in> set (sc_rows t). same_migration m n \<and> rtranclp migration_edge (mg_State m) (mg_State n)"
    unfolding migration_moves_def by auto
qed

lemma shard_init_inv: "shard_init s \<Longrightarrow> migrations_inv s"
  by (auto simp: shard_init_def NewShardCoordinator_def migrations_inv_def split: option.splits)

interpretation shards: progress_system shard_init shard_trans migrations_inv migrations_le
  by unfold_locales
    (rule shard_init_inv shard_trans_inv migrations_le_refl migrations_le_trans shard_trans_le; assumption)+

lemma final_states:
  "rtranclp migration_edge s t \<Longrightarrow> s \<in> {MigrationComplete, MigrationRolledBack} \<Longrightarrow> t = s"
  by (induction rule: rtranclp_induct) (auto simp: migration_edge_final)

text \<open>
  C18: Migrations follow their protocol. In every reachable coordinator, whatever the backends do
  and whichever statements fail, an operation leaves each migration in place, under the same
  identifier, source, destination and range, and moves it at most along one edge of the protocol;
  in every later state it is at a stage reachable from the present one, and a completed or rolled
  back migration stays as it is.
\<close>

theorem migration_protocol:
  assumes "reachable shard_init shard_trans s" and "m \<in> set (sc_rows s)"
  shows "(shard_trans s t \<longrightarrow> (\<exists>n \<in> set (sc_rows t). migration_moves m n
            \<and> (\<forall>n' \<in> set (sc_rows t). mg_ID n' = mg_ID m \<longrightarrow> n' = n)))
     \<and> (rtranclp shard_trans s u \<longrightarrow> (\<exists>n \<in> set (sc_rows u). same_migration m n
            \<and> rtranclp migration_edge (mg_State m) (mg_State n)
            \<and> (mg_State m \<in> {MigrationComplete, MigrationRolledBack} \<longrightarrow> mg_State n = mg_State m)))"
proof (intro conjI impI)
  note inv = shards.inv_reachable [OF assms(1)]
  assume st: "shard_trans s t"
  then obtain n where n: "n \<in> set (sc_rows t)" "migration_moves m n"
    using effect_rows [OF shard_trans_rows assms(2)] by blast
  have "distinct (map mg_ID (sc_rows t))"
    using shards.inv_step [OF inv st] by (simp add: migrations_inv_def)
  from distinct_key_eq [OF this _ n(1)] n
  show "\<exists>n \<in> set (sc_rows t). migration_moves m n \<and> (\<forall>n' \<in> set (sc_rows t). mg_ID n' = mg_ID m \<longrightarrow> n' = n)"
    by (auto simp: migration_moves_def same_migration_def)
next
  assume "rtranclp shard_trans s u"
  from shards.le_steps [OF this shards.inv_reachable [OF assms(1)]] assms(2)
  obtain n where "n \<in> set (sc_rows u)" "same_migration m n" "rtranclp migration_edge (mg_State m) (mg_State n)"
    by (auto simp: migrations_le_def)
  with final_states show "\<exists>n \<in> set (sc_rows u). same_migration m n
      \<and> rtranclp migration_edge (mg_State m) (mg_State n)
      \<and> (mg_State m \<in> {MigrationComplete, MigrationRolledBack} \<longrightarrow> mg_State n = mg_State m)" by blast
qed

section \<open>What happens to the documents\<close>

lemma Shard_Get_ok:
  "Shard_Get db i c = Inr m \<Longrightarrow> m \<in> set (sc_rows c) \<and> mg_ID m = i"
  by (auto simp: Shard_Get_def find_Some_iff split: option.splits)

lemma Shard_backend_ok: "Shard_backend c i = Inr b \<longleftrightarrow> sc_backends c i = Some b"
  by (auto simp: Shard_backend_def split: option.splits)

lemma Shard_backend_unknown: "Shard_backend c i = Inl e \<Longrightarrow> sc_backends c i = None"
  by (auto simp: Shard_backend_def split: option.splits)

lemma setState_backends_pair:
  "Shard_setState db now i allowed to cp c = (r, c') \<Longrightarrow> sc_backends c' = sc_backends c"
  using setState_backends [of db now i allowed to cp c] by simp

text \<open>Which backend an operation writes to, and how.\<close>

lemma BackfillStep_backends:
  "sc_backends (snd (BackfillStep ops db now i limit c)) = sc_backends c
   \<or> (\<exists>m src dst batch res dst'. m \<in> set (sc_rows c) \<and> mg_ID m = i \<and> mg_State m = MigrationBackfill
        \<and> sc_backends c (mg_Source m) = Some src \<and> sc_backends c (mg_Destination m) = Some dst
        \<and> bk_ExportRange ops (mg_RangeStart m) (mg_RangeEnd m) (mg_Checkpoint m)
            (nat (if limit \<le> 0 then 500 else limit)) src = Inr batch
        \<and> import_batch ops (sb_Documents batch) dst = (res, dst')
        \<and> sc_backends (snd (BackfillStep ops db now i limit c)) = (sc_backends c)(mg_Destination m \<mapsto> dst'))"
proof (cases "Shard_Get db i c")
  case (Inr m)
  note m = Shard_Get_ok [OF Inr]
  show ?thesis
  proof (cases "mg_State m = MigrationBackfill")
    case st: True
    show ?thesis
    proof (cases "Shard_backend c (mg_Source m)")
      case src: (Inr src)
      show ?thesis
      proof (cases "Shard_backend c (mg_Destination m)")
        case dst: (Inr dst)
        show ?thesis
        proof (cases "bk_ExportRange ops (mg_RangeStart m) (mg_RangeEnd m) (mg_Checkpoint m)
            (nat (if limit \<le> 0 then 500 else limit)) src")
          case batch: (Inr batch)
          obtain res dst' where imp: "import_batch ops (sb_Documents batch) dst = (res, dst')" by fastforce
          have "sc_backends (snd (BackfillStep ops db now i limit c)) = (sc_backends c)(mg_Destination m \<mapsto> dst')"
            by (auto simp: BackfillStep_def Inr st src dst batch imp Let_def split: sum.splits option.splits prod.splits
                dest: setState_backends_pair)
          with m st src dst batch imp show ?thesis by (auto simp: Shard_backend_ok)
        qed (simp add: BackfillStep_def Inr st src dst)
      qed (simp add: BackfillStep_def Inr st src)
    qed (simp add: BackfillStep_def Inr st)
  qed (simp add: BackfillStep_def Inr)
qed (simp add: BackfillStep_def)

lemma Complete_backends:
  "sc_backends (snd (Shard_Complete ops db now i deleteSource c)) = sc_backends c
   \<or> (\<exists>m src res src'. m \<in> set (sc_rows c) \<and> mg_ID m = i \<and> mg_State m = MigrationCutover \<and> deleteSource
        \<and> sc_backends c (mg_Source m) = Some src
        \<and> bk_DeleteRange ops (mg_RangeStart m) (mg_RangeEnd m) src = (res, src')
        \<and> sc_backends (snd (Shard_Complete ops db now i deleteSource c)) = (sc_backends c)(mg_Source m \<mapsto> src'))"
proof (cases "Shard_Get db i c")
  case (Inr m)
  note m = Shard_Get_ok [OF Inr]
  show ?thesis
  proof (cases "mg_State m = MigrationCutover \<and> deleteSource")
    case st: True
    show ?thesis
    proof (cases "Shard_backend c (mg_Source m)")
      case src: (Inr src)
      obtain res src' where del: "bk_DeleteRange ops (mg_RangeStart m) (mg_RangeEnd m) src = (res, src')"
        by fastforce
      have "sc_backends (snd (Shard_Complete ops db now i deleteSource c)) = (sc_backends c)(mg_Source m \<mapsto> src')"
        by (auto simp: Shard_Complete_def Inr st src del split: sum.splits)
      with m st src del show ?thesis by (auto simp: Shard_backend_ok)
    qed (simp add: Shard_Complete_def Inr st)
  qed (auto simp: Shard_Complete_def Inr)
qed (simp add: Shard_Complete_def)

lemma Rollback_backends:
  "sc_backends (snd (Shard_Rollback ops db now i c)) = sc_backends c
   \<or> (\<exists>m dst res dst'. m \<in> set (sc_rows c) \<and> mg_ID m = i
        \<and> mg_State m \<notin> {MigrationCutover, MigrationComplete} \<and> sc_backends c (mg_Destination m) = Some dst
        \<and> bk_DeleteRange ops (mg_RangeStart m) (mg_RangeEnd m) dst = (res, dst')
        \<and> sc_backends (snd (Shard_Rollback ops db now i c)) = (sc_backends c)(mg_Destination m \<mapsto> dst'))"
proof (cases "Shard_Get db i c")
  case (Inr m)
  note m = Shard_Get_ok [OF Inr]
  show ?thesis
  proof (cases "mg_State m \<in> {MigrationCutover, MigrationComplete}")
    case st: False
    show ?thesis
    proof (cases "Shard_backend c (mg_Destination m)")
      case dst: (Inr dst)
      obtain res dst' where del: "bk_DeleteRange ops (mg_RangeStart m) (mg_RangeEnd m) dst = (res, dst')"
        by fastforce
      have "sc_backends (snd (Shard_Rollback ops db now i c)) = (sc_backends c)(mg_Destination m \<mapsto> dst')"
        using st by (auto simp: Shard_Rollback_def Inr dst del split: sum.splits)
      with m st dst del show ?thesis by (auto simp: Shard_backend_ok)
    qed (use st in \<open>simp add: Shard_Rollback_def Inr\<close>)
  qed (auto simp: Shard_Rollback_def Inr)
qed (simp add: Shard_Rollback_def)

context shard_backend begin

definition exports_fit :: "'b \<Rightarrow> 'b \<Rightarrow> bool" where
  "exports_fit src dst \<longleftrightarrow> (\<forall>k x raw. lookup src k = Some x \<longrightarrow> encode x = Inr raw \<longrightarrow>
     fits dst \<lparr>sd_Key = k, sd_Data = raw\<rparr>)"

lemma export_fits:
  assumes "valid src" and "exports_fit src dst"
    and "bk_ExportRange ops start stop after limit src = Inr batch"
  shows "list_all (fits dst) (sb_Documents batch)"
  unfolding list_all_iff
proof
  fix d assume "d \<in> set (sb_Documents batch)"
  then obtain x where "lookup src (sd_Key d) = Some x" "encode x = Inr (sd_Data d)"
    using export [OF assms(1,3)] by blast
  with assms(2) have "fits dst \<lparr>sd_Key = sd_Key d, sd_Data = sd_Data d\<rparr>" unfolding exports_fit_def by blast
  then show "fits dst d" by (cases d) simp
qed

lemma import_batch_law:
  assumes "valid b" and "list_all (fits b) docs" and "import_batch ops docs b = (res, b')"
  shows "valid b'" and "fits b' = fits b" and "decode b' = decode b"
    and "\<forall>k. k \<notin> sd_Key ` set docs \<longrightarrow> lookup b' k = lookup b k"
    and "\<forall>k. lookup b' k = lookup b k \<or> (\<exists>d \<in> set docs. \<exists>y. sd_Key d = k
           \<and> lookup b' k = Some y \<and> decode b (sd_Data d) = Inr y)"
    and "res = Inr () \<longrightarrow> sd_Key ` set docs \<subseteq> dom (lookup b')"
  using assms import [OF assms(1,2)] by (auto simp: import_batch_def split: if_splits)

text \<open>An operation makes a document disappear only where it deletes the range of a migration.\<close>

lemma disappears:
  assumes valid: "\<And>i b. sc_backends c i = Some b \<Longrightarrow> valid b"
    and fit: "\<And>i j src dst. sc_backends c i = Some src \<Longrightarrow> sc_backends c j = Some dst \<Longrightarrow> exports_fit src dst"
    and b: "sc_backends c j = Some b" and b': "sc_backends (shard_apply ops db now op c) j = Some b'"
    and k: "k \<in> dom (lookup b)" "k \<notin> dom (lookup b')"
  shows "\<exists>m \<in> set (sc_rows c). in_shard (mg_RangeStart m) (mg_RangeEnd m) k
     \<and> (op = OpComplete (mg_ID m) True \<and> mg_State m = MigrationCutover \<and> mg_Source m = j
        \<or> op = OpRollback (mg_ID m) \<and> mg_State m \<notin> {MigrationCutover, MigrationComplete}
          \<and> mg_Destination m = j)"
proof (cases op)
  case (OpStep i limit)
  have changed: "sc_backends (snd (BackfillStep ops db now i limit c)) \<noteq> sc_backends c"
    using b b' k OpStep by auto
  with BackfillStep_backends [of ops db now i limit c] obtain m :: ShardMigration and src dst batch res dst' where
    st: "sc_backends c (mg_Source m) = Some src" "sc_backends c (mg_Destination m) = Some dst"
    "bk_ExportRange ops (mg_RangeStart m) (mg_RangeEnd m) (mg_Checkpoint m)
       (nat (if limit \<le> 0 then 500 else limit)) src = Inr batch"
    "import_batch ops (sb_Documents batch) dst = (res, dst')"
    "sc_backends (snd (BackfillStep ops db now i limit c)) = (sc_backends c)(mg_Destination m \<mapsto> dst')"
    by blast
  have "list_all (fits dst) (sb_Documents batch)"
    by (rule export_fits [OF valid [OF st(1)] fit [OF st(1,2)] st(3)])
  from import_batch_law(5) [OF valid [OF st(2)] this st(4)] have "dom (lookup dst) \<subseteq> dom (lookup dst')"
    by (metis (mono_tags, lifting) domD domI subsetI)
  with st b b' k OpStep show ?thesis by (auto split: if_splits)
next
  case (OpComplete i deleteSource)
  have "sc_backends (snd (Shard_Complete ops db now i deleteSource c)) \<noteq> sc_backends c"
    using b b' k OpComplete by auto
  with Complete_backends [of ops db now i deleteSource c] obtain m src res src' where
    m: "m \<in> set (sc_rows c)" "mg_ID m = i" "mg_State m = MigrationCutover" "deleteSource"
    "sc_backends c (mg_Source m) = Some src"
    "bk_DeleteRange ops (mg_RangeStart m) (mg_RangeEnd m) src = (res, src')"
    "sc_backends (snd (Shard_Complete ops db now i deleteSource c)) = (sc_backends c)(mg_Source m \<mapsto> src')"
    by blast
  have "j = mg_Source m" and same: "b = src" "b' = src'"
    using m b b' k OpComplete by (auto split: if_splits)
  moreover have "in_shard (mg_RangeStart m) (mg_RangeEnd m) k"
    using delete [OF valid [OF m(5)], of "mg_RangeStart m" "mg_RangeEnd m" src']
      delete_error [of "mg_RangeStart m" "mg_RangeEnd m" src _ src'] m(6) k same
    by (cases res) (auto split: if_splits)
  ultimately show ?thesis using m OpComplete by blast
next
  case (OpRollback i)
  have "sc_backends (snd (Shard_Rollback ops db now i c)) \<noteq> sc_backends c"
    using b b' k OpRollback by auto
  with Rollback_backends [of ops db now i c] obtain m dst res dst' where
    m: "m \<in> set (sc_rows c)" "mg_ID m = i" "mg_State m \<notin> {MigrationCutover, MigrationComplete}"
    "sc_backends c (mg_Destination m) = Some dst"
    "bk_DeleteRange ops (mg_RangeStart m) (mg_RangeEnd m) dst = (res, dst')"
    "sc_backends (snd (Shard_Rollback ops db now i c)) = (sc_backends c)(mg_Destination m \<mapsto> dst')"
    by blast
  have "j = mg_Destination m" and same: "b = dst" "b' = dst'"
    using m b b' k OpRollback by (auto split: if_splits)
  moreover have "in_shard (mg_RangeStart m) (mg_RangeEnd m) k"
    using delete [OF valid [OF m(4)], of "mg_RangeStart m" "mg_RangeEnd m" dst']
      delete_error [of "mg_RangeStart m" "mg_RangeEnd m" dst _ dst'] m(5) k same
    by (cases res) (auto split: if_splits)
  ultimately show ?thesis using m OpRollback by blast
qed (use b b' k in \<open>auto simp: Shard_Register_def Shard_Create_def EnableDualWrite_def BeginBackfill_def
  Shard_Verify_def split: option.splits sum.splits if_splits\<close>)

end

section \<open>Backfilling\<close>

text \<open>The caller's loop: steps until one reports that it was the last, or fails.\<close>

fun backfill_run ::
  "'b ShardBackend \<Rightarrow> shard_faults \<Rightarrow> instant \<Rightarrow> string \<Rightarrow> int \<Rightarrow> nat \<Rightarrow> 'b ShardCoordinator
    \<Rightarrow> bool result \<times> 'b ShardCoordinator" where
  "backfill_run ops db now i limit 0 c = (Inr False, c)"
| "backfill_run ops db now i limit (Suc n) c =
     (case BackfillStep ops db now i limit c of
        (Inr False, c') \<Rightarrow> backfill_run ops db now i limit n c'
      | r \<Rightarrow> r)"

definition no_shard_faults :: shard_faults where
  "no_shard_faults q = None"

definition step_limit :: "int \<Rightarrow> nat" where
  "step_limit limit = nat (if limit \<le> 0 then 500 else limit)"

text \<open>Migration \<open>m\<close> is being backfilled from \<open>src\<close> to \<open>dst\<close>.\<close>

definition backfilling :: "'b ShardCoordinator \<Rightarrow> ShardMigration \<Rightarrow> 'b \<Rightarrow> 'b \<Rightarrow> bool" where
  "backfilling c m src dst \<longleftrightarrow>
     distinct (map mg_ID (sc_rows c)) \<and> m \<in> set (sc_rows c) \<and> mg_State m = MigrationBackfill
     \<and> mg_Source m \<noteq> mg_Destination m
     \<and> sc_backends c (mg_Source m) = Some src \<and> sc_backends c (mg_Destination m) = Some dst"

lemma find_row:
  "distinct (map mg_ID rows) \<Longrightarrow> m \<in> set rows \<Longrightarrow> find (\<lambda>n. mg_ID n = mg_ID m) rows = Some m"
  by (induction rows) auto

lemma Shard_Get_row:
  "distinct (map mg_ID (sc_rows c)) \<Longrightarrow> m \<in> set (sc_rows c) \<Longrightarrow> Shard_Get no_shard_faults (mg_ID m) c = Inr m"
  by (simp add: Shard_Get_def no_shard_faults_def find_row)

lemma setState_row:
  assumes "distinct (map mg_ID (sc_rows c))" and "m \<in> set (sc_rows c)" and "mg_State m \<in> set allowed"
  shows "Shard_setState no_shard_faults now (mg_ID m) allowed to cp c =
     (Inr (), c\<lparr>sc_rows := sql_update (\<lambda>n. mg_ID n = mg_ID m)
        (\<lambda>n. n\<lparr>mg_State := to, mg_Checkpoint := cp, mg_UpdatedAtMS := UnixMilli now\<rparr>) (sc_rows c)\<rparr>)"
proof -
  let ?p = "\<lambda>n. mg_ID n = mg_ID m \<and> mg_State n \<in> set allowed"
  have "sql_count ?p (sc_rows c) = 1"
    using sql_count_eq_1 [OF assms(1), of ?p "mg_ID m"] assms(2,3) by auto
  then show ?thesis
    using sql_update_by_key [OF assms(1,2), of ?p] assms(3)
    by (simp add: Shard_setState_def no_shard_faults_def)
qed

lemma sql_update_row:
  assumes "distinct (map mg_ID rows)" and "m \<in> set rows" and "mg_ID (f m) = mg_ID m"
    and "rows' = sql_update (\<lambda>n. mg_ID n = mg_ID m) f rows"
  shows "f m \<in> set rows'" and "(\<And>n. mg_ID (f n) = mg_ID n) \<Longrightarrow> distinct (map mg_ID rows')"
proof -
  show "f m \<in> set rows'" using assms(2) by (force simp: assms(4) sql_update_def)
  show "distinct (map mg_ID rows')" if "\<And>n. mg_ID (f n) = mg_ID n"
    unfolding assms(4) sql_update_key [where k = mg_ID and f = f, OF that] by (rule assms(1))
qed

lemma sorted_last: "sorted_wrt (<) xs \<Longrightarrow> a \<in> set xs \<Longrightarrow> a \<le> (last xs :: 'a :: linorder)"
  by (induction xs rule: rev_induct) (auto simp: sorted_wrt_append less_imp_le)

lemma drop_sorted:
  fixes xs :: "'a :: linorder list"
  assumes "sorted_wrt (<) xs" and "0 < n" and "n \<le> length xs"
  shows "{k \<in> set xs. last (take n xs) < k} = set (drop n xs)"
proof -
  have xs: "xs = take n xs @ drop n xs" by simp
  have ne: "take n xs \<noteq> []" using assms(2,3) by auto
  have "sorted_wrt (<) (take n xs @ drop n xs)" using assms(1) by simp
  then have s: "sorted_wrt (<) (take n xs)" "\<forall>a \<in> set (take n xs). \<forall>b \<in> set (drop n xs). a < b"
    unfolding sorted_wrt_append by blast+
  have "a \<le> last (take n xs)" if "a \<in> set (take n xs)" for a
    by (rule sorted_last [OF s(1) that])
  with s(2) ne show ?thesis
    by (subst (1) xs, auto simp del: append_take_drop_id dest: leD)
qed

context healthy_backend begin

text \<open>Backend \<open>dst'\<close> is \<open>dst\<close> with the documents of \<open>src\<close> under the keys \<open>K\<close> filled in.\<close>

definition filled :: "'b \<Rightarrow> string set \<Rightarrow> 'b \<Rightarrow> 'b \<Rightarrow> bool" where
  "filled src K dst dst' \<longleftrightarrow>
     valid dst' \<and> fits dst' = fits dst \<and> decode dst' = decode dst \<and> K \<subseteq> dom (lookup dst')
     \<and> (\<forall>k. k \<notin> K \<longrightarrow> lookup dst' k = lookup dst k)
     \<and> (\<forall>k. lookup dst' k = lookup dst k \<or> (\<exists>x raw y. lookup src k = Some x \<and> encode x = Inr raw
          \<and> decode dst raw = Inr y \<and> lookup dst' k = Some y))"

lemma filled_trans:
  assumes "filled src K a b" and "filled src L b c"
  shows "filled src (K \<union> L) a c"
  unfolding filled_def
proof (intro conjI allI impI)
  have "k \<in> dom (lookup b) \<Longrightarrow> k \<in> dom (lookup c)" for k
    using assms(2) unfolding filled_def by (metis domD domI)
  then show "K \<union> L \<subseteq> dom (lookup c)" using assms unfolding filled_def by blast
  fix k
  show "lookup c k = lookup a k \<or> (\<exists>x raw y. lookup src k = Some x \<and> encode x = Inr raw
          \<and> decode a raw = Inr y \<and> lookup c k = Some y)"
    using assms unfolding filled_def by metis
qed (use assms in \<open>simp_all add: filled_def\<close>)

lemma import_filled:
  assumes "valid src" and "valid dst" and "exports_fit src dst"
    and "bk_ExportRange ops start stop after limit src = Inr batch"
  obtains dst' where "import_batch ops (sb_Documents batch) dst = (Inr (), dst')"
    and "filled src (sd_Key ` set (sb_Documents batch)) dst dst'"
proof -
  let ?docs = "sb_Documents batch"
  have fit: "list_all (fits dst) ?docs" by (rule export_fits [OF assms(1,3,4)])
  obtain res dst' where imp: "import_batch ops ?docs dst = (res, dst')" by fastforce
  have "is_ok res" using imp import_ok [OF fit] by (auto simp: import_batch_def split: if_splits)
  then have res: "res = Inr ()" by (auto simp: is_ok_iff)
  have src: "\<exists>x. lookup src (sd_Key d) = Some x \<and> encode x = Inr (sd_Data d)" if "d \<in> set ?docs" for d
    using export [OF assms(1,4)] that by blast
  note law = import_batch_law [OF assms(2) fit imp]
  have "filled src (sd_Key ` set ?docs) dst dst'"
    unfolding filled_def
  proof (intro conjI allI)
    fix k
    show "lookup dst' k = lookup dst k \<or> (\<exists>x raw y. lookup src k = Some x \<and> encode x = Inr raw
          \<and> decode dst raw = Inr y \<and> lookup dst' k = Some y)"
      using law(5) src by blast
  qed (use law res in auto)
  with that imp res show thesis by blast
qed

text \<open>The keys of the range that are still to come after a checkpoint.\<close>

definition remaining :: "'b \<Rightarrow> ShardMigration \<Rightarrow> string \<Rightarrow> string set" where
  "remaining src m cp = {k \<in> dom (lookup src). in_shard (mg_RangeStart m) (mg_RangeEnd m) k \<and> after_ok cp k}"

lemma finite_remaining [simp]: "finite (remaining src m cp)"
  using finite_keys [of src] by (simp add: remaining_def)

lemma step_run:
  assumes bf: "backfilling c m src dst" and v: "valid src" "valid dst" and fit: "exports_fit src dst"
    and enc: "\<forall>k x. lookup src k = Some x \<longrightarrow> is_ok (encode x)"
  obtains docs :: "ShardDocument list" and dst' c1 where "c1 = update_backend (mg_Destination m) dst' c"
    and "map sd_Key docs = take (step_limit limit) (sorted_list_of_set (remaining src m (mg_Checkpoint m)))"
    and "filled src (sd_Key ` set docs) dst dst'"
    and "BackfillStep ops no_shard_faults now (mg_ID m) limit c =
      (let cp = (if docs = [] then [] else sd_Key (last docs)) in
       if length docs < step_limit limit
       then (case Shard_setState no_shard_faults now (mg_ID m) [MigrationBackfill] MigrationVerify cp c1 of
               (Inl e, c2) \<Rightarrow> (Inl e, c2) | (Inr _, c2) \<Rightarrow> (Inr True, c2))
       else (Inr False, c1\<lparr>sc_rows := sql_update (\<lambda>n. mg_ID n = mg_ID m \<and> mg_State n = MigrationBackfill)
               (\<lambda>n. n\<lparr>mg_Checkpoint := cp, mg_UpdatedAtMS := UnixMilli now\<rparr>) (sc_rows c1)\<rparr>))"
proof -
  let ?L = "step_limit limit"
  have "is_ok (bk_ExportRange ops (mg_RangeStart m) (mg_RangeEnd m) (mg_Checkpoint m) ?L src)"
    using enc by (intro export_ok [OF v(1)]) blast
  then obtain batch where batch:
    "bk_ExportRange ops (mg_RangeStart m) (mg_RangeEnd m) (mg_Checkpoint m) ?L src = Inr batch"
    by (auto simp: is_ok_iff)
  define docs where "docs = sb_Documents batch"
  have exp: "batch = make_batch ?L docs"
    "map sd_Key docs = take ?L (sorted_list_of_set (remaining src m (mg_Checkpoint m)))"
    using export [OF v(1) batch] by (simp_all add: docs_def remaining_def)
  obtain dst' where imp: "import_batch ops docs dst = (Inr (), dst')" "filled src (sd_Key ` set docs) dst dst'"
    using import_filled [OF v fit batch] unfolding docs_def .
  have batch': "sb_Documents batch = docs" "sb_Done batch \<longleftrightarrow> length docs < ?L"
    "sb_Next batch = (if docs = [] then [] else sd_Key (last docs))"
    by (simp_all add: exp(1) make_batch_def)
  have "Shard_Get no_shard_faults (mg_ID m) c = Inr m" using Shard_Get_row [of c m] bf by (simp add: backfilling_def)
  then show thesis
    using bf batch
    by (intro that [OF refl exp(2) imp(2)])
      (simp add: BackfillStep_def Shard_backend_def step_limit_def no_shard_faults_def backfilling_def
        batch' imp(1) Let_def)
qed

lemma step:
  assumes bf: "backfilling c m src dst" and v: "valid src" "valid dst" and fit: "exports_fit src dst"
    and enc: "\<forall>k x. lookup src k = Some x \<longrightarrow> is_ok (encode x)"
  obtains docs :: "ShardDocument list" and dst' where "map sd_Key docs = take (step_limit limit) (sorted_list_of_set (remaining src m (mg_Checkpoint m)))"
    and "filled src (sd_Key ` set docs) dst dst'"
    and "length docs < step_limit limit \<Longrightarrow> \<exists>c' m'. BackfillStep ops no_shard_faults now (mg_ID m) limit c = (Inr True, c')
           \<and> sc_backends c' = (sc_backends c)(mg_Destination m \<mapsto> dst')
           \<and> m' \<in> set (sc_rows c') \<and> same_migration m m' \<and> mg_State m' = MigrationVerify"
    and "\<not> length docs < step_limit limit \<Longrightarrow> \<exists>c' m'. BackfillStep ops no_shard_faults now (mg_ID m) limit c = (Inr False, c')
           \<and> sc_backends c' = (sc_backends c)(mg_Destination m \<mapsto> dst')
           \<and> backfilling c' m' src dst' \<and> same_migration m m'
           \<and> mg_Checkpoint m' = (if docs = [] then [] else sd_Key (last docs))"
proof (rule step_run [OF assms])
  fix docs :: "ShardDocument list" and dst' c1
  let ?cp = "if docs = [] then [] else sd_Key (last docs)"
  assume c1: "c1 = update_backend (mg_Destination m) dst' c"
    and keys: "map sd_Key docs = take (step_limit limit) (sorted_list_of_set (remaining src m (mg_Checkpoint m)))"
    and filled: "filled src (sd_Key ` set docs) dst dst'"
    and run: "BackfillStep ops no_shard_faults now (mg_ID m) limit c =
      (let cp = ?cp in
       if length docs < step_limit limit
       then (case Shard_setState no_shard_faults now (mg_ID m) [MigrationBackfill] MigrationVerify cp c1 of
               (Inl e, c2) \<Rightarrow> (Inl e, c2) | (Inr _, c2) \<Rightarrow> (Inr True, c2))
       else (Inr False, c1\<lparr>sc_rows := sql_update (\<lambda>n. mg_ID n = mg_ID m \<and> mg_State n = MigrationBackfill)
               (\<lambda>n. n\<lparr>mg_Checkpoint := cp, mg_UpdatedAtMS := UnixMilli now\<rparr>) (sc_rows c1)\<rparr>))"
  have rows: "distinct (map mg_ID (sc_rows c1))" "m \<in> set (sc_rows c1)" "mg_State m = MigrationBackfill"
    using bf by (simp_all add: backfilling_def c1)
  let ?f = "\<lambda>n. n\<lparr>mg_State := MigrationVerify, mg_Checkpoint := ?cp, mg_UpdatedAtMS := UnixMilli now\<rparr>"
  let ?g = "\<lambda>n. n\<lparr>mg_Checkpoint := ?cp, mg_UpdatedAtMS := UnixMilli now\<rparr>"
  let ?rows = "sql_update (\<lambda>n. mg_ID n = mg_ID m \<and> mg_State n = MigrationBackfill) ?g (sc_rows c1)"
  have f: "?f m \<in> set (sql_update (\<lambda>n. mg_ID n = mg_ID m) ?f (sc_rows c1))"
    by (rule sql_update_row(1) [OF rows(1,2)]) simp_all
  have upd: "?rows = sql_update (\<lambda>n. mg_ID n = mg_ID m) ?g (sc_rows c1)"
    by (rule sql_update_by_key [OF rows(1,2)]) (simp_all add: rows(3))
  have g: "?g m \<in> set ?rows" "distinct (map mg_ID ?rows)"
    using sql_update_row [OF rows(1,2) _ upd] by simp_all
  have "BackfillStep ops no_shard_faults now (mg_ID m) limit c =
      (Inr True, c1\<lparr>sc_rows := sql_update (\<lambda>n. mg_ID n = mg_ID m) ?f (sc_rows c1)\<rparr>)"
    if "length docs < step_limit limit"
    using that setState_row [OF rows(1,2), of "[MigrationBackfill]"] rows(3) by (simp add: run Let_def)
  moreover have "BackfillStep ops no_shard_faults now (mg_ID m) limit c = (Inr False, c1\<lparr>sc_rows := ?rows\<rparr>)"
    if "\<not> length docs < step_limit limit"
    using that by (simp add: run Let_def)
  moreover have "backfilling (c1\<lparr>sc_rows := ?rows\<rparr>) (?g m) src dst'"
    using bf g by (simp add: backfilling_def c1)
  moreover have "same_migration m (?f m)" "same_migration m (?g m)" by (simp_all add: same_migration_def)
  moreover have "sc_backends (c1\<lparr>sc_rows := rs\<rparr>) = (sc_backends c)(mg_Destination m \<mapsto> dst')" for rs by (simp add: c1)
  ultimately show thesis
    using f by (intro that [OF keys filled])
      (rule exI [of _ "c1\<lparr>sc_rows := sql_update (\<lambda>n. mg_ID n = mg_ID m) ?f (sc_rows c1)\<rparr>"], rule exI [of _ "?f m"], simp,
       rule exI [of _ "c1\<lparr>sc_rows := ?rows\<rparr>"], rule exI [of _ "?g m"], simp)
qed

end

context healthy_backend begin

lemma step_limit_pos [simp]: "0 < step_limit limit"
  by (simp add: step_limit_def)

lemma remaining_next:
  assumes keys: "map sd_Key docs = take L (sorted_list_of_set (remaining src m cp))"
    and "L \<le> length docs" and "0 < L" and "[] \<notin> remaining src m cp" and "same_migration m m'"
  shows "sd_Key ` set docs \<union> remaining src m' (sd_Key (last docs)) = remaining src m cp"
    and "card (remaining src m' (sd_Key (last docs))) + L = card (remaining src m cp)"
    and "[] \<notin> remaining src m' (sd_Key (last docs))"
proof -
  let ?xs = "sorted_list_of_set (remaining src m cp)"
  have len: "length docs = L" "L \<le> length ?xs"
    using arg_cong [OF keys, of length] assms(2) by simp_all
  then have docs: "docs \<noteq> []" "sd_Key (last docs) = last (take L ?xs)"
    using assms(3) keys by (auto simp: last_map simp flip: keys)
  have set_xs: "set ?xs = remaining src m cp" by simp
  have "sd_Key (last docs) \<in> set (take L ?xs)"
    using docs(1) by (simp flip: keys)
  then have last_in: "sd_Key (last docs) \<in> remaining src m cp"
    by (metis in_set_takeD set_xs)
  then have "sd_Key (last docs) \<noteq> []" using assms(4) by auto
  then have "remaining src m' (sd_Key (last docs)) = {k \<in> remaining src m cp. sd_Key (last docs) < k}"
    using last_in assms(5) by (auto simp: remaining_def after_ok_def same_migration_def)
  then have rest: "remaining src m' (sd_Key (last docs)) = set (drop L ?xs)"
    using drop_sorted [of ?xs L] len(2) assms(3) by (simp add: docs(2) strict_sorted_list_of_set)
  have "sd_Key ` set docs = set (take L ?xs)" by (metis keys list.set_map)
  then show "sd_Key ` set docs \<union> remaining src m' (sd_Key (last docs)) = remaining src m cp"
    unfolding rest by (metis append_take_drop_id set_append set_xs)
  have "card (set (drop L ?xs)) = length ?xs - L"
    by (simp add: distinct_card)
  then show "card (remaining src m' (sd_Key (last docs))) + L = card (remaining src m cp)"
    using len(2) by (simp add: rest)
  show "[] \<notin> remaining src m' (sd_Key (last docs))"
    unfolding rest using assms(4) by (metis in_set_dropD set_xs)
qed

lemma run_completes:
  assumes "backfilling c m src dst" and "valid src" "valid dst" and "exports_fit src dst"
    and enc: "\<forall>k x. lookup src k = Some x \<longrightarrow> is_ok (encode x)"
    and "[] \<notin> remaining src m (mg_Checkpoint m)"
    and "card (remaining src m (mg_Checkpoint m)) < n * step_limit limit"
  shows "\<exists>c' m' dst'. backfill_run ops no_shard_faults now (mg_ID m) limit n c = (Inr True, c')
     \<and> sc_backends c' = (sc_backends c)(mg_Destination m \<mapsto> dst')
     \<and> filled src (remaining src m (mg_Checkpoint m)) dst dst'
     \<and> m' \<in> set (sc_rows c') \<and> same_migration m m' \<and> mg_State m' = MigrationVerify"
  using assms(1,3,4,6,7)
proof (induction n arbitrary: c m dst)
  case (Suc n)
  let ?R = "remaining src m (mg_Checkpoint m)" and ?L = "step_limit limit"
  obtain docs :: "ShardDocument list" and dst' where
    keys: "map sd_Key docs = take ?L (sorted_list_of_set ?R)"
    and fill: "filled src (sd_Key ` set docs) dst dst'"
    and last_step: "length docs < ?L \<Longrightarrow> \<exists>c' m'. BackfillStep ops no_shard_faults now (mg_ID m) limit c = (Inr True, c')
           \<and> sc_backends c' = (sc_backends c)(mg_Destination m \<mapsto> dst')
           \<and> m' \<in> set (sc_rows c') \<and> same_migration m m' \<and> mg_State m' = MigrationVerify"
    and more: "\<not> length docs < ?L \<Longrightarrow> \<exists>c' m'. BackfillStep ops no_shard_faults now (mg_ID m) limit c = (Inr False, c')
           \<and> sc_backends c' = (sc_backends c)(mg_Destination m \<mapsto> dst')
           \<and> backfilling c' m' src dst' \<and> same_migration m m'
           \<and> mg_Checkpoint m' = (if docs = [] then [] else sd_Key (last docs))"
    using step [OF Suc.prems(1) assms(2) Suc.prems(2,3) enc, of limit now] by blast
  show ?case
  proof (cases "length docs < ?L")
    case True
    then have "take ?L (sorted_list_of_set ?R) = sorted_list_of_set ?R"
      using arg_cong [OF keys, of length] by simp
    then have "sd_Key ` set docs = ?R"
      using keys by (metis finite_remaining list.set_map set_sorted_list_of_set)
    with fill last_step [OF True] show ?thesis by force
  next
    case False
    then obtain c' m' where st: "BackfillStep ops no_shard_faults now (mg_ID m) limit c = (Inr False, c')"
      "sc_backends c' = (sc_backends c)(mg_Destination m \<mapsto> dst')" "backfilling c' m' src dst'"
      and same: "same_migration m m'" "mg_Checkpoint m' = sd_Key (last docs)"
      using more step_limit_pos [of limit] by (metis leI length_0_conv less_irrefl_nat linorder_not_less)
    note nxt = remaining_next [OF keys _ step_limit_pos Suc.prems(4) same(1)]
    have le: "?L \<le> length docs" using False by simp
    have fit': "exports_fit src dst'" and v': "valid dst'"
      using Suc.prems(3) fill by (simp_all add: exports_fit_def filled_def)
    have "card (remaining src m' (mg_Checkpoint m')) < n * ?L" and "[] \<notin> remaining src m' (mg_Checkpoint m')"
      using nxt(2,3) [OF le] Suc.prems(5) by (simp_all add: same(2))
    from Suc.IH [OF st(3) v' fit' this(2,1)] obtain c'' m'' dst'' where
      run: "backfill_run ops no_shard_faults now (mg_ID m') limit n c' = (Inr True, c'')"
      "sc_backends c'' = (sc_backends c')(mg_Destination m' \<mapsto> dst'')"
      "filled src (remaining src m' (mg_Checkpoint m')) dst' dst''"
      "m'' \<in> set (sc_rows c'')" "same_migration m' m''" "mg_State m'' = MigrationVerify"
      by blast
    have "filled src ?R dst dst''"
      using filled_trans [OF fill run(3)] nxt(1) [OF le] by (simp add: same(2))
    with run st same show ?thesis
      by (intro exI [of _ c''] exI [of _ m''] exI [of _ dst'']) (simp add: same_migration_def)
  qed
qed simp

end

context shard_backend begin

text \<open>Equal counts are enough once the destination has every key of the source.\<close>

lemma verify_equal:
  assumes "Shard_Verify ops db now i c = (Inr (), c')" and "Shard_Get db i c = Inr m"
    and "sc_backends c (mg_Source m) = Some src" and "sc_backends c (mg_Destination m) = Some dst"
    and "valid src" and "valid dst"
  shows "mg_State m = MigrationVerify"
    and "card {k \<in> dom (lookup src). in_shard (mg_RangeStart m) (mg_RangeEnd m) k} =
         card {k \<in> dom (lookup dst). in_shard (mg_RangeStart m) (mg_RangeEnd m) k}"
  using assms count [OF assms(5), of "mg_RangeStart m" "mg_RangeEnd m"]
    count [OF assms(6), of "mg_RangeStart m" "mg_RangeEnd m"]
  by (auto simp: Shard_Verify_def Shard_backend_def split: if_splits sum.splits)

end

section \<open>Properties of shard migrations\<close>

text \<open>
  C17: No document is lost by accident. If the backends' keys are unique and what one backend
  exports another can store, then an operation that makes the document under a key disappear from
  a shard is the completion, with deletion, of a cut over migration away from that shard, or the
  rollback of a migration to it that was not cut over, and the key is in that migration's range.
\<close>

theorem documents_disappear_only:
  assumes "\<forall>i b. sc_backends c i = Some b \<longrightarrow> any_valid scd bcd b"
    and "\<forall>i j src dst k x raw. sc_backends c i = Some src \<longrightarrow> sc_backends c j = Some dst \<longrightarrow>
          any_lookup scd bcd src k = Some x \<longrightarrow> any_encode scd bcd x = Inr raw \<longrightarrow>
          any_fits scd bcd dst \<lparr>sd_Key = k, sd_Data = raw\<rparr>"
    and "sc_backends c j = Some b" and "sc_backends (shard_apply (any_ops scd bcd fl) db now op c) j = Some b'"
    and "k \<in> dom (any_lookup scd bcd b)" and "k \<notin> dom (any_lookup scd bcd b')"
  shows "\<exists>m \<in> set (sc_rows c). in_shard (mg_RangeStart m) (mg_RangeEnd m) k
     \<and> (op = OpComplete (mg_ID m) True \<and> mg_State m = MigrationCutover \<and> mg_Source m = j
        \<or> op = OpRollback (mg_ID m) \<and> mg_State m \<notin> {MigrationCutover, MigrationComplete}
          \<and> mg_Destination m = j)"
  using assms(1,2) by (intro backends.disappears [OF _ _ assms(3-6)]) (auto simp: backends.exports_fit_def)

text \<open>
  C16: A backfill ends and is complete. When no statement fails, the source's documents can be
  encoded and stored, and none of them has the empty key, then \<open>n\<close> steps finish a backfill with
  fewer than \<open>n\<close> times the batch size documents in its range. The migration is then ready to
  verify, the source is as it was, every key of its range is in the destination, with what was
  there before or with the stored form of the source's document, and the destination's other keys
  are untouched.
\<close>

theorem backfill_completes:
  assumes "backfilling c m src dst" and "any_valid scd bcd src" and "any_valid scd bcd dst"
    and "\<forall>k x. any_lookup scd bcd src k = Some x \<longrightarrow> (\<exists>raw. any_encode scd bcd x = Inr raw
          \<and> any_fits scd bcd dst \<lparr>sd_Key = k, sd_Data = raw\<rparr>)"
    and "mg_Checkpoint m = []"
    and "K = {k \<in> dom (any_lookup scd bcd src). in_shard (mg_RangeStart m) (mg_RangeEnd m) k}" and "[] \<notin> K"
    and "card K < n * step_limit limit"
  shows "\<exists>c' m' dst'. backfill_run (any_ops scd bcd no_backend_faults) no_shard_faults now (mg_ID m) limit n c = (Inr True, c')
     \<and> m' \<in> set (sc_rows c') \<and> same_migration m m' \<and> mg_State m' = MigrationVerify
     \<and> sc_backends c' = (sc_backends c)(mg_Destination m \<mapsto> dst') \<and> any_valid scd bcd dst'
     \<and> K \<subseteq> dom (any_lookup scd bcd dst')
     \<and> (\<forall>k. k \<notin> K \<longrightarrow> any_lookup scd bcd dst' k = any_lookup scd bcd dst k)
     \<and> (\<forall>k \<in> K. any_lookup scd bcd dst' k = any_lookup scd bcd dst k
          \<or> (\<exists>x raw y. any_lookup scd bcd src k = Some x \<and> any_encode scd bcd x = Inr raw
               \<and> any_decode scd bcd dst raw = Inr y \<and> any_lookup scd bcd dst' k = Some y))"
proof -
  have fit: "backends.exports_fit scd bcd src dst"
    using assms(4) unfolding backends.exports_fit_def by fastforce
  have enc: "\<forall>k x. any_lookup scd bcd src k = Some x \<longrightarrow> is_ok (any_encode scd bcd x)"
    using assms(4) by (fastforce simp: is_ok_iff)
  have K: "healthy.remaining scd bcd src m (mg_Checkpoint m) = K"
    by (simp add: healthy.remaining_def assms(5,6) after_ok_def)
  obtain c' m' dst' where "backfill_run (any_ops scd bcd no_backend_faults) no_shard_faults now (mg_ID m) limit n c = (Inr True, c')"
    and "sc_backends c' = (sc_backends c)(mg_Destination m \<mapsto> dst')" and "healthy.filled scd bcd src K dst dst'"
    and "m' \<in> set (sc_rows c')" "same_migration m m'" "mg_State m' = MigrationVerify"
    using healthy.run_completes [OF assms(1-3) fit enc, where now = now and limit = limit and n = n] assms(7,8)
    unfolding K by blast
  then show ?thesis
    unfolding healthy.filled_def by (intro exI [of _ c'] exI [of _ m'] exI [of _ dst']) blast
qed

text \<open>
  C19: Verification is sound after a complete backfill. \<^verbatim>\<open>Verify\<close> compares counts only, but when the
  destination holds every key of the source's range, a successful \<^verbatim>\<open>Verify\<close> means that the two
  shards hold exactly the same keys in the range. It moves the migration to cutover and leaves the
  documents alone.
\<close>

theorem verified_keys_equal:
  assumes "distinct (map mg_ID (sc_rows c))" and "m \<in> set (sc_rows c)"
    and "Shard_Verify (any_ops scd bcd fl) no_shard_faults now (mg_ID m) c = (Inr (), c')"
    and "sc_backends c (mg_Source m) = Some src" and "sc_backends c (mg_Destination m) = Some dst"
    and "any_valid scd bcd src" and "any_valid scd bcd dst"
    and "{k \<in> dom (any_lookup scd bcd src). in_shard (mg_RangeStart m) (mg_RangeEnd m) k} \<subseteq> dom (any_lookup scd bcd dst)"
  shows "{k \<in> dom (any_lookup scd bcd src). in_shard (mg_RangeStart m) (mg_RangeEnd m) k} =
         {k \<in> dom (any_lookup scd bcd dst). in_shard (mg_RangeStart m) (mg_RangeEnd m) k}
     \<and> mg_State m = MigrationVerify \<and> sc_backends c' = sc_backends c
     \<and> m\<lparr>mg_State := MigrationCutover, mg_UpdatedAtMS := UnixMilli now\<rparr> \<in> set (sc_rows c')"
proof -
  let ?in = "in_shard (mg_RangeStart m) (mg_RangeEnd m)"
  note get = Shard_Get_row [OF assms(1,2)]
  note ver = backends.verify_equal [OF assms(3) get assms(4-7)]
  have "{k \<in> dom (any_lookup scd bcd src). ?in k} = {k \<in> dom (any_lookup scd bcd dst). ?in k}"
    using assms(8) ver(2) backends.finite_keys [of scd bcd dst] by (intro card_subset_eq) auto
  moreover have "Shard_setState no_shard_faults now (mg_ID m) [MigrationVerify] MigrationCutover (mg_Checkpoint m) c = (Inr (), c')"
    using assms(3) by (auto simp: Shard_Verify_def get split: sum.splits if_splits)
  then have "c' = c\<lparr>sc_rows := sql_update (\<lambda>n. mg_ID n = mg_ID m)
      (\<lambda>n. n\<lparr>mg_State := MigrationCutover, mg_Checkpoint := mg_Checkpoint m, mg_UpdatedAtMS := UnixMilli now\<rparr>) (sc_rows c)\<rparr>"
    using setState_row [OF assms(1,2), of "[MigrationVerify]"] ver(1) by simp
  ultimately show ?thesis using ver(1) assms(2) by (force simp: sql_update_def)
qed

text \<open>
  C20: The write targets of a key are the sorted, duplicate-free union over the migrations that cover
  it: the source before the dual-write phase, both shards from then until cutover, the destination
  from cutover on, and nothing for a rolled back migration.
\<close>

theorem TargetsForWrite_spec:
  "case TargetsForWrite db key c of
     Inl e \<Rightarrow> db TargetsSelect = Some e
   | Inr ids \<Rightarrow> sorted_wrt (<) ids
       \<and> set ids = {i. \<exists>m \<in> set (sc_rows c). in_shard (mg_RangeStart m) (mg_RangeEnd m) key
           \<and> (i = mg_Source m \<and> mg_State m \<in> {MigrationPlanned, MigrationDualWrite, MigrationBackfill, MigrationVerify}
              \<or> i = mg_Destination m \<and> mg_State m \<in>
                  {MigrationDualWrite, MigrationBackfill, MigrationVerify, MigrationCutover, MigrationComplete})}"
proof (cases "db TargetsSelect")
  case None
  have tgt: "i \<in> set (write_targets m key) \<longleftrightarrow> in_shard (mg_RangeStart m) (mg_RangeEnd m) key
      \<and> (i = mg_Source m \<and> mg_State m \<in> {MigrationPlanned, MigrationDualWrite, MigrationBackfill, MigrationVerify}
         \<or> i = mg_Destination m \<and> mg_State m \<in>
             {MigrationDualWrite, MigrationBackfill, MigrationVerify, MigrationCutover, MigrationComplete})" for i m
    by (cases "mg_State m") (auto simp: write_targets_def in_shard_def)
  have "sorted_wrt (<) (sort (remdups xs))" for xs :: "string list"
    by (simp add: strict_sorted_iff)
  then show ?thesis
    using None by (auto simp: TargetsForWrite_def tgt)
qed (simp add: TargetsForWrite_def)

text \<open>
  C40: Rolling back twice deletes twice. \<^verbatim>\<open>Rollback\<close> deletes the destination's range before it looks at
  the state in its guarded update, so on a migration that was rolled back before it empties the
  range of whatever has been written there since, and then reports an invalid transition.
\<close>

theorem rollback_again_deletes:
  assumes "distinct (map mg_ID (sc_rows c))" and "m \<in> set (sc_rows c)" and "mg_State m = MigrationRolledBack"
    and "sc_backends c (mg_Destination m) = Some dst" and "any_valid scd bcd dst"
    and "Shard_Rollback (any_ops scd bcd no_backend_faults) no_shard_faults now (mg_ID m) c = (res, c')"
  shows "res = Inl (errors_New ''invalid migration transition'')
     \<and> (\<exists>dst'. sc_backends c' (mg_Destination m) = Some dst'
          \<and> (\<forall>k. any_lookup scd bcd dst' k =
               (if in_shard (mg_RangeStart m) (mg_RangeEnd m) k then None else any_lookup scd bcd dst k)))"
proof -
  let ?del = "bk_DeleteRange (any_ops scd bcd no_backend_faults) (mg_RangeStart m) (mg_RangeEnd m) dst"
  obtain dst' where del: "?del = (Inr (), dst')"
    by (cases dst) (auto simp: SQL_DeleteRange_def Mongo_DeleteRange_def no_backend_faults_def)
  let ?c1 = "update_backend (mg_Destination m) dst' c"
  let ?open = "[MigrationPlanned, MigrationDualWrite, MigrationBackfill, MigrationVerify]"
  have "sql_count (\<lambda>n. mg_ID n = mg_ID m \<and> mg_State n \<in> set ?open) (sc_rows c) = 0"
    using distinct_key_eq [OF assms(1) _ assms(2)] assms(3) unfolding sql_count_0 by fastforce
  then have "fst (Shard_setState no_shard_faults now (mg_ID m) ?open MigrationRolledBack (mg_Checkpoint m) ?c1)
      = Inl (errors_New ''invalid migration transition'')"
    by (simp add: Shard_setState_def no_shard_faults_def)
  moreover have "Shard_setState no_shard_faults now (mg_ID m) ?open MigrationRolledBack (mg_Checkpoint m) ?c1 = (res, c')"
    using assms(3,4,6) del by (simp add: Shard_Rollback_def Shard_Get_row [OF assms(1,2)] Shard_backend_def)
  ultimately have res: "res = Inl (errors_New ''invalid migration transition'')"
    and "sc_backends c' = sc_backends ?c1"
    using setState_backends_pair by (simp, blast)
  then have "sc_backends c' (mg_Destination m) = Some dst'" by simp
  with res backends.delete [OF assms(5) del] show ?thesis by blast
qed

section \<open>A sample migration\<close>

text \<open>One column or field, whose text is the document.\<close>

definition sample_scd :: "string sql_codec" where
  "sample_scd = \<lparr>cd_Sprint = (\<lambda>v. v), cd_Marshal = (\<lambda>row. Inr (concat (map snd row))),
     cd_Unmarshal = (\<lambda>raw. Inr [(''k'', raw)])\<rparr>"

definition sample_bcd :: "string bson_codec" where
  "sample_bcd = \<lparr>bc_Field = (\<lambda>_ d. Some d), bc_MarshalExtJSON = Inr, bc_UnmarshalExtJSON = Inr\<rparr>"

definition sample_src :: "(string, string) any_backend" where
  "sample_src = SQLBackend \<lparr>sq_id = ''a'', sq_table = ''t'', sq_keyColumn = ''k'',
     sq_rows = [[(''k'', ''y'')], [(''k'', ''x'')]]\<rparr>"

definition sample_dst :: "string list \<Rightarrow> (string, string) any_backend" where
  "sample_dst docs = MongoBackend \<lparr>mo_id = ''b'', mo_keyField = ''k'', mo_docs = docs\<rparr>"

definition sample_migration :: "MigrationState \<Rightarrow> ShardMigration" where
  "sample_migration s = \<lparr>mg_ID = ''m'', mg_Source = ''a'', mg_Destination = ''b'', mg_RangeStart = ''a'',
     mg_RangeEnd = ''z'', mg_State = s, mg_Checkpoint = [], mg_UpdatedAtMS = 0\<rparr>"

definition sample_coordinator :: "MigrationState \<Rightarrow> string list \<Rightarrow> (string, string) any_backend ShardCoordinator" where
  "sample_coordinator s docs = \<lparr>sc_rows = [sample_migration s],
     sc_backends = [''a'' \<mapsto> sample_src, ''b'' \<mapsto> sample_dst docs]\<rparr>"

lemmas sample_shard_defs = sample_scd_def sample_bcd_def sample_src_def sample_dst_def sample_migration_def
  sample_coordinator_def

lemma sample_lookup:
  "any_lookup sample_scd sample_bcd sample_src k =
     (if k = ''y'' then Some (Inl [(''k'', ''y'')]) else if k = ''x'' then Some (Inl [(''k'', ''x'')]) else None)"
  "any_lookup sample_scd sample_bcd (sample_dst docs) k = (if k \<in> set docs then Some (Inr k) else None)"
proof -
  show "any_lookup sample_scd sample_bcd sample_src k =
     (if k = ''y'' then Some (Inl [(''k'', ''y'')]) else if k = ''x'' then Some (Inl [(''k'', ''x'')]) else None)"
    by (auto simp: any_lookup_def sql_lookup_def sample_src_def sample_scd_def sql_key_def row_key_def)
  have "lookup_by Some docs k = (if k \<in> set docs then Some k else None)" by (induction docs) auto
  then show "any_lookup sample_scd sample_bcd (sample_dst docs) k = (if k \<in> set docs then Some (Inr k) else None)"
    by (simp add: any_lookup_def mongo_lookup_def sample_dst_def sample_bcd_def mongo_key_def)
qed

lemma sample_valid:
  "any_valid sample_scd sample_bcd sample_src"
  "distinct docs \<Longrightarrow> any_valid sample_scd sample_bcd (sample_dst docs)"
proof -
  show "any_valid sample_scd sample_bcd sample_src"
    by (simp add: any_valid_def sample_src_def sample_scd_def sql_valid_def sql_key_def row_key_def)
  have "keyed Some docs \<longleftrightarrow> distinct docs" by (induction docs) auto
  then show "distinct docs \<Longrightarrow> any_valid sample_scd sample_bcd (sample_dst docs)"
    by (simp add: any_valid_def sample_dst_def sample_bcd_def mongo_valid_def mongo_key_def)
qed

lemma sample_fits:
  "any_fits sample_scd sample_bcd (sample_dst docs) \<lparr>sd_Key = k, sd_Data = k\<rparr>"
  "any_fits sample_scd sample_bcd sample_src \<lparr>sd_Key = k, sd_Data = k\<rparr>"
proof -
  have "MatchString sqlIdentifier ''k''" by code_simp
  then show "any_fits sample_scd sample_bcd sample_src \<lparr>sd_Key = k, sd_Data = k\<rparr>"
    by (simp add: any_fits_def sample_src_def sample_scd_def sql_fits_def import_fields_def sql_key_def row_key_def)
qed (simp add: any_fits_def sample_dst_def sample_bcd_def mongo_fits_def mongo_key_def)

lemma sample_encode:
  "any_encode sample_scd sample_bcd (Inl [(c, v)]) = Inr v" "any_encode sample_scd sample_bcd (Inr d) = Inr d"
  by (simp_all add: any_encode_def sample_scd_def sample_bcd_def)

lemma sample_range: "in_shard ''a'' ''z'' ''x''" "in_shard ''a'' ''z'' ''y''" by code_simp+

lemma sample_keys:
  "{k \<in> dom (any_lookup sample_scd sample_bcd sample_src). in_shard ''a'' ''z'' k} = {''x'', ''y''}"
  using sample_range by (auto simp: dom_def sample_lookup split: if_splits)

theorem backfill_completes_witness:
  "\<exists>c' dst'. backfill_run (any_ops sample_scd sample_bcd no_backend_faults) no_shard_faults 7 ''m'' 1 3
       (sample_coordinator MigrationBackfill [''w'']) = (Inr True, c')
     \<and> sc_backends c' ''b'' = Some dst' \<and> {''x'', ''y''} \<subseteq> dom (any_lookup sample_scd sample_bcd dst')"
proof -
  let ?m = "sample_migration MigrationBackfill" and ?c = "sample_coordinator MigrationBackfill [''w'']"
  have bf: "backfilling ?c ?m sample_src (sample_dst [''w''])"
    by (simp add: backfilling_def sample_coordinator_def) (simp add: sample_migration_def)
  have fit: "\<forall>k x. any_lookup sample_scd sample_bcd sample_src k = Some x \<longrightarrow>
      (\<exists>raw. any_encode sample_scd sample_bcd x = Inr raw
         \<and> any_fits sample_scd sample_bcd (sample_dst [''w'']) \<lparr>sd_Key = k, sd_Data = raw\<rparr>)"
    by (auto simp: sample_lookup sample_encode sample_fits split: if_splits)
  have K: "{''x'', ''y''} = {k \<in> dom (any_lookup sample_scd sample_bcd sample_src).
      in_shard (mg_RangeStart ?m) (mg_RangeEnd ?m) k}"
    using sample_keys by (simp add: sample_migration_def)
  have "mg_Checkpoint ?m = []" "distinct [''w'']" "[] \<notin> {''x'', ''y''}" "card {''x'', ''y''} < 3 * step_limit 1"
    by (simp_all add: sample_migration_def step_limit_def)
  note hyps = this
  have "\<exists>c' dst'. backfill_run (any_ops sample_scd sample_bcd no_backend_faults) no_shard_faults 7 (mg_ID ?m) 1 3 ?c = (Inr True, c')
      \<and> sc_backends c' = (sc_backends ?c)(mg_Destination ?m \<mapsto> dst')
      \<and> {''x'', ''y''} \<subseteq> dom (any_lookup sample_scd sample_bcd dst')"
    using backfill_completes [OF bf sample_valid(1) sample_valid(2) [OF hyps(2)] fit hyps(1) K hyps(3,4), of 7]
    by (elim exE conjE) (intro exI conjI, assumption+)
  then obtain c' dst' where "backfill_run (any_ops sample_scd sample_bcd no_backend_faults) no_shard_faults 7 (mg_ID ?m) 1 3 ?c = (Inr True, c')"
    "sc_backends c' = (sc_backends ?c)(mg_Destination ?m \<mapsto> dst')"
    "{''x'', ''y''} \<subseteq> dom (any_lookup sample_scd sample_bcd dst')"
    by (elim exE conjE)
  then show ?thesis by (intro exI [of _ c'] exI [of _ dst']) (simp add: sample_migration_def)
qed

theorem verified_keys_equal_witness:
  "{''x'', ''y''} = {k \<in> dom (any_lookup sample_scd sample_bcd (sample_dst [''x'', ''y''])). in_shard ''a'' ''z'' k}"
proof -
  let ?m = "sample_migration MigrationVerify" and ?c = "sample_coordinator MigrationVerify [''x'', ''y'']"
  obtain c' where ver: "Shard_Verify (any_ops sample_scd sample_bcd no_backend_faults) no_shard_faults 7 (mg_ID ?m) ?c = (Inr (), c')"
    using sample_range
    by (simp add: sample_shard_defs Shard_Verify_def Shard_Get_def Shard_backend_def no_shard_faults_def
        SQL_CountRange_def Mongo_CountRange_def no_backend_faults_def sql_count_def row_key_def rangeFilter_def
        after_ok_def Shard_setState_def)
  have "distinct (map mg_ID (sc_rows ?c))" "?m \<in> set (sc_rows ?c)"
    "sc_backends ?c (mg_Source ?m) = Some sample_src" "sc_backends ?c (mg_Destination ?m) = Some (sample_dst [''x'', ''y''])"
    by (simp_all add: sample_coordinator_def) (simp_all add: sample_migration_def)
  note hyps = this
  have "{k \<in> dom (any_lookup sample_scd sample_bcd sample_src). in_shard (mg_RangeStart ?m) (mg_RangeEnd ?m) k}
      \<subseteq> dom (any_lookup sample_scd sample_bcd (sample_dst [''x'', ''y'']))"
    by (auto simp: dom_def sample_lookup split: if_splits)
  from verified_keys_equal [OF hyps(1,2) ver hyps(3,4) sample_valid(1) sample_valid(2) this] sample_keys
  show ?thesis by (simp add: sample_migration_def)
qed

theorem documents_disappear_only_witness:
  "\<exists>m \<in> set (sc_rows (sample_coordinator MigrationBackfill [''x''])). mg_Destination m = ''b''
     \<and> in_shard (mg_RangeStart m) (mg_RangeEnd m) ''x''"
proof -
  let ?c = "sample_coordinator MigrationBackfill [''x'']" and ?ops = "any_ops sample_scd sample_bcd no_backend_faults"
  have bk: "sc_backends ?c i = Some b \<longleftrightarrow> i = ''a'' \<and> b = sample_src \<or> i = ''b'' \<and> b = sample_dst [''x'']" for i b
    by (auto simp: sample_coordinator_def)
  have valid: "\<forall>i b. sc_backends ?c i = Some b \<longrightarrow> any_valid sample_scd sample_bcd b"
    by (auto simp: bk sample_valid)
  have fit: "\<forall>i j src dst k x raw. sc_backends ?c i = Some src \<longrightarrow> sc_backends ?c j = Some dst \<longrightarrow>
      any_lookup sample_scd sample_bcd src k = Some x \<longrightarrow> any_encode sample_scd sample_bcd x = Inr raw \<longrightarrow>
      any_fits sample_scd sample_bcd dst \<lparr>sd_Key = k, sd_Data = raw\<rparr>"
    by (auto simp: bk sample_lookup sample_encode sample_fits split: if_splits)
  have gone: "sc_backends (shard_apply ?ops no_shard_faults 7 (OpRollback ''m'') ?c) ''b'' = Some (sample_dst [])"
    using sample_range(1)
    by (simp add: sample_shard_defs Shard_Rollback_def Shard_Get_def Shard_backend_def no_shard_faults_def
        Mongo_DeleteRange_def no_backend_faults_def rangeFilter_def after_ok_def)
  have "sc_backends ?c ''b'' = Some (sample_dst [''x''])" by (simp add: bk)
  from documents_disappear_only [OF valid fit this gone, of "''x''"] show ?thesis
    by (auto simp: dom_def sample_lookup)
qed

theorem rollback_again_deletes_witness:
  "fst (Shard_Rollback (any_ops sample_scd sample_bcd no_backend_faults) no_shard_faults 7 ''m''
     (sample_coordinator MigrationRolledBack [''x''])) = Inl (errors_New ''invalid migration transition'')"
proof -
  let ?m = "sample_migration MigrationRolledBack" and ?c = "sample_coordinator MigrationRolledBack [''x'']"
  obtain res c' where rb: "Shard_Rollback (any_ops sample_scd sample_bcd no_backend_faults) no_shard_faults 7 (mg_ID ?m) ?c = (res, c')"
    by fastforce
  have "distinct (map mg_ID (sc_rows ?c))" "?m \<in> set (sc_rows ?c)" "mg_State ?m = MigrationRolledBack"
    "sc_backends ?c (mg_Destination ?m) = Some (sample_dst [''x''])"
    by (simp_all add: sample_coordinator_def) (simp_all add: sample_migration_def)
  from rollback_again_deletes [OF this sample_valid(2) rb] rb show ?thesis by (simp add: sample_migration_def)
qed

theorem migration_protocol_witness:
  "\<exists>n. n \<in> set (sc_rows (shard_apply (any_ops sample_scd sample_bcd no_backend_faults) no_shard_faults 0 (OpCreate (sample_migration MigrationPlanned))
     (shard_apply (any_ops sample_scd sample_bcd no_backend_faults) no_shard_faults 0 (OpRegister (Some (sample_dst [])))
     (shard_apply (any_ops sample_scd sample_bcd no_backend_faults) no_shard_faults 0 (OpRegister (Some sample_src))
       \<lparr>sc_rows = [], sc_backends = Map.empty\<rparr>)))) \<and> same_migration (sample_migration MigrationPlanned) n"
proof -
  let ?app = "shard_apply (any_ops sample_scd sample_bcd no_backend_faults) no_shard_faults 0"
  let ?empty = "\<lparr>sc_rows = [], sc_backends = Map.empty\<rparr> :: (string, string) any_backend ShardCoordinator"
  let ?c = "?app (OpCreate (sample_migration MigrationPlanned)) (?app (OpRegister (Some (sample_dst []))) (?app (OpRegister (Some sample_src)) ?empty))"
  have init: "shard_init ?empty" unfolding shard_init_def by (rule exI [of _ no_shard_faults]) (simp add: NewShardCoordinator_def no_shard_faults_def)
  have step: "reachable shard_init shard_trans d \<Longrightarrow> reachable shard_init shard_trans (?app op d)" for op d
    by (erule reachable_step) (rule shard_trans.intros)
  have "reachable shard_init shard_trans ?c"
    by (intro step) (rule reachable_init [of shard_init, OF init])
  moreover have "sample_migration MigrationPlanned \<in> set (sc_rows ?c)"
    by (simp add: sample_shard_defs Shard_Register_def Shard_Create_def Shard_backend_def no_shard_faults_def UnixMilli_def)
  ultimately show ?thesis
    using migration_protocol [of ?c "sample_migration MigrationPlanned" ?c ?c] by blast
qed

end
