(* ===== verification/Go_Json_Text.thy ===== *)
theory Go_Json_Text
  imports Go_Json
begin

text \<open>
  Round trips of the JSON building blocks: decimal numbers, base64 and quoted strings decode to what
  was encoded, strings under the condition that they are well-formed UTF-8.
\<close>

section \<open>Characters and numbers\<close>

lemma is_digit_code: "is_digit c \<longleftrightarrow> 48 \<le> (of_char c :: nat) \<and> of_char c \<le> (57::nat)"
  by (simp add: is_digit_def less_eq_char_def)

lemma of_char_char_of [simp]: "of_char (char_of n) = (n mod 256 :: nat)"
  by (simp add: take_bit_eq_mod)

lemma of_char_bound: "of_char c < (256::nat)"
  by (metis of_char_char_of char_of_char mod_less_divisor zero_less_numeral)

lemma char_eq_code: "c = d \<longleftrightarrow> (of_char c :: nat) = of_char d"
  by (metis char_of_char)

subsection \<open>Decimal numbers\<close>

lemma dec_nat_append: "dec_nat (s @ [c]) = 10 * dec_nat s + (of_char c - 48)"
  by (simp add: dec_nat_def)

lemma nat_dec_digits: "nat_dec n \<noteq> [] \<and> list_all is_digit (nat_dec n)"
proof (induction n rule: nat_dec.induct)
  case (1 n)
  have "is_digit (char_of (48 + k))" if "k < 10" for k :: nat
    using that by (simp add: is_digit_code)
  with 1 show ?case by (subst (1 2) nat_dec.simps) auto
qed

lemma dec_nat_nat_dec [simp]: "dec_nat (nat_dec n) = n"
proof (induction n rule: nat_dec.induct)
  case (1 n)
  show ?case
  proof (cases "n < 10")
    case True
    then show ?thesis by (subst nat_dec.simps) (simp add: dec_nat_def)
  next
    case False
    with 1 show ?thesis by (subst nat_dec.simps) (simp add: dec_nat_append)
  qed
qed

lemma nat_dec_no_zero: "0 < n \<Longrightarrow> hd (nat_dec n) \<noteq> CHR ''0''"
proof (induction n rule: nat_dec.induct)
  case (1 n)
  show ?case
  proof (cases "n < 10")
    case True
    then have "of_char (hd (nat_dec n)) = 48 + n" by (subst nat_dec.simps) simp
    with 1(2) show ?thesis by (auto simp: char_eq_code)
  next
    case False
    with 1 have "hd (nat_dec (n div 10)) \<noteq> CHR ''0''" by simp
    with False show ?thesis by (subst nat_dec.simps) (simp add: nat_dec_digits)
  qed
qed

lemma ParseInt_int_dec: "int64_range i \<Longrightarrow> strconv_ParseInt (int_dec i) = Some i"
proof -
  have "hd (nat_dec n) \<noteq> CHR ''-''" for n
    using nat_dec_digits [of n] by (cases "nat_dec n") (auto simp: is_digit_code)
  then show "int64_range i \<Longrightarrow> strconv_ParseInt (int_dec i) = Some i"
    by (auto simp: strconv_ParseInt_def int_dec_def nat_dec_digits)
qed

lemma ParseUint_nat_dec: "n < 2 ^ 64 \<Longrightarrow> strconv_ParseUint (nat_dec n) = Some n"
  by (simp add: strconv_ParseUint_def nat_dec_digits)

subsection \<open>Base64\<close>

lemma b64_index_char:
  assumes "n < 64"
  shows "b64_index b64_alphabet (b64_char n) = Some n" and "b64_char n \<noteq> CHR ''=''"
proof -
  have "\<forall>n \<in> set [0..<64]. b64_index b64_alphabet (b64_char n) = Some n \<and> b64_char n \<noteq> CHR ''=''"
    by code_simp
  with assms show "b64_index b64_alphabet (b64_char n) = Some n" "b64_char n \<noteq> CHR ''=''" by auto
qed

lemma b64_char_mod: "b64_char (n mod 64) = b64_char n"
  by (simp add: b64_char_def)

lemma b64_char_cases:
  "b64_index b64_alphabet (b64_char n) = Some (n mod 64)" "b64_char n \<noteq> CHR ''=''"
  using b64_index_char [of "n mod 64"] by (simp_all add: b64_char_mod)

text \<open>The four sextets of three bytes, and the bytes from the sextets.\<close>

lemma b64_sextets:
  fixes x y z :: nat
  assumes "x < 256" and "y < 256" and "z < 256" and n: "n = 0x10000 * x + 0x100 * y + z"
  shows "n div 0x40000 mod 64 = x div 4" and "n div 0x1000 mod 64 = x mod 4 * 16 + y div 16"
    and "n div 0x40 mod 64 = y mod 16 * 4 + z div 64" and "n mod 64 = z mod 64"
proof -
  let ?j = "x mod 4 * 16 + y div 16" and ?k = "y mod 16 * 4 + z div 64"
  have lin: "65536 * (4 * p + q) + 256 * (16 * r + s) + (64 * t + u) = (((p * 64 + (q * 16 + r)) * 64 + (s * 4 + t)) * 64 + u)"
    for p q r s t u :: nat by simp
  have split: "n = (((x div 4) * 64 + ?j) * 64 + ?k) * 64 + z mod 64"
    using lin [of "x div 4" "x mod 4" "y div 16" "y mod 16" "z div 64" "z mod 64"] n by simp
  have bounds: "?j < 64" "?k < 64" "x div 4 < 64" "z mod 64 < 64"
    using assms(1-3) by (auto simp: less_mult_imp_div_less)
  have q: "v < 64 \<Longrightarrow> (u * 64 + v) div 64 = u" for u v :: nat by simp
  have d1: "n div 64 = ((x div 4) * 64 + ?j) * 64 + ?k" unfolding split by (rule q [OF bounds(4)])
  have d2: "n div 64 div 64 = (x div 4) * 64 + ?j" unfolding d1 by (rule q [OF bounds(2)])
  have d3: "n div 64 div 64 div 64 = x div 4" unfolding d2 by (rule q [OF bounds(1)])
  show "n div 0x40000 mod 64 = x div 4" using d3 bounds(3) by (simp add: div_mult2_eq [symmetric])
  have m: "v < 64 \<Longrightarrow> (u * 64 + v) mod 64 = v" for u v :: nat by simp
  have "n div 0x1000 = n div 64 div 64" by (simp add: div_mult2_eq [symmetric])
  then show "n div 0x1000 mod 64 = ?j" unfolding d2 using m [OF bounds(1)] by simp
  show "n div 0x40 mod 64 = ?k" unfolding d1 by (rule m [OF bounds(2)])
  have "(u * 64 + v) mod 64 = v mod 64" for u v :: nat by simp
  then show "n mod 64 = z mod 64" by (subst split) (simp only: mod_mod_trivial)
qed

lemma b64_bytes:
  fixes x y z :: nat
  assumes "y < 256" and "z < 256"
  shows "x div 4 * 4 + (x mod 4 * 16 + y div 16) div 16 = x"
    and "(x mod 4 * 16 + y div 16) mod 16 * 16 + (y mod 16 * 4 + z div 64) div 4 = y"
    and "(y mod 16 * 4 + z div 64) mod 4 * 64 + z mod 64 = z"
proof -
  have "y div 16 < 16" "z div 64 < 4" using assms by (simp_all add: less_mult_imp_div_less)
  then show "x div 4 * 4 + (x mod 4 * 16 + y div 16) div 16 = x"
    "(x mod 4 * 16 + y div 16) mod 16 * 16 + (y mod 16 * 4 + z div 64) div 4 = y"
    "(y mod 16 * 4 + z div 64) mod 4 * 64 + z mod 64 = z" by simp_all
qed

lemma b64_bytes_all:
  fixes x y z :: nat
  assumes "y < 256" and "z < 256"
  shows "x div 4 * 4 + (x mod 4 * 16 + y div 16) div 16 = x
    \<and> (x mod 4 * 16 + y div 16) mod 16 * 16 + (y mod 16 * 4 + z div 64) div 4 = y
    \<and> (y mod 16 * 4 + z div 64) mod 4 * 64 + z mod 64 = z"
  using b64_bytes [OF assms] by simp

lemma b64_indices:
  assumes "n = 0x10000 * of_char a + 0x100 * y + z" and "y < 256" and "z < 256"
  shows "b64_index b64_alphabet (b64_char (n div 0x40000)) = Some (of_char a div 4)"
    and "b64_index b64_alphabet (b64_char (n div 0x1000)) = Some (of_char a mod 4 * 16 + y div 16)"
    and "b64_index b64_alphabet (b64_char (n div 0x40)) = Some (y mod 16 * 4 + z div 64)"
    and "b64_index b64_alphabet (b64_char n) = Some (z mod 64)"
  unfolding b64_char_cases(1) b64_sextets [OF of_char_bound assms(2,3,1)] by (rule refl)+

lemma b64_decode_quad:
  assumes "b64_index b64_alphabet a = Some i" and "b64_index b64_alphabet b = Some j"
  shows "b64_decode [a, b, CHR ''='', CHR ''=''] = Some [char_of (i * 4 + j div 16)]"
    and "b64_index b64_alphabet c = Some k \<Longrightarrow> c \<noteq> CHR ''='' \<Longrightarrow> b64_decode [a, b, c, CHR ''=''] =
      Some [char_of (i * 4 + j div 16), char_of (j mod 16 * 16 + k div 4)]"
    and "b64_index b64_alphabet c = Some k \<Longrightarrow> c \<noteq> CHR ''='' \<Longrightarrow> b64_index b64_alphabet d = Some l \<Longrightarrow>
      d \<noteq> CHR ''='' \<Longrightarrow> b64_decode s = Some r \<Longrightarrow> b64_decode (a # b # c # d # s) =
      Some (char_of (i * 4 + j div 16) # char_of (j mod 16 * 16 + k div 4) # char_of (k mod 4 * 64 + l) # r)"
  using assms by (simp_all add: Let_def)

lemma b64_round: "b64_decode (b64_encode b) = Some b"
proof (induction b rule: b64_encode.induct)
  case (2 a)
  define n where "n = 0x10000 * of_char a + 0x100 * 0 + (0::nat)"
  have enc: "b64_encode [a] = [b64_char (n div 0x40000), b64_char (n div 0x1000), CHR ''='', CHR ''='']"
    by (simp add: n_def Let_def)
  have z: "(0::nat) < 256" by simp
  show ?case
    unfolding enc b64_decode_quad(1) [OF b64_indices(1,2) [OF n_def z z]] b64_bytes(1) [OF z z] by simp
next
  case (3 a b)
  define n where "n = 0x10000 * of_char a + 0x100 * of_char b + (0::nat)"
  have enc: "b64_encode [a, b] = [b64_char (n div 0x40000), b64_char (n div 0x1000), b64_char (n div 0x40), CHR ''='']"
    by (simp add: n_def Let_def)
  have z: "(0::nat) < 256" by simp
  note idx = b64_indices [OF n_def of_char_bound z]
  show ?case
    unfolding enc b64_decode_quad(2) [OF idx(1-3) b64_char_cases(2)] b64_bytes(1,2) [OF of_char_bound z] by simp
next
  case (4 a b c s)
  define n where "n = 0x10000 * of_char a + 0x100 * of_char b + (of_char c :: nat)"
  have enc: "b64_encode (a # b # c # s) =
      b64_char (n div 0x40000) # b64_char (n div 0x1000) # b64_char (n div 0x40) # b64_char n # b64_encode s"
    by (simp add: n_def Let_def)
  note idx = b64_indices [OF n_def of_char_bound of_char_bound]
  show ?case
    unfolding enc b64_decode_quad(3) [OF idx(1-3) b64_char_cases(2) idx(4) b64_char_cases(2) 4 [OF refl]]
      b64_bytes [OF of_char_bound of_char_bound] by simp
qed simp

subsection \<open>Strings\<close>

text \<open>Well-formed UTF-8.\<close>

function utf8_valid :: "string \<Rightarrow> bool" where
  "utf8_valid [] = True"
| "utf8_valid (c # s) = (0 < utf8_len (c # s) \<and> utf8_valid (drop (utf8_len (c # s) - 1) s))"
  by pat_completeness auto
termination by (relation "measure length") auto

lemma utf8_len_ascii: "of_char c < (128::nat) \<Longrightarrow> utf8_len (c # s) = 1"
  by (simp add: utf8_len_def in_range_def)

definition utf8_cont :: "string \<Rightarrow> nat \<Rightarrow> nat \<Rightarrow> nat \<Rightarrow> bool" where
  "utf8_cont t lo hi i \<longleftrightarrow> i < length t \<and> in_range lo hi (t ! i)"

lemma utf8_len_form:
  obtains p1 p2 p3 p4 lo3 hi3 lo4 hi4 where
    "\<And>t. utf8_len (c # t) = (if p1 then 1 else if p2 then (if utf8_cont t 0x80 0xBF 0 then 2 else 0)
       else if p3 then (if utf8_cont t lo3 hi3 0 \<and> utf8_cont t 0x80 0xBF 1 then 3 else 0)
       else if p4 then (if utf8_cont t lo4 hi4 0 \<and> utf8_cont t 0x80 0xBF 1 \<and> utf8_cont t 0x80 0xBF 2 then 4 else 0)
       else 0)"
    and "0x80 \<le> lo3" and "0x80 \<le> lo4"
  by (rule that [of "in_range 0 0x7F c" "in_range 0xC2 0xDF c" "in_range 0xE0 0xEF c"
        "if in_range 0xE0 0xE0 c then 0xA0 else 0x80" "if in_range 0xED 0xED c then 0x9F else 0xBF"
        "in_range 0xF0 0xF4 c" "if in_range 0xF0 0xF0 c then 0x90 else 0x80"
        "if in_range 0xF4 0xF4 c then 0x8F else 0xBF"])
    (simp_all only: utf8_len_def list.case Let_def utf8_cont_def, simp_all)

lemma utf8_len_le: "utf8_len s \<le> length s"
proof (cases s)
  case (Cons c t)
  have cont: "utf8_cont t lo hi i \<Longrightarrow> Suc i \<le> length t" for lo hi i by (simp add: utf8_cont_def)
  show ?thesis
    unfolding Cons
  proof (rule utf8_len_form [of c])
    fix p1 p2 p3 p4 lo3 hi3 lo4 hi4
    assume form: "\<And>t. utf8_len (c # t) = (if p1 then 1 else if p2 then (if utf8_cont t 0x80 0xBF 0 then 2 else 0)
       else if p3 then (if utf8_cont t lo3 hi3 0 \<and> utf8_cont t 0x80 0xBF 1 then 3 else 0)
       else if p4 then (if utf8_cont t lo4 hi4 0 \<and> utf8_cont t 0x80 0xBF 1 \<and> utf8_cont t 0x80 0xBF 2 then 4 else 0)
       else 0)"
    show "utf8_len (c # t) \<le> length (c # t)"
      unfolding form using cont [of "0x80" "0xBF" 0] cont [of "0x80" "0xBF" 1] cont [of "0x80" "0xBF" 2] by auto
  qed
qed (simp add: utf8_len_def)

lemma utf8_len_prefix:
  assumes "0 < utf8_len (c # s)"
  shows "utf8_len (c # take (utf8_len (c # s) - 1) s @ t) = utf8_len (c # s)"
proof (rule utf8_len_form [of c])
  fix p1 p2 p3 p4 lo3 hi3 lo4 hi4
  assume form: "\<And>t. utf8_len (c # t) = (if p1 then 1 else if p2 then (if utf8_cont t 0x80 0xBF 0 then 2 else 0)
       else if p3 then (if utf8_cont t lo3 hi3 0 \<and> utf8_cont t 0x80 0xBF 1 then 3 else 0)
       else if p4 then (if utf8_cont t lo4 hi4 0 \<and> utf8_cont t 0x80 0xBF 1 \<and> utf8_cont t 0x80 0xBF 2 then 4 else 0)
       else 0)"
  have "utf8_cont s lo hi i \<Longrightarrow> i < n \<Longrightarrow> utf8_cont (take n s @ t) lo hi i" for n lo hi i
    by (auto simp: utf8_cont_def nth_append)
  then show ?thesis using assms unfolding form by (simp split: if_splits)
qed

lemma utf8_cont_high: "utf8_cont t lo hi i \<Longrightarrow> 0x80 \<le> lo \<Longrightarrow> 128 \<le> (of_char (t ! i) :: nat)"
  by (simp add: utf8_cont_def in_range_def)

lemma utf8_len_high:
  assumes "128 \<le> (of_char c :: nat)" and "d \<in> set (take (utf8_len (c # s)) (c # s))"
  shows "128 \<le> (of_char d :: nat)"
proof (rule utf8_len_form [of c])
  fix p1 p2 p3 p4 lo3 hi3 lo4 hi4
  assume form: "\<And>t. utf8_len (c # t) = (if p1 then 1 else if p2 then (if utf8_cont t 0x80 0xBF 0 then 2 else 0)
       else if p3 then (if utf8_cont t lo3 hi3 0 \<and> utf8_cont t 0x80 0xBF 1 then 3 else 0)
       else if p4 then (if utf8_cont t lo4 hi4 0 \<and> utf8_cont t 0x80 0xBF 1 \<and> utf8_cont t 0x80 0xBF 2 then 4 else 0)
       else 0)" and lo: "0x80 \<le> lo3" "0x80 \<le> lo4"
  have "128 \<le> (of_char (s ! i) :: nat)" if i: "Suc i < utf8_len (c # s)" for i
  proof -
    have "i = 0 \<or> i = 1 \<or> i = 2" using i unfolding form by (auto split: if_splits)
    then show ?thesis
      using i lo utf8_cont_high [of s _ _ i] unfolding form
      by (auto split: if_splits simp: numeral_2_eq_2)
  qed
  moreover obtain j where "j < utf8_len (c # s)" "j < length (c # s)" "d = (c # s) ! j"
    using assms(2) by (auto simp: in_set_conv_nth)
  ultimately show ?thesis using assms(1) by (cases j) auto
qed

lemma hexval_hexdigit: "hexval (hexdigit n) = n mod 16" "is_hex (hexdigit n)"
proof -
  have "\<forall>k \<in> set [0..<16]. hexval (hexdigit k) = k \<and> is_hex (hexdigit k)" by code_simp
  moreover have "hexdigit n = hexdigit (n mod 16)" by (simp add: hexdigit_def)
  ultimately show "hexval (hexdigit n) = n mod 16" "is_hex (hexdigit n)" by auto
qed

lemma unquote_u00:
  assumes "of_char c < (128::nat)"
  shows "unquote_body (u00 c @ t) = c # unquote_body t"
proof -
  have z: "hexval CHR ''0'' = 0" by code_simp
  have "hex4 (''00'' @ [hexdigit (of_char c div 16), hexdigit (of_char c)] @ t) = of_char c"
    using assms by (simp add: hex4_def z hexval_hexdigit)
  then show ?thesis
    using assms by (simp add: u00_def Let_def utf8_encode_def)
qed

lemma unquote_ascii:
  assumes "of_char c < (128::nat)"
  shows "unquote_body (quote_ascii c @ t) = c # unquote_body t"
  using assms unquote_u00 [OF assms, of t] by (auto simp: quote_ascii_def unesc_def)

lemma unquote_plain:
  assumes "128 \<le> (of_char c :: nat)" and "0 < utf8_len (c # s)"
  shows "unquote_body (c # take (utf8_len (c # s) - 1) s @ t) = c # take (utf8_len (c # s) - 1) s @ unquote_body t"
proof -
  let ?n = "utf8_len (c # s)" and ?u = "take (utf8_len (c # s) - 1) s"
  have len: "length ?u = ?n - 1" using utf8_len_le [of "c # s"] by simp
  have "c \<noteq> BS" using assms(1) by auto
  moreover have "take ?n (c # ?u @ t) = c # ?u" "drop (?n - 1) (?u @ t) = t"
    using assms(2) len by (auto simp: take_Cons' )
  ultimately show ?thesis
    using assms utf8_len_prefix [OF assms(2), of t] by (simp add: Let_def)
qed

lemma unquote_u2028:
  "unquote_body (BS # ''u2028'' @ t) = [CHR 0xE2, CHR 0x80, CHR 0xA8] @ unquote_body t"
  "unquote_body (BS # ''u2029'' @ t) = [CHR 0xE2, CHR 0x80, CHR 0xA9] @ unquote_body t"
proof -
  have "hex4 (''2028'' @ t) = 0x2028" "hex4 (''2029'' @ t) = 0x2029"
    by (simp_all add: hex4_def hexval_def is_digit_code less_eq_char_def)
  then show "unquote_body (BS # ''u2028'' @ t) = [CHR 0xE2, CHR 0x80, CHR 0xA8] @ unquote_body t"
    "unquote_body (BS # ''u2029'' @ t) = [CHR 0xE2, CHR 0x80, CHR 0xA9] @ unquote_body t"
    by (simp_all add: Let_def utf8_encode_def char_eq_code)
qed

lemma unquote_quote: "utf8_valid s \<Longrightarrow> unquote_body (quote_body s) = s"
proof (induction s rule: length_induct)
  case (1 s)
  show ?case
  proof (cases s)
    case (Cons c t)
    let ?n = "utf8_len (c # t)"
    have n: "0 < ?n" "utf8_valid (drop (?n - 1) t)" using 1(2) Cons by simp_all
    have IH: "unquote_body (quote_body (drop (?n - 1) t)) = drop (?n - 1) t"
      using 1(1) Cons n(2) by simp
    have tk: "take ?n (c # t) = c # take (?n - 1) t" using n(1) by (simp add: take_Cons')
    have s: "s = take ?n (c # t) @ drop (?n - 1) t" unfolding tk Cons by simp
    show ?thesis
    proof (cases "of_char c < (128::nat)")
      case True
      then show ?thesis using IH by (simp add: Cons unquote_ascii utf8_len_ascii)
    next
      case False
      define u r where "u = take ?n (c # t)" and "r = quote_body (drop (?n - 1) t)"
      have quote: "quote_body s = (if u = [CHR 0xE2, CHR 0x80, CHR 0xA8] then BS # ''u2028'' @ r
           else if u = [CHR 0xE2, CHR 0x80, CHR 0xA9] then BS # ''u2029'' @ r else u @ r)"
        using False n(1) by (simp add: Cons Let_def u_def r_def)
      have "unquote_body (u @ r) = u @ unquote_body r"
        using unquote_plain [of c t r] False n(1) by (simp only: u_def tk append_Cons)
      then have "unquote_body (quote_body s) = u @ unquote_body r"
        using unquote_u2028 [of r] unfolding quote by (auto simp del: unquote_body.simps)
      then show ?thesis unfolding r_def u_def IH s [symmetric] .
    qed
  qed simp
qed

end
