(* ===== verification/Go_Json_Struct.thy ===== *)
theory Go_Json_Struct
  imports Go_Json_Text
begin

text \<open>
  The texts that encoded structs have: the scanner accepts quoted strings, base64 literals, numbers
  and objects of accepted values as one value wherever they stand; cutting an encoded object at its
  commas and colons gives its members back; so decoding an encoded struct stores its members one
  after the other.
\<close>

section \<open>Texts the scanner accepts as one value\<close>

lemma scan_run_append: "scan_run k (s @ t) = scan_run (scan_run k s) t"
  by (induction s arbitrary: k) simp_all

text \<open>In a state that ends a value, the bytes that may follow it are handled by the enclosing value.\<close>

definition ends :: "jstate \<Rightarrow> jframe list \<Rightarrow> bool" where
  "ends st fs \<longleftrightarrow> (\<forall>c \<in> set '' ,:}]''. scan_step (st, fs) c = endValue fs c)"

lemma ends_states [simp]:
  "ends EndValue fs" "ends S0 fs" "ends S1 fs" "ends SDot0 fs" "ends SE0 fs" "ends EndTop []"
  by (auto simp: ends_def is_digit_code scan_expect_def is_space_def)

definition scans :: "nat \<Rightarrow> bytes \<Rightarrow> bool" where
  "scans n v \<longleftrightarrow> (\<forall>fs. length fs + n \<le> maxNestingDepth \<longrightarrow>
     (\<exists>st. scan_run (BeginValue, fs) v = (st, fs) \<and> ends st fs))"

lemma scans_mono: "scans n v \<Longrightarrow> n \<le> m \<Longrightarrow> scans m v"
  by (simp add: scans_def)

lemma scans_literals: "scans 0 ''null''" "scans 0 ''true''" "scans 0 ''false''"
  by (simp_all add: scans_def beginValue_def is_space_def scan_expect_def)

subsection \<open>Strings and numbers\<close>

lemma scan_high:
  "\<forall>c \<in> set s. 128 \<le> (of_char c :: nat) \<Longrightarrow> scan_run (InString, fs) s = (InString, fs)"
proof (induction s)
  case (Cons c s)
  have "c \<noteq> DQ" "c \<noteq> BS" "CHR 0x20 \<le> c" using Cons.prems by (auto simp: less_eq_char_def)
  with Cons show ?case by (simp add: scan_expect_def)
qed simp

lemma scan_hex4:
  "is_hex a \<Longrightarrow> is_hex b \<Longrightarrow> is_hex c \<Longrightarrow> is_hex d \<Longrightarrow>
     scan_run (InString, fs) [BS, CHR ''u'', a, b, c, d] = (InString, fs)"
  by (simp add: scan_expect_def)

lemma is_hex_literals: "is_hex CHR ''0''" "is_hex CHR ''2''" "is_hex CHR ''8''" "is_hex CHR ''9''"
    "is_hex CHR ''f''" "is_hex CHR ''d''"
  by (simp_all add: is_hex_def is_digit_code less_eq_char_def)

lemma scan_u00: "scan_run (InString, fs) (u00 c) = (InString, fs)"
  using scan_hex4 [of "CHR ''0''" "CHR ''0''" "hexdigit (of_char c div 16)" "hexdigit (of_char c)"]
  by (simp add: u00_def is_hex_literals hexval_hexdigit)

lemma scan_ascii:
  assumes "of_char c < (128::nat)"
  shows "scan_run (InString, fs) (quote_ascii c) = (InString, fs)"
proof -
  have "quote_ascii c = [c] \<Longrightarrow> c \<noteq> DQ \<and> c \<noteq> BS \<and> CHR 0x20 \<le> c"
    by (auto simp: quote_ascii_def less_eq_char_def u00_def split: if_splits)
  then have plain: "quote_ascii c = [c] \<Longrightarrow> ?thesis" by (simp add: scan_expect_def)
  show ?thesis
  proof (cases "quote_ascii c = [c]")
    case False
    then show ?thesis
      using scan_u00 [of fs c] by (auto simp: quote_ascii_def scan_expect_def split: if_splits)
  qed (rule plain)
qed

lemma scan_quote_body: "scan_run (InString, fs) (quote_body s) = (InString, fs)"
proof (induction s rule: length_induct)
  case (1 s)
  show ?case
  proof (cases s)
    case (Cons c t)
    let ?n = "utf8_len (c # t)"
    have IH: "scan_run (InString, fs) (quote_body (drop k t)) = (InString, fs)" for k
      using 1 Cons by simp
    have esc: "scan_run (InString, fs) (BS # ''u2028'') = (InString, fs)"
      "scan_run (InString, fs) (BS # ''u2029'') = (InString, fs)"
      "scan_run (InString, fs) (BS # ''ufffd'') = (InString, fs)"
      by (simp_all add: scan_expect_def is_hex_literals)
    show ?thesis
    proof (cases "of_char c < (128::nat)")
      case True
      then show ?thesis using IH [of 0] by (simp add: Cons scan_run_append scan_ascii)
    next
      case False
      have high: "scan_run (InString, fs) (take ?n (c # t)) = (InString, fs)"
        using False by (intro scan_high ballI) (erule utf8_len_high [rotated], simp)
      define u r where "u = take ?n (c # t)" and "r = quote_body (drop (?n - 1) t)"
      have "quote_body s = (if ?n = 0 then (BS # ''ufffd'') @ quote_body (drop 0 t)
           else if u = [CHR 0xE2, CHR 0x80, CHR 0xA8] then (BS # ''u2028'') @ r
           else if u = [CHR 0xE2, CHR 0x80, CHR 0xA9] then (BS # ''u2029'') @ r else u @ r)"
        using False by (simp add: Cons Let_def u_def r_def)
      moreover have "scan_run (InString, fs) ((BS # ''ufffd'') @ quote_body (drop 0 t)) = (InString, fs)"
        unfolding scan_run_append esc by (rule IH)
      moreover have "scan_run (InString, fs) ((BS # ''u2028'') @ r) = (InString, fs)"
        unfolding scan_run_append esc r_def by (rule IH)
      moreover have "scan_run (InString, fs) ((BS # ''u2029'') @ r) = (InString, fs)"
        unfolding scan_run_append esc r_def by (rule IH)
      moreover have "scan_run (InString, fs) (u @ r) = (InString, fs)"
        unfolding scan_run_append u_def high r_def by (rule IH)
      ultimately show ?thesis by presburger
    qed
  qed simp
qed

lemma scan_string:
  assumes "scan_run (InString, fs) s = (InString, fs)" and "st \<in> {BeginValue, BeginString, BeginStringOrEmpty}"
  shows "scan_run (st, fs) (DQ # s @ [DQ]) = (EndValue, fs)"
  using assms by (auto simp: scan_run_append beginValue_def beginString_def is_space_def)

lemma scans_quote: "scans 0 (json_quote s)"
  unfolding scans_def json_quote_def
  by (intro allI impI exI conjI, rule scan_string [OF scan_quote_body]) simp_all

lemma scan_b64: "scan_run (InString, fs) (b64_encode b) = (InString, fs)"
proof -
  have "\<forall>n \<in> set [0..<64]. b64_char n \<noteq> DQ \<and> b64_char n \<noteq> BS \<and> CHR 0x20 \<le> b64_char n" by code_simp
  then have "n < 64 \<Longrightarrow> b64_char n \<noteq> DQ \<and> b64_char n \<noteq> BS \<and> CHR 0x20 \<le> b64_char n" for n by auto
  then have "b64_char n \<noteq> DQ \<and> b64_char n \<noteq> BS \<and> CHR 0x20 \<le> b64_char n" for n
    by (metis b64_char_mod mod_less_divisor zero_less_numeral)
  then have "scan_step (InString, fs) (b64_char n) = (InString, fs)" for n by (simp add: scan_expect_def)
  moreover have "scan_step (InString, fs) CHR ''='' = (InString, fs)" by (simp add: scan_expect_def less_eq_char_def)
  ultimately show ?thesis
    by (induction b rule: b64_encode.induct) (simp_all add: Let_def del: scan_step.simps)
qed

lemma scans_bytes: "scans 0 (json_bytes b)"
  unfolding scans_def json_bytes_def
  by (intro allI impI exI conjI, rule scan_string [OF scan_b64]) simp_all

lemma scan_digits: "list_all is_digit s \<Longrightarrow> scan_run (S1, fs) s = (S1, fs)"
  by (induction s) simp_all

lemma is_digit_not:
  "is_digit c \<Longrightarrow> c \<noteq> DQ \<and> \<not> is_space c \<and> c \<noteq> CHR ''{'' \<and> c \<noteq> CHR ''['' \<and> c \<noteq> CHR ''-'' \<and> c \<noteq> CHR ''t''
     \<and> c \<noteq> CHR ''f'' \<and> c \<noteq> CHR ''n''"
  by (auto simp: is_digit_code is_space_def)

lemma scan_nat_dec:
  obtains st where "scan_run (BeginValue, fs) (nat_dec n) = (st, fs)"
    and "scan_run (SNeg, fs) (nat_dec n) = (st, fs)" and "ends st fs"
proof (cases "n = 0")
  case True
  have "nat_dec 0 = ''0''" by (simp add: nat_dec.simps char_eq_code)
  with True that [of S0] show thesis by (simp add: beginValue_def is_space_def)
next
  case False
  obtain c s where cs: "nat_dec n = c # s" using nat_dec_digits [of n] by (cases "nat_dec n") auto
  then have c: "is_digit c" "list_all is_digit s" "c \<noteq> CHR ''0''"
    using nat_dec_digits [of n] nat_dec_no_zero [of n] False by auto
  with that [of S1] is_digit_not [OF c(1)] show thesis
    by (simp add: cs beginValue_def scan_digits scan_expect_def)
qed

lemma scans_int: "scans 0 (int_dec i)"
  unfolding scans_def int_dec_def
  by (auto simp: beginValue_def is_space_def) (metis scan_nat_dec)+

lemma scans_nat: "scans 0 (nat_dec n)"
  unfolding scans_def by (metis scan_nat_dec)

subsection \<open>Objects\<close>

lemma popParseState_ends: "\<exists>st. popParseState fs = (st, fs) \<and> ends st fs"
  by (simp add: popParseState_def)

lemma scan_member:
  assumes "scans n (snd kv)" and "length fs + Suc n \<le> maxNestingDepth" and "st \<in> {BeginString, BeginStringOrEmpty}"
  shows "\<exists>st'. scan_run (st, ParseObjectKey # fs) (json_member kv) = (st', ParseObjectValue # fs) \<and> ends st' (ParseObjectValue # fs)"
proof -
  have "scan_run (st, ParseObjectKey # fs) (json_quote (fst kv)) = (EndValue, ParseObjectKey # fs)"
    unfolding json_quote_def by (rule scan_string [OF scan_quote_body]) (use assms(3) in auto)
  moreover have "scan_step (EndValue, ParseObjectKey # fs) CHR '':'' = (BeginValue, ParseObjectValue # fs)"
    by (simp add: is_space_def)
  moreover obtain st' where "scan_run (BeginValue, ParseObjectValue # fs) (snd kv) = (st', ParseObjectValue # fs)"
    "ends st' (ParseObjectValue # fs)"
    using assms(1,2) unfolding scans_def by (metis add_Suc add_Suc_right length_Cons)
  ultimately show ?thesis
    by (intro exI [of _ st']) (simp add: json_member_def scan_run_append del: scan_step.simps)
qed

lemma scan_members:
  assumes "kvs \<noteq> []" and "list_all (\<lambda>kv. scans n (snd kv)) kvs" and "length fs + Suc n \<le> maxNestingDepth"
    and "st \<in> {BeginString, BeginStringOrEmpty}"
  shows "scan_run (st, ParseObjectKey # fs) (join_with CHR '','' (map json_member kvs) @ ''}'') = popParseState fs"
  using assms
proof (induction kvs arbitrary: st)
  case (Cons kv kvs)
  obtain st' where st': "scan_run (st, ParseObjectKey # fs) (json_member kv) = (st', ParseObjectValue # fs)"
    "ends st' (ParseObjectValue # fs)"
    using scan_member [of n kv fs st] Cons.prems by auto
  then have sep: "scan_step (st', ParseObjectValue # fs) CHR '','' = (BeginString, ParseObjectKey # fs)"
    "scan_step (st', ParseObjectValue # fs) CHR ''}'' = popParseState fs"
    by (auto simp: ends_def is_space_def)
  show ?case
  proof (cases kvs)
    case Nil
    then show ?thesis using st' sep by (simp add: scan_run_append)
  next
    case (Cons kv' kvs')
    then have "scan_run (BeginString, ParseObjectKey # fs) (join_with CHR '','' (map json_member kvs) @ ''}'') = popParseState fs"
      using Cons.IH [of BeginString] Cons.prems by simp
    with st' sep Cons show ?thesis by (simp add: scan_run_append)
  qed
qed simp

lemma scans_object:
  assumes "kvs \<noteq> []" and "list_all (\<lambda>kv. scans n (snd kv)) kvs"
  shows "scans (Suc n) (json_object kvs)"
  unfolding scans_def
proof (intro allI impI)
  fix fs :: "jframe list" assume fs: "length fs + Suc n \<le> maxNestingDepth"
  have "scan_step (BeginValue, fs) CHR ''{'' = (BeginStringOrEmpty, ParseObjectKey # fs)"
    using fs by (simp add: beginValue_def is_space_def pushParseState_def)
  then have "scan_run (BeginValue, fs) (json_object kvs) = popParseState fs"
    using scan_members [OF assms fs, of BeginStringOrEmpty] by (simp add: json_object_def)
  with popParseState_ends [of fs] show "\<exists>st. scan_run (BeginValue, fs) (json_object kvs) = (st, fs) \<and> ends st fs"
    by simp
qed

subsection \<open>Cutting objects at their commas and colons\<close>

text \<open>The cutting state follows the scanner: the depth is the height of the stack.\<close>

definition follows :: "jconf \<Rightarrow> nat \<times> bool \<times> bool \<Rightarrow> bool" where
  "follows k m \<longleftrightarrow> fst k \<noteq> ScanError \<and> m = (length (snd k), in_string (fst k), fst k = InStringEsc)"

lemma scan_fail_state [simp]: "fst scan_fail = ScanError" "scan_fail = (ScanError, [])"
  by (simp_all add: scan_fail_def)

lemma scan_run_error: "fst k = ScanError \<Longrightarrow> fst (scan_run k s) = ScanError"
proof (induction s arbitrary: k)
  case (Cons c s)
  from Cons.prems have "fst (scan_step k c) = ScanError" by (cases k) simp
  from Cons.IH [OF this] show ?case by simp
qed simp

lemma in_string_simps [simp]:
  "in_string InString" "in_string InStringEsc" "in_string InStringEscU" "in_string InStringEscU1"
  "in_string InStringEscU12" "in_string InStringEscU123"
  "\<not> in_string BeginValue" "\<not> in_string BeginValueOrEmpty" "\<not> in_string BeginStringOrEmpty"
  "\<not> in_string BeginString" "\<not> in_string EndValue" "\<not> in_string EndTop" "\<not> in_string SNeg"
  "\<not> in_string S1" "\<not> in_string S0" "\<not> in_string SDot" "\<not> in_string SDot0" "\<not> in_string SE"
  "\<not> in_string SESign" "\<not> in_string SE0" "\<not> in_string ST" "\<not> in_string STr" "\<not> in_string STru"
  "\<not> in_string SF" "\<not> in_string SFa" "\<not> in_string SFal" "\<not> in_string SFals" "\<not> in_string SN"
  "\<not> in_string SNu" "\<not> in_string SNul" "\<not> in_string ScanError"
  by (simp_all add: in_string_def)

lemma byte_classes [simp]:
  "\<not> is_space CHR '',''" "\<not> is_space CHR '':''" "\<not> is_digit CHR '',''" "\<not> is_digit CHR '':''"
  "\<not> is_space CHR ''{''" "\<not> is_space CHR ''[''" "\<not> is_space CHR ''}''" "\<not> is_space CHR '']''" "\<not> is_space DQ"
  "\<not> is_hex DQ" "\<not> is_hex BS" "is_digit CHR ''0''" "\<not> is_space CHR ''-''" "\<not> is_space CHR ''0''"
  "\<not> is_space CHR ''t''" "\<not> is_space CHR ''f''" "\<not> is_space CHR ''n''"
  by (simp_all add: is_space_def is_digit_code is_hex_def less_eq_char_def)

lemma follows_endValue:
  assumes "fst (endValue fs c) \<noteq> ScanError"
  shows "follows (endValue fs c) (split_next (length fs, False, False) c)"
  using assms
  by (cases "(fs, c)" rule: endValue.cases)
    (auto simp: follows_def split_next_def in_string_def popParseState_def is_space_def split: if_splits)

text \<open>A byte that is neither a bracket nor a quote does not move the cutting state outside strings.\<close>

lemma split_next_other:
  "c \<notin> {DQ, CHR ''{'', CHR ''['', CHR ''}'', CHR '']''} \<Longrightarrow> split_next (d, False, False) c = (d, False, False)"
  by (auto simp: split_next_def)

lemma is_space_other: "is_space c \<Longrightarrow> c \<notin> {DQ, CHR ''{'', CHR ''['', CHR ''}'', CHR '']''}"
  by (auto simp: is_space_def)

lemma is_digit_other: "is_digit c \<Longrightarrow> c \<notin> {DQ, CHR ''{'', CHR ''['', CHR ''}'', CHR '']''}"
  by (auto simp: is_digit_code)

lemma follows_beginValue:
  assumes "fst (beginValue st fs c) \<noteq> ScanError" and "\<not> in_string st" "st \<noteq> ScanError"
  shows "follows (beginValue st fs c) (split_next (length fs, False, False) c)"
proof (cases "is_space c \<or> is_digit c \<or> c \<in> set ''-0tfn''")
  case True
  then have other: "c \<notin> {DQ, CHR ''{'', CHR ''['', CHR ''}'', CHR '']''}"
  proof (elim disjE)
    assume "c \<in> set ''-0tfn''" then show ?thesis by auto
  qed (rule is_space_other is_digit_other, assumption)+
  then have "c \<noteq> CHR ''{''" "c \<noteq> CHR ''[''" "c \<noteq> DQ" by blast+
  then have "\<exists>st'. beginValue st fs c = (st', fs) \<and> st' \<in> {st, SNeg, S0, ST, SF, SN, S1}"
    using True by (simp add: beginValue_def) blast
  moreover have "st \<noteq> InStringEsc" using assms(2) by auto
  ultimately show ?thesis using assms(2,3) by (auto simp: follows_def split_next_other [OF other])
next
  case False
  then have "beginValue st fs c =
      (if c = CHR ''{'' then pushParseState ParseObjectKey fs BeginStringOrEmpty
       else if c = CHR ''['' then pushParseState ParseArrayValue fs BeginValueOrEmpty
       else if c = DQ then (InString, fs) else scan_fail)"
    by (simp add: beginValue_def)
  with assms(1) show ?thesis
    by (auto simp: pushParseState_def follows_def split_next_def split: if_splits)
qed

lemma follows_beginString:
  assumes "fst (beginString st fs c) \<noteq> ScanError" and "\<not> in_string st" "st \<noteq> ScanError"
  shows "follows (beginString st fs c) (split_next (length fs, False, False) c)"
proof (cases "is_space c")
  case True
  with split_next_other [OF is_space_other [OF True]] assms(2,3) show ?thesis
    by (auto simp: beginString_def follows_def)
next
  case False
  with assms(1) have "c = DQ" by (auto simp: beginString_def split: if_splits)
  then show ?thesis by (simp add: beginString_def follows_def split_next_def is_space_def)
qed

lemma follows_number:
  assumes "fst (scan_step (st, fs) c) \<noteq> ScanError" and "st \<in> {SNeg, S1, S0, SDot, SDot0, SE, SESign, SE0}"
  shows "follows (scan_step (st, fs) c) (split_next (length fs, False, False) c)"
proof (cases "is_digit c \<or> c \<in> set ''.eE+-''")
  case True
  have "c \<notin> {DQ, CHR ''{'', CHR ''['', CHR ''}'', CHR '']''}" using True is_digit_other by auto
  note sn = split_next_other [OF this]
  have "fst (endValue fs c) = ScanError"
    using True by (cases "(fs, c)" rule: endValue.cases) (auto simp: is_space_def is_digit_code)
  then have "\<exists>st'. scan_step (st, fs) c = (st', fs) \<and> \<not> in_string st' \<and> st' \<noteq> ScanError"
    using assms by (auto simp: scan_expect_def split: if_splits)
  then show ?thesis by (auto simp: follows_def sn)
next
  case False
  then have "scan_step (st, fs) c = endValue fs c"
    using assms by (auto simp: scan_expect_def split: if_splits)
  then show ?thesis using follows_endValue assms(1) by simp
qed

lemma follows_literal:
  assumes "fst (scan_step (st, fs) c) \<noteq> ScanError"
    and "st \<in> {ST, STr, STru, SF, SFa, SFal, SFals, SN, SNu, SNul}"
  shows "follows (scan_step (st, fs) c) (split_next (length fs, False, False) c)"
proof -
  have "c \<in> set ''ruealsu''" using assms by (auto simp: scan_expect_def split: if_splits)
  then have "c \<notin> {DQ, CHR ''{'', CHR ''['', CHR ''}'', CHR '']''}" by auto
  note sn = split_next_other [OF this]
  have "\<exists>st'. scan_step (st, fs) c = (st', fs) \<and> \<not> in_string st' \<and> st' \<noteq> ScanError"
    using assms by (auto simp: scan_expect_def split: if_splits)
  then show ?thesis by (auto simp: follows_def sn)
qed

lemma follows_string:
  assumes "fst (scan_step (st, fs) c) \<noteq> ScanError" and "in_string st"
  shows "follows (scan_step (st, fs) c) (split_next (length fs, True, st = InStringEsc) c)"
  using assms by (cases st) (auto simp: follows_def split_next_def scan_expect_def split: if_splits)

lemma follows_step:
  assumes "follows k m" and "fst (scan_step k c) \<noteq> ScanError"
  shows "follows (scan_step k c) (split_next m c)"
proof -
  obtain st fs where k: "k = (st, fs)" by fastforce
  have m: "m = (length fs, in_string st, st = InStringEsc)" "st \<noteq> ScanError" using assms(1) by (auto simp: follows_def k)
  have step: "fst (scan_step (st, fs) c) \<noteq> ScanError" using assms(2) k by simp
  show ?thesis
  proof (cases "in_string st")
    case True
    then show ?thesis using follows_string [OF step True] by (simp add: k m)
  next
    case False
    then have m': "m = (length fs, False, False)" using m by auto
    consider "st \<in> {SNeg, S1, S0, SDot, SDot0, SE, SESign, SE0}"
      | "st \<in> {ST, STr, STru, SF, SFa, SFal, SFals, SN, SNu, SNul}"
      | "st \<in> {BeginValue, BeginString, EndValue}" | "st = EndTop" | "st = BeginValueOrEmpty" | "st = BeginStringOrEmpty"
      using m(2) False by (cases st) auto
    then show ?thesis
    proof cases
      case 1 then show ?thesis using follows_number [OF step] by (simp add: k m')
    next
      case 2 then show ?thesis using follows_literal [OF step] by (simp add: k m')
    next
      case 3
      then show ?thesis
        using step follows_beginValue [of BeginValue fs c] follows_beginString [of BeginString fs c] follows_endValue [of fs c]
        by (auto simp: k m')
    next
      case 4
      then show ?thesis
        using step split_next_other [OF is_space_other] by (auto simp: k m' follows_def scan_expect_def split: if_splits)
    next
      case 5
      then show ?thesis
        using step follows_beginValue [of BeginValueOrEmpty fs c] follows_endValue [of fs c] by (auto simp: k m')
    next
      case 6
      have "follows (endValue (ParseObjectValue # tl fs) CHR ''}'') (split_next (length fs, False, False) CHR ''}'')"
        by (cases fs) (auto simp: follows_def split_next_def popParseState_def is_space_def)
      with 6 show ?thesis
        using step follows_beginString [of BeginStringOrEmpty fs c] by (auto simp: k m')
    qed
  qed
qed

text \<open>At depth 0 and outside strings the scanner accepts neither a comma nor a colon.\<close>

lemma separator_error:
  assumes "follows k (0, False, e)" and "c = CHR '','' \<or> c = CHR '':''"
  shows "fst (scan_step k c) = ScanError"
proof -
  obtain st where "k = (st, [])" "\<not> in_string st" using assms(1) by (cases k) (auto simp: follows_def)
  then show ?thesis
    using assms(2) by (elim disjE; cases st; simp add: beginValue_def beginString_def scan_expect_def)
qed

lemma split_top_value:
  assumes "follows k m" and "fst (scan_run k v) \<noteq> ScanError" and "sep = CHR '','' \<or> sep = CHR '':''"
  shows "\<exists>m'. follows (scan_run k v) m' \<and> split_top m sep (v @ t) =
     (case split_top m' sep t of [] \<Rightarrow> [v] | p # ps \<Rightarrow> (v @ p) # ps)"
  using assms(1,2)
proof (induction v arbitrary: k m)
  case Nil
  have "split_top m sep t \<noteq> []" by (induction m sep t rule: split_top.induct) (auto split: list.splits)
  with Nil show ?case by (intro exI [of _ m]) (auto split: list.splits)
next
  case (Cons c v)
  have ok: "fst (scan_step k c) \<noteq> ScanError"
    using Cons.prems(2) scan_run_error [of "scan_step k c" v] by auto
  obtain m' where m': "follows (scan_run (scan_step k c) v) m'"
    "split_top (split_next m c) sep (v @ t) = (case split_top m' sep t of [] \<Rightarrow> [v] | p # ps \<Rightarrow> (v @ p) # ps)"
    using Cons.IH [OF follows_step [OF Cons.prems(1) ok]] Cons.prems(2) by auto
  have "\<not> (fst m = 0 \<and> \<not> fst (snd m) \<and> c = sep)"
    using separator_error [of k "snd (snd m)" c] Cons.prems(1) ok assms(3) by (cases m) auto
  with m' show ?case by (intro exI [of _ m']) (auto split: list.splits)
qed

lemma ends_top:
  assumes "ends st []"
  shows "\<not> in_string st" and "st \<noteq> ScanError" and "scan_step (st, []) CHR 0x20 = (EndTop, [])"
proof -
  have step: "scan_step (st, []) CHR 0x20 = (EndTop, [])"
    using assms by (simp add: ends_def is_space_def)
  then show "scan_step (st, []) CHR 0x20 = (EndTop, [])" .
  from step show "\<not> in_string st" and "st \<noteq> ScanError"
    by (cases st; simp add: scan_expect_def split: if_splits)+
qed

lemma split_value:
  assumes "scans n v" and "n \<le> maxNestingDepth" and "sep = CHR '','' \<or> sep = CHR '':''"
  shows "split_top (0, False, False) sep (v @ t) =
     (case split_top (0, False, False) sep t of [] \<Rightarrow> [v] | p # ps \<Rightarrow> (v @ p) # ps)"
proof -
  obtain st where st: "scan_run (BeginValue, []) v = (st, [])" "ends st []"
    using assms(1,2) unfolding scans_def by force
  note e = ends_top [OF st(2)]
  have "follows (BeginValue, []) (0, False, False)" by (simp add: follows_def)
  from split_top_value [OF this _ assms(3), of v t] st(1) e(2) obtain m' where
    m': "follows (st, []) m'" "split_top (0, False, False) sep (v @ t) =
      (case split_top m' sep t of [] \<Rightarrow> [v] | p # ps \<Rightarrow> (v @ p) # ps)" by auto
  have "m' = (0, False, False)" using m'(1) e(1) by (auto simp: follows_def)
  with m'(2) show ?thesis by simp
qed

section \<open>Members of an object\<close>

definition trimmed :: "bytes \<Rightarrow> bool" where
  "trimmed v \<longleftrightarrow> v \<noteq> [] \<and> \<not> is_space (hd v) \<and> \<not> is_space (last v)"

definition value_text :: "nat \<Rightarrow> bytes \<Rightarrow> bool" where
  "value_text n v \<longleftrightarrow> scans n v \<and> trimmed v"

lemma json_trim_trimmed: "trimmed v \<Longrightarrow> json_trim v = v"
proof -
  assume v: "trimmed v"
  then have "dropWhile is_space v = v" by (cases v) (auto simp: trimmed_def)
  moreover have "dropWhile is_space (rev v) = rev v"
    using v by (cases v rule: rev_cases) (auto simp: trimmed_def)
  ultimately show ?thesis by (simp add: json_trim_def)
qed

lemma split_member:
  assumes "scans n (snd kv)" and "n \<le> maxNestingDepth"
  shows "split_top (0, False, False) CHR '','' (json_member kv @ t) =
     (case split_top (0, False, False) CHR '','' t of [] \<Rightarrow> [json_member kv] | p # ps \<Rightarrow> (json_member kv @ p) # ps)"
  using split_value [OF scans_quote, of "CHR '',''" "fst kv" "CHR '':'' # snd kv @ t"]
    split_value [OF assms, of "CHR '',''" t]
  by (simp add: json_member_def split_next_def split: list.splits)

lemma split_top_nonempty: "split_top m sep t \<noteq> []"
  by (induction m sep t rule: split_top.induct) (auto split: list.splits)

lemma split_members:
  assumes "kvs \<noteq> []" and "list_all (\<lambda>kv. scans n (snd kv)) kvs" and "n \<le> maxNestingDepth"
  shows "split_top (0, False, False) CHR '','' (join_with CHR '','' (map json_member kvs)) = map json_member kvs"
  using assms
proof (induction kvs)
  case (Cons kv kvs)
  show ?case
  proof (cases kvs)
    case Nil
    then show ?thesis using split_member [of n kv "[]"] Cons.prems by simp
  next
    case (Cons kv' kvs')
    let ?rest = "join_with CHR '','' (map json_member kvs)"
    have "split_top (0, False, False) CHR '','' ?rest = map json_member kvs"
      using Cons.IH Cons.prems Cons by simp
    then have "split_top (0, False, False) CHR '','' (CHR '','' # ?rest) = [] # map json_member kvs" by simp
    then show ?thesis
      using split_member [of n kv "CHR '','' # ?rest"] Cons.prems Cons by simp
  qed
qed simp

lemma quote_trimmed: "trimmed (json_quote s)"
  by (simp add: trimmed_def json_quote_def)

lemma parse_member_quote:
  assumes "value_text n (snd kv)" and "n \<le> maxNestingDepth" and "utf8_valid (fst kv)"
  shows "parse_member (json_member kv) = kv"
proof -
  have v: "scans n (snd kv)" "trimmed (snd kv)" using assms(1) by (simp_all add: value_text_def)
  have "split_top (0, False, False) CHR '':'' (json_member kv) = [json_quote (fst kv), snd kv]"
    using split_value [OF scans_quote, of "CHR '':''" "fst kv" "CHR '':'' # snd kv"]
      split_value [OF v(1) assms(2), of "CHR '':''" "[]"] by (simp add: json_member_def)
  then show ?thesis
    using unquote_quote [OF assms(3)] json_trim_trimmed [OF v(2)] json_trim_trimmed [OF quote_trimmed]
    by (simp add: parse_member_def unquote_literal_def) (simp add: json_quote_def)
qed

lemma members_object:
  assumes "kvs \<noteq> []" and "list_all (\<lambda>kv. value_text n (snd kv) \<and> utf8_valid (fst kv)) kvs" and "n \<le> maxNestingDepth"
  shows "object_members (json_object kvs) = kvs"
proof -
  let ?body = "join_with CHR '','' (map json_member kvs)"
  have "list_all (\<lambda>kv. scans n (snd kv)) kvs"
    using assms(2) by (auto simp: list_all_iff value_text_def)
  note split = split_members [OF assms(1) this assms(3)]
  obtain kv kvs' where kvs: "kvs = kv # kvs'" using assms(1) by (cases kvs) auto
  have "hd ?body = DQ" "?body \<noteq> []"
    unfolding kvs by (cases kvs'; simp add: json_member_def json_quote_def)+
  then have "DQ \<in> set (json_trim ?body)"
    by (cases ?body) (auto simp: json_trim_def dropWhile_append3)
  then have "json_trim ?body \<noteq> []" by auto
  moreover have "map parse_member (map json_member kvs) = kvs"
    using assms(2,3) parse_member_quote by (induction kvs) auto
  ultimately show ?thesis
    using split by (simp add: object_members_def json_object_def)
qed

lemma object_text:
  assumes "kvs \<noteq> []" and "list_all (\<lambda>kv. value_text n (snd kv)) kvs"
  shows "value_text (Suc n) (json_object kvs)"
proof -
  have "list_all (\<lambda>kv. scans n (snd kv)) kvs" using assms(2) by (auto simp: list_all_iff value_text_def)
  with scans_object [OF assms(1)] show ?thesis by (simp add: value_text_def trimmed_def json_object_def)
qed

lemma dec_struct_object:
  assumes "kvs \<noteq> []" and "list_all (\<lambda>kv. value_text n (snd kv) \<and> utf8_valid (fst kv)) kvs" and "n \<le> maxNestingDepth"
  shows "dec_struct strict names store (json_object kvs) cur = dec_members strict names store kvs cur None"
  using members_object [OF assms] by (simp add: dec_struct_def is_null_def) (simp add: json_object_def)

lemma value_text_Valid: "value_text n v \<Longrightarrow> n \<le> maxNestingDepth \<Longrightarrow> json_Valid v"
proof -
  assume v: "value_text n v" and n: "n \<le> maxNestingDepth"
  obtain st where "scan_run (BeginValue, []) v = (st, [])" "ends st []"
    using v n unfolding value_text_def scans_def by force
  with ends_top show ?thesis by (simp add: json_Valid_def)
qed

text \<open>Decoding the text of an encoded struct is storing its members, one after the other.\<close>

lemma Unmarshal_object:
  assumes "kvs \<noteq> []" and "list_all (\<lambda>kv. value_text n (snd kv) \<and> utf8_valid (fst kv)) kvs" and "Suc n \<le> maxNestingDepth"
  shows "json_Unmarshal strict names store (json_object kvs) cur = dec_members strict names store kvs cur None"
proof -
  have "value_text (Suc n) (json_object kvs)"
    using assms(1,2) by (intro object_text) (auto simp: list_all_iff)
  then have "json_Valid (json_object kvs)" "json_trim (json_object kvs) = json_object kvs"
    using value_text_Valid assms(3) json_trim_trimmed by (auto simp: value_text_def)
  then show ?thesis
    using assms(3) dec_struct_object [OF assms(1,2)] by (simp add: json_Unmarshal_def)
qed

subsection \<open>Values\<close>

lemma quote_text [simp]: "value_text n (json_quote s)"
  using scans_mono [OF scans_quote, of n] by (simp add: value_text_def quote_trimmed)

lemma digit_not_space: "is_digit c \<Longrightarrow> \<not> is_space c"
  by (auto simp: is_digit_code is_space_def)

lemma nat_text [simp]: "value_text n (nat_dec k)"
proof -
  have "nat_dec k \<noteq> []" "\<forall>c \<in> set (nat_dec k). \<not> is_space c"
    using nat_dec_digits [of k] digit_not_space by (auto simp: list_all_iff)
  then show ?thesis using scans_mono [OF scans_nat, of n k] by (simp add: value_text_def trimmed_def)
qed

lemma int_text [simp]: "value_text n (int_dec i)"
proof -
  have "nat_dec k \<noteq> []" "\<forall>c \<in> set (nat_dec k). \<not> is_space c" for k
    using nat_dec_digits [of k] digit_not_space by (auto simp: list_all_iff)
  then have "trimmed (nat_dec k)" for k by (metis trimmed_def hd_in_set last_in_set)
  then have "trimmed (int_dec i)" by (auto simp: trimmed_def int_dec_def is_space_def)
  then show ?thesis using scans_mono [OF scans_int, of n i] by (simp add: value_text_def)
qed

lemma bytes_text [simp]: "value_text n (json_bytes b)"
  using scans_mono [OF scans_bytes, of n b] by (simp add: value_text_def trimmed_def json_bytes_def)

lemma literal_text [simp]: "value_text n ''null''" "value_text n ''true''" "value_text n ''false''"
  using scans_literals scans_mono by (auto simp: value_text_def trimmed_def is_space_def)

lemma dec_string_quote: "utf8_valid s \<Longrightarrow> dec_string (json_quote s) cur = Inr s"
  by (simp add: dec_string_def is_null_def unquote_literal_def json_quote_def unquote_quote)

lemma dec_int64_int: "int64_range i \<Longrightarrow> dec_int64 (int_dec i) cur = Inr i"
proof -
  have "nat_dec k \<noteq> ''null''" for k
    using nat_dec_digits [of k] by (auto simp: is_digit_code)
  then have "\<not> is_null (int_dec i)" by (simp add: is_null_def int_dec_def)
  then show "int64_range i \<Longrightarrow> ?thesis" by (simp add: dec_int64_def ParseInt_int_dec)
qed

lemma dec_uint64_nat: "k < 2 ^ 64 \<Longrightarrow> dec_uint64 (nat_dec k) cur = Inr k"
proof -
  have "nat_dec k \<noteq> ''null''" using nat_dec_digits [of k] by (auto simp: is_digit_code)
  then show "k < 2 ^ 64 \<Longrightarrow> ?thesis" by (simp add: dec_uint64_def is_null_def ParseUint_nat_dec)
qed

end
