(* ===== verification/Go_Json_Compact.thy ===== *)
theory Go_Json_Compact
  imports Go_Json_Struct
begin

text \<open>
  Reading and repeating the compaction that \<^verbatim>\<open>json.Marshal\<close> applies to a \<^verbatim>\<open>json.RawMessage\<close>: the compacted
  text of a valid value is accepted wherever its depth fits, carries spaces only inside strings, and
  is not changed by compacting it again.
\<close>

section \<open>Depth and compaction\<close>

text \<open>The greatest height of the scanner's stack over a text.\<close>

fun run_depth :: "jconf \<Rightarrow> bytes \<Rightarrow> nat" where
  "run_depth k [] = length (snd k)"
| "run_depth k (c # s) = max (length (snd k)) (run_depth (scan_step k c) s)"

definition json_depth :: "bytes \<Rightarrow> nat" where
  "json_depth s = run_depth (BeginValue, []) s"

lemma run_depth_start: "length (snd k) \<le> run_depth k s"
  by (cases s) simp_all

definition wf_conf :: "jconf \<Rightarrow> bool" where
  "wf_conf k \<longleftrightarrow> (fst k = BeginStringOrEmpty \<longrightarrow> snd k \<noteq> []) \<and> (fst k = EndTop \<longrightarrow> snd k = [])"

lemma wf_endValue: "wf_conf (endValue fs c)"
  by (cases "(fs, c)" rule: endValue.cases) (auto simp: wf_conf_def popParseState_def)

lemma wf_step: "wf_conf k \<Longrightarrow> wf_conf (scan_step k c)"
proof -
  assume wf: "wf_conf k"
  obtain st fs where k: "k = (st, fs)" by fastforce
  show ?thesis
    using wf wf_endValue [of fs c] wf_endValue [of "ParseObjectValue # tl fs" c]
    unfolding k by (cases st)
      (auto simp: wf_conf_def scan_expect_def beginValue_def beginString_def pushParseState_def)
qed

text \<open>The same text read inside the open values of \<open>ys\<close>.\<close>

definition lift_conf :: "jframe list \<Rightarrow> jconf \<Rightarrow> jconf" where
  "lift_conf ys k = (if fst k = EndTop \<and> ys \<noteq> [] then EndValue else fst k, snd k @ ys)"

lemma lift_endValue:
  "fst (endValue fs c) \<noteq> ScanError \<Longrightarrow> endValue (fs @ ys) c = lift_conf ys (endValue fs c)"
proof (cases "(fs, c)" rule: endValue.cases)
  case (1 c')
  then show "fst (endValue fs c) \<noteq> ScanError \<Longrightarrow> ?thesis"
    by (cases "(ys, c)" rule: endValue.cases) (auto simp: lift_conf_def split: if_splits)
qed (auto simp: lift_conf_def popParseState_def split: if_splits)

lemma lift_beginValue:
  "fst (beginValue st fs c) \<noteq> ScanError \<Longrightarrow> st \<noteq> EndTop \<Longrightarrow> length (snd (beginValue st fs c)) + length ys \<le> maxNestingDepth \<Longrightarrow>
     beginValue st (fs @ ys) c = lift_conf ys (beginValue st fs c)"
  by (cases "is_space c"; cases "c = CHR ''{''"; cases "c = CHR ''[''")
    (simp_all add: beginValue_def lift_conf_def pushParseState_def split: if_split_asm)

lemma lift_step:
  assumes "wf_conf k" and "fst (scan_step k c) \<noteq> ScanError" and "length (snd (scan_step k c)) + length ys \<le> maxNestingDepth"
  shows "scan_step (lift_conf ys k) c = lift_conf ys (scan_step k c)"
proof -
  obtain st fs where k: "k = (st, fs)" by fastforce
  note e = lift_endValue [of fs c ys] and b = lift_beginValue [of st fs c ys]
  consider "st \<in> {BeginValue, BeginValueOrEmpty}" | "st \<in> {EndValue, S0, S1, SDot0, SE0}" | "st = EndTop" | "st = BeginStringOrEmpty"
    | "st \<notin> {BeginValue, BeginValueOrEmpty, EndValue, S0, S1, SDot0, SE0, EndTop, BeginStringOrEmpty}" by blast
  then show ?thesis
  proof cases
    case 1
    then show ?thesis using assms e b by (auto simp: k lift_conf_def [of _ "(_, _)"] split: if_splits)
  next
    case 2
    then show ?thesis using assms e by (auto simp: k lift_conf_def [of _ "(_, _)"] split: if_splits)
  next
    case 3
    then have "fs = []" "is_space c"
      using assms(1,2) by (auto simp: k wf_conf_def scan_expect_def split: if_splits)
    then show ?thesis using 3
      by (cases "(ys, c)" rule: endValue.cases) (auto simp: k lift_conf_def scan_expect_def)
  next
    case 4
    then obtain f fs' where fs: "fs = f # fs'" using assms(1) by (cases fs) (auto simp: k wf_conf_def)
    show ?thesis using assms 4
      by (auto simp: k fs lift_conf_def beginString_def popParseState_def split: if_splits)
  next
    case 5
    then show ?thesis using assms(2)
      by (cases st) (auto simp: k lift_conf_def scan_expect_def beginString_def split: if_splits)
  qed
qed

lemma lift_run:
  assumes "wf_conf k" and "fst (scan_run k s) \<noteq> ScanError" and "run_depth k s + length ys \<le> maxNestingDepth"
  shows "scan_run (lift_conf ys k) s = lift_conf ys (scan_run k s)"
  using assms
proof (induction s arbitrary: k)
  case (Cons c s)
  have ok: "fst (scan_step k c) \<noteq> ScanError"
    using Cons.prems(2) scan_run_error [of "scan_step k c" s] by auto
  have "length (snd (scan_step k c)) + length ys \<le> maxNestingDepth"
    using Cons.prems(3) run_depth_start [of "scan_step k c" s] by simp
  from lift_step [OF Cons.prems(1) ok this] show ?case
    using Cons.IH [OF wf_step [OF Cons.prems(1)], of c] Cons.prems(2,3) by simp
qed simp

lemma lift_in_string: "in_string (fst (lift_conf ys k)) \<longleftrightarrow> in_string (fst k)"
  by (simp add: lift_conf_def)

subsection \<open>Reading a compacted text\<close>

text \<open>
  After a space that ends a number the scanner has left the number; on the compacted text it has
  not, but both handle what follows alike.
\<close>

definition lags :: "jconf \<Rightarrow> jconf \<Rightarrow> bool" where
  "lags k k' \<longleftrightarrow> k' = k \<or> (fst k = EndValue \<or> k = (EndTop, [])) \<and> snd k' = snd k \<and> ends (fst k') (snd k')
     \<and> \<not> in_string (fst k')"

lemma endValue_bytes: "fst (endValue fs c) \<noteq> ScanError \<Longrightarrow> is_space c \<or> c \<in> set '',:}]''"
  by (cases "(fs, c)" rule: endValue.cases) (auto split: if_splits)

lemma lags_step:
  assumes "lags k k'" and "fst (scan_step k c) \<noteq> ScanError" and "\<not> is_space c \<or> in_string (fst k)"
  shows "scan_step k' c = scan_step k c"
proof (cases "k' = k")
  case False
  then have d: "fst k = EndValue \<or> k = (EndTop, [])" "snd k' = snd k" "ends (fst k') (snd k')"
    using assms(1) by (auto simp: lags_def)
  then have sp: "\<not> is_space c" using assms(3) by auto
  then have "fst k = EndValue" using d(1) assms(2) by (auto simp: scan_expect_def)
  then have k: "scan_step k c = endValue (snd k) c" by (cases k) simp
  then have "c \<in> set '',:}]''" using endValue_bytes assms(2) sp by metis
  then show ?thesis using d(2,3) k by (cases k') (auto simp: ends_def)
qed simp

lemma space_step:
  assumes "wf_conf k" and "is_space c" and "\<not> in_string (fst k)" and "fst (scan_step k c) \<noteq> ScanError"
  shows "scan_step k c = k \<or> (fst (scan_step k c) = EndValue \<or> scan_step k c = (EndTop, [])) \<and> snd (scan_step k c) = snd k
    \<and> ends (fst k) (snd k)"
proof -
  obtain st fs where k: "k = (st, fs)" by fastforce
  have c: "\<not> is_digit c" "c \<notin> set ''.eE+-ruals]}''" using assms(2) by (auto simp: is_space_def is_digit_code)
  have "fst (endValue fs c) \<noteq> ScanError \<Longrightarrow> (fst (endValue fs c) = EndValue \<or> endValue fs c = (EndTop, [])) \<and> snd (endValue fs c) = fs"
    using assms(2) by (cases "(fs, c)" rule: endValue.cases) auto
  then show ?thesis
    using assms c by (cases st) (auto simp: k beginValue_def beginString_def scan_expect_def split: if_splits)
qed

lemma lags_space:
  assumes "lags k k'" and "wf_conf k" and "is_space c" and "\<not> in_string (fst k)" and "fst (scan_step k c) \<noteq> ScanError"
  shows "lags (scan_step k c) k'"
proof (cases "k' = k")
  case True
  then show ?thesis using space_step [OF assms(2-5)] assms(4) by (auto simp: lags_def)
next
  case False
  then have d: "fst k = EndValue \<or> k = (EndTop, [])" "snd k' = snd k" "ends (fst k') (snd k')" "\<not> in_string (fst k')"
    using assms(1) by (auto simp: lags_def)
  have "scan_step k c = k \<or> (fst (scan_step k c) = EndValue \<or> scan_step k c = (EndTop, [])) \<and> snd (scan_step k c) = snd k"
    using space_step [OF assms(2-5)] by auto
  then show ?thesis using d by (auto simp: lags_def)
qed

lemma lags_string:
  assumes "lags k k'" and "in_string (fst k)"
  shows "k' = k"
proof -
  have "fst k \<noteq> EndValue" "k \<noteq> (EndTop, [])" using assms(2) by (metis in_string_simps(11), metis fst_conv in_string_simps(12))
  then show ?thesis using assms(1) by (simp add: lags_def)
qed

text \<open>Outside strings the scanner accepts none of the bytes that are escaped.\<close>

lemma escaped_in_string:
  assumes "html_unsafe c \<or> c = CHR 0xE2" and "fst (scan_step k c) \<noteq> ScanError"
  shows "fst k = InString \<and> scan_step k c = k"
proof -
  obtain st fs where k: "k = (st, fs)" by fastforce
  have c: "\<not> is_digit c" "\<not> is_space c" "\<not> is_hex c" "c \<notin> set ''.eE+-rualstfnb[]{},:/''" "c \<noteq> DQ" "c \<noteq> BS" "CHR 0x20 \<le> c"
    using assms(1) by (auto simp: html_unsafe_def is_space_def is_digit_code is_hex_def less_eq_char_def)
  then have "fst (endValue fs' c) = ScanError" for fs' using endValue_bytes [of fs' c] by auto
  then show ?thesis
    using assms(2) c by (cases st; simp add: k beginValue_def beginString_def scan_expect_def split: if_split_asm)
qed

text \<open>The three bytes of a line or paragraph separator are read inside a string and leave it open.\<close>

lemma separator_run_string:
  "fst k = InString \<Longrightarrow> x = CHR 0xA8 \<or> x = CHR 0xA9 \<Longrightarrow> scan_run k [CHR 0xE2, CHR 0x80, x] = k"
  by (cases k) (auto simp: scan_expect_def less_eq_char_def)

lemma separator_run:
  assumes "fst (scan_run k (CHR 0xE2 # [CHR 0x80, x])) \<noteq> ScanError" and "x = CHR 0xA8 \<or> x = CHR 0xA9"
  shows "fst k = InString \<and> scan_run k (CHR 0xE2 # [CHR 0x80, x]) = k"
proof -
  have "fst (scan_step k CHR 0xE2) \<noteq> ScanError"
    using assms(1) scan_run_error [of "scan_step k CHR 0xE2" "[CHR 0x80, x]"] by auto
  then have k: "fst k = InString" "scan_step k CHR 0xE2 = k" using escaped_in_string [of "CHR 0xE2" k] by auto
  with separator_run_string [OF k(1) assms(2)] show ?thesis by simp
qed

definition u202 :: "char \<Rightarrow> string" where
  "u202 x = BS # ''u202'' @ [if x = CHR 0xA8 then CHR ''8'' else CHR ''9'']"

lemma scan_run_u202: "fst k = InString \<Longrightarrow> scan_run k (u202 x) = k"
    and scan_run_u00: "fst k = InString \<Longrightarrow> scan_run k (u00 c) = k"
  using scan_u00 [of "snd k" c] by (cases k; simp add: scan_expect_def is_hex_literals u202_def)+

text \<open>Induction over a text the scanner accepts, in the steps of its compaction.\<close>

lemma compact_cases:
  assumes "fst (scan_run k (c # s)) \<noteq> ScanError"
  obtains (space) "is_space c" "\<not> in_string (fst k)" "json_compact k (c # s) = json_compact (scan_step k c) s"
  | (html) "html_unsafe c" "fst k = InString" "scan_step k c = k" "json_compact k (c # s) = u00 c @ json_compact k s"
  | (ls) x t where "fst k = InString" "c # s = [CHR 0xE2, CHR 0x80, x] @ t" "x = CHR 0xA8 \<or> x = CHR 0xA9"
      "scan_run k (c # s) = scan_run k t"
      "json_compact k (c # s) = u202 x @ json_compact k t"
  | (plain) "\<not> is_space c \<or> in_string (fst k)" "\<not> html_unsafe c"
      "c = CHR 0xE2 \<longrightarrow> take 2 s \<noteq> [CHR 0x80, CHR 0xA8] \<and> take 2 s \<noteq> [CHR 0x80, CHR 0xA9]"
      "json_compact k (c # s) = c # json_compact (scan_step k c) s"
proof -
  have ok: "fst (scan_step k c) \<noteq> ScanError"
    using assms scan_run_error [of "scan_step k c" s] by auto
  consider "is_space c \<and> \<not> in_string (fst k)" | "\<not> (is_space c \<and> \<not> in_string (fst k))" "html_unsafe c"
    | x where "\<not> (is_space c \<and> \<not> in_string (fst k))" "\<not> html_unsafe c" "c = CHR 0xE2" "take 2 s = [CHR 0x80, x]" "x = CHR 0xA8 \<or> x = CHR 0xA9"
    | "\<not> (is_space c \<and> \<not> in_string (fst k))" "\<not> html_unsafe c"
      "c = CHR 0xE2 \<longrightarrow> take 2 s \<noteq> [CHR 0x80, CHR 0xA8] \<and> take 2 s \<noteq> [CHR 0x80, CHR 0xA9]" by blast
  then show thesis
  proof cases
    case 1 then show thesis by (intro space) auto
  next
    case 2
    then have "fst k = InString" "scan_step k c = k" using escaped_in_string ok by blast+
    with 2 show thesis by (intro html) auto
  next
    case (3 x)
    have s: "c # s = [CHR 0xE2, CHR 0x80, x] @ drop 2 s" using 3(3,4) append_take_drop_id [of 2 s] by simp
    have run: "scan_run k (c # s) = scan_run (scan_run k [CHR 0xE2, CHR 0x80, x]) (drop 2 s)"
      unfolding s scan_run_append [symmetric] ..
    then have "fst (scan_run k [CHR 0xE2, CHR 0x80, x]) \<noteq> ScanError" using assms scan_run_error by metis
    then have k: "fst k = InString" "scan_run k [CHR 0xE2, CHR 0x80, x] = k" using separator_run 3(5) by blast+
    have "json_compact k (c # s) = u202 x @ json_compact k (drop 2 s)"
      using 3 k by (auto simp: u202_def)
    moreover have "scan_run k (c # s) = scan_run k (drop 2 s)" unfolding run k(2) ..
    ultimately show thesis using ls [OF k(1) s 3(5)] by blast
  next
    case 4 then show thesis by (intro plain) auto
  qed
qed

lemma compact_run:
  assumes "lags k k'" and "wf_conf k" and "fst (scan_run k s) \<noteq> ScanError"
  shows "lags (scan_run k s) (scan_run k' (json_compact k s))"
  using assms
proof (induction "length s" arbitrary: k k' s rule: less_induct)
  case less
  show ?case
  proof (cases s)
    case (Cons c t)
    have ok: "fst (scan_step k c) \<noteq> ScanError" "fst (scan_run (scan_step k c) t) \<noteq> ScanError"
      using less.prems(3) scan_run_error [of "scan_step k c" t] by (auto simp: Cons)
    note IH = less.hyps [of _ k k'] and wf = wf_step [OF less.prems(2), of c]
    have "fst (scan_run k (c # t)) \<noteq> ScanError" using less.prems(3) Cons by simp
    then show ?thesis
    proof (cases rule: compact_cases)
      case space
      then show ?thesis
        using less.hyps [of t, OF _ lags_space [OF less.prems(1,2) space(1,2) ok(1)] wf ok(2)] by (simp add: Cons)
    next
      case html
      then have "k' = k" using lags_string [OF less.prems(1)] by simp
      then show ?thesis
        using less.hyps [of t k k] ok(2) html less.prems(2) scan_run_u00 [of k c]
        by (simp add: Cons scan_run_append lags_def)
    next
      case (ls x u)
      then have k: "k' = k" using lags_string [OF less.prems(1)] by simp
      have len: "length u < length s" using ls(2) Cons by simp
      show ?thesis
        using less.hyps [OF len, of k k] ls(4,5) less.prems(2,3) scan_run_u202 [OF ls(1), of x]
        by (simp add: Cons k scan_run_append lags_def del: scan_run.simps)
    next
      case plain
      have "scan_step k' c = scan_step k c" using lags_step [OF less.prems(1) ok(1)] plain(1) by blast
      then show ?thesis
        using less.hyps [of t "scan_step k c" "scan_step k c"] wf ok(2) plain(4) by (simp add: Cons lags_def)
    qed
  qed (use less.prems in simp)
qed

lemma compact_lift_conf:
  assumes "wf_conf k" and "fst (scan_run k s) \<noteq> ScanError" and "run_depth k s + length ys \<le> maxNestingDepth"
  shows "json_compact (lift_conf ys k) s = json_compact k s"
  using assms
proof (induction "length s" arbitrary: k s rule: less_induct)
  case less
  show ?case
  proof (cases s)
    case (Cons c t)
    have ok: "fst (scan_step k c) \<noteq> ScanError" "fst (scan_run (scan_step k c) t) \<noteq> ScanError"
      using less.prems(2) scan_run_error [of "scan_step k c" t] by (auto simp: Cons)
    have depth: "run_depth (scan_step k c) t + length ys \<le> maxNestingDepth" using less.prems(3) by (simp add: Cons)
    then have "length (snd (scan_step k c)) + length ys \<le> maxNestingDepth"
      using run_depth_start [of "scan_step k c" t] by simp
    note lift = lift_step [OF less.prems(1) ok(1) this]
    have IH: "json_compact (lift_conf ys (scan_step k c)) t = json_compact (scan_step k c) t"
      using less.hyps [of t "scan_step k c"] wf_step [OF less.prems(1)] ok(2) depth by (simp add: Cons)
    have "fst (scan_run k (c # t)) \<noteq> ScanError" using less.prems(2) Cons by simp
    then show ?thesis
    proof (cases rule: compact_cases)
      case (ls x u)
      have string: "fst (lift_conf ys k) = InString" using ls(1) by (simp add: lift_conf_def)
      have "run_depth k u \<le> run_depth k s" using Cons ls(1,2,3) by (cases k) (auto simp: scan_expect_def less_eq_char_def)
      then have "json_compact (lift_conf ys k) u = json_compact k u"
        using less.hyps [of u k] less.prems ls(2,4) Cons by simp
      moreover have "json_compact (lift_conf ys k) s = u202 x @ json_compact (lift_conf ys k) u"
        using separator_run_string [OF string ls(3)] ls(2,3) Cons string
        by (auto simp: u202_def html_unsafe_def numeral_2_eq_2)
      ultimately show ?thesis using ls(5) Cons by simp
    next
      case space
      then show ?thesis using IH lift by (simp add: Cons lift_in_string)
    next
      case html
      then show ?thesis using IH lift by (auto simp: Cons lift_in_string html_unsafe_def is_space_def)
    next
      case plain
      then have "json_compact (lift_conf ys k) (c # t) = c # json_compact (scan_step (lift_conf ys k) c) t"
        using lift_in_string [of ys k] by auto
      then show ?thesis using plain(4) IH lift by (simp add: Cons)
    qed
  qed simp
qed

lemma valid_end:
  assumes "json_Valid s"
  shows "fst (scan_run (BeginValue, []) s) \<noteq> ScanError"
    and "snd (scan_run (BeginValue, []) s) = []"
    and "fst (scan_run (BeginValue, []) s) \<in> {EndTop, EndValue, S0, S1, SDot0, SE0}"
proof -
  have run: "wf_conf (scan_run k s)" if "wf_conf k" for k s
    using that by (induction s arbitrary: k) (auto simp: wf_step)
  obtain st fs where k: "scan_run (BeginValue, []) s = (st, fs)" by fastforce
  have wf: "wf_conf (st, fs)" using run [of "(BeginValue, [])" s] k by (simp add: wf_conf_def)
  have "fst (scan_step (st, fs) CHR 0x20) = EndTop" using assms k by (simp add: json_Valid_def)
  moreover have "fst (endValue fs CHR 0x20) = EndTop \<Longrightarrow> fs = []"
    by (cases "(fs, CHR 0x20)" rule: endValue.cases) (auto simp: is_space_def)
  ultimately have "fs = [] \<and> st \<in> {EndTop, EndValue, S0, S1, SDot0, SE0}"
    using wf by (cases st) (auto simp: wf_conf_def scan_expect_def is_space_def is_digit_code beginValue_def beginString_def split: if_split_asm)
  then show "fst (scan_run (BeginValue, []) s) \<noteq> ScanError"
    "snd (scan_run (BeginValue, []) s) = []"
    "fst (scan_run (BeginValue, []) s) \<in> {EndTop, EndValue, S0, S1, SDot0, SE0}"
    using k by auto
qed

text \<open>A compacted text is accepted as one value wherever its depth fits.\<close>

lemma compact_scans:
  assumes "json_Valid s"
  shows "scans (json_depth s) (json_compact (BeginValue, []) s)"
  unfolding scans_def
proof (intro allI impI)
  fix fs :: "jframe list" assume "length fs + json_depth s \<le> maxNestingDepth"
  then have depth: "run_depth (BeginValue, []) s + length fs \<le> maxNestingDepth" by (simp add: json_depth_def)
  let ?k = "scan_run (BeginValue, []) s"
  note v = valid_end [OF assms]
  have wf: "wf_conf (BeginValue, ys)" for ys by (simp add: wf_conf_def)
  have k: "(BeginValue, fs) = lift_conf fs (BeginValue, [])" by (simp add: lift_conf_def)
  have run: "scan_run (BeginValue, fs) s = lift_conf fs ?k"
    unfolding k by (rule lift_run [OF wf v(1) depth])
  have "lags (lift_conf fs ?k) (scan_run (BeginValue, fs) (json_compact (BeginValue, []) s))"
    using compact_run [of "(BeginValue, fs)" "(BeginValue, fs)" s] wf [of fs] run v(1)
      compact_lift_conf [OF wf v(1) depth] by (auto simp: lags_def k [symmetric] lift_conf_def)
  moreover have "snd (lift_conf fs ?k) = fs" "ends (fst (lift_conf fs ?k)) fs"
    using v(2,3) by (auto simp: lift_conf_def)
  ultimately show "\<exists>st. scan_run (BeginValue, fs) (json_compact (BeginValue, []) s) = (st, fs) \<and> ends st fs"
    by (intro exI [of _ "fst (scan_run (BeginValue, fs) (json_compact (BeginValue, []) s))"])
      (auto simp: lags_def prod_eq_iff)
qed

subsection \<open>Spaces of a compacted text\<close>

lemma hexdigit_plain: "\<not> is_space (hexdigit n) \<and> \<not> html_unsafe (hexdigit n) \<and> hexdigit n \<noteq> CHR 0xE2 \<and> is_hex (hexdigit n)"
proof -
  have "\<forall>i \<in> set [0..<16]. let c = ''0123456789abcdef'' ! i in
      \<not> is_space c \<and> \<not> html_unsafe c \<and> c \<noteq> CHR 0xE2 \<and> is_hex c" by code_simp
  then show ?thesis by (simp add: hexdigit_def Let_def)
qed

lemma compact_hd:
  "\<not> in_string (fst k) \<Longrightarrow> fst (scan_run k s) \<noteq> ScanError \<Longrightarrow> wf_conf k \<Longrightarrow>
     json_compact k s = [] \<or> \<not> is_space (hd (json_compact k s))"
proof (induction s arbitrary: k)
  case (Cons c s)
  have ok: "fst (scan_step k c) \<noteq> ScanError" using Cons.prems(2) scan_run_error [of "scan_step k c" s] by auto
  from Cons.prems(2) show ?case
  proof (cases rule: compact_cases)
    case space
    have "\<not> in_string (fst (scan_step k c))"
      using space_step [OF Cons.prems(3) space(1,2) ok] Cons.prems(1) by auto
    then show ?thesis using Cons.IH [of "scan_step k c"] wf_step [OF Cons.prems(3)] Cons.prems(2) space(3) by simp
  qed (use Cons.prems(1) in auto)
qed simp

lemma compact_nonempty: "in_string (fst k) \<Longrightarrow> s \<noteq> [] \<Longrightarrow> json_compact k s \<noteq> []"
  by (cases s) (auto simp: u00_def)

lemma compact_last:
  "\<not> in_string (fst (scan_run k s)) \<Longrightarrow> fst (scan_run k s) \<noteq> ScanError \<Longrightarrow>
     json_compact k s = [] \<or> \<not> is_space (last (json_compact k s))"
proof (induction "length s" arbitrary: k s rule: less_induct)
  case less
  show ?case
  proof (cases s)
    case (Cons c t)
    have ok: "fst (scan_step k c) \<noteq> ScanError" using less.prems(2) scan_run_error [of "scan_step k c" t] Cons by auto
    have IH: "json_compact (scan_step k c) t = [] \<or> \<not> is_space (last (json_compact (scan_step k c) t))"
      using less.hyps [of t "scan_step k c"] less.prems Cons by simp
    have "fst (scan_run k (c # t)) \<noteq> ScanError" using less.prems(2) Cons by simp
    then show ?thesis
    proof (cases rule: compact_cases)
      case space
      then show ?thesis using IH Cons by simp
    next
      case html
      then show ?thesis using hexdigit_plain IH Cons by (auto simp: u00_def)
    next
      case (ls x u)
      then have "json_compact k u = [] \<or> \<not> is_space (last (json_compact k u))"
        using less.hyps [of u k] less.prems Cons by simp
      then show ?thesis using ls(5) Cons by (auto simp: u202_def is_space_def)
    next
      case plain
      show ?thesis
      proof (cases "json_compact (scan_step k c) t = []")
        case True
        have "\<not> is_space c"
        proof
          assume c: "is_space c"
          then have "in_string (fst k)" using plain(1) by simp
          then have "in_string (fst (scan_step k c))"
            using ok c by (cases k; cases "fst k") (auto simp: scan_expect_def is_space_def is_hex_def is_digit_code less_eq_char_def split: if_splits)
          then have "t = []" using True compact_nonempty by blast
          then show False using \<open>in_string (fst (scan_step k c))\<close> less.prems(1) Cons by simp
        qed
        then show ?thesis using True plain(4) Cons by simp
      next
        case False
        then show ?thesis using IH plain(4) Cons by simp
      qed
    qed
  qed simp
qed

lemma compact_text:
  assumes "json_Valid s" and "json_depth s \<le> maxNestingDepth"
  shows "value_text (json_depth s) (json_compact (BeginValue, []) s)"
proof -
  note sc = compact_scans [OF assms(1)] and v = valid_end [OF assms(1)]
  obtain st where st: "scan_run (BeginValue, []) (json_compact (BeginValue, []) s) = (st, [])" "ends st []"
    using sc assms(2) unfolding scans_def by force
  have "json_compact (BeginValue, []) s \<noteq> []"
  proof
    assume "json_compact (BeginValue, []) s = []"
    then have "ends BeginValue []" using st by simp
    from ends_top(3) [OF this] show False by (simp add: beginValue_def is_space_def)
  qed
  moreover have "\<not> in_string (fst (scan_run (BeginValue, []) s))" using v(3) by auto
  ultimately show ?thesis
    using sc compact_hd [of "(BeginValue, [])" s] compact_last [of "(BeginValue, [])" s] v(1)
    by (auto simp: value_text_def trimmed_def wf_conf_def)
qed

text \<open>The depth of a text the scanner accepts is within its limit.\<close>

lemma valid_depth:
  assumes "json_Valid s" shows "json_depth s \<le> maxNestingDepth"
proof -
  have e: "length (snd (endValue fs c)) \<le> length fs" for fs c
    by (cases "(fs, c)" rule: endValue.cases) (auto simp: popParseState_def)
  have step: "length (snd (scan_step k c)) \<le> maxNestingDepth" if "length (snd k) \<le> maxNestingDepth" "wf_conf k" for k c
  proof -
    obtain st fs where k: "k = (st, fs)" by fastforce
    have "length (snd (endValue fs c)) \<le> maxNestingDepth" using e [of fs c] that k by simp
    moreover have "st = BeginStringOrEmpty \<Longrightarrow> length (snd (endValue (ParseObjectValue # tl fs) c)) \<le> maxNestingDepth"
      using e [of "ParseObjectValue # tl fs" c] that k by (cases fs) (auto simp: wf_conf_def)
    ultimately show ?thesis using that
      by (cases st) (auto simp: k beginValue_def beginString_def scan_expect_def pushParseState_def)
  qed
  have "run_depth k s \<le> maxNestingDepth" if "length (snd k) \<le> maxNestingDepth" "wf_conf k" for k s
    using that by (induction s arbitrary: k) (auto simp: step wf_step)
  then show ?thesis by (simp add: json_depth_def wf_conf_def)
qed

subsection \<open>Compacting again\<close>

lemma compact_two:
  assumes "fst k = InString" and "take 2 (json_compact k s) = [CHR 0x80, x]" and "x = CHR 0xA8 \<or> x = CHR 0xA9"
    and "fst (scan_run k s) \<noteq> ScanError"
  shows "take 2 s = [CHR 0x80, x]"
proof -
  have first: "\<exists>t. s' = y # t \<and> json_compact k s' = y # json_compact (scan_step k y) t"
    if "hd (json_compact k s') = y" "json_compact k s' \<noteq> []" "y \<in> {CHR 0x80, CHR 0xA8, CHR 0xA9}" "fst (scan_run k s') \<noteq> ScanError" for s' y
  proof (cases s')
    case (Cons c t)
    have "fst (scan_run k (c # t)) \<noteq> ScanError" using that(4) Cons by simp
    then show ?thesis
      by (cases rule: compact_cases) (use that assms(1) Cons in \<open>auto simp: u00_def u202_def\<close>)
  qed (use that in simp)
  obtain t where t: "s = CHR 0x80 # t" "json_compact k s = CHR 0x80 # json_compact (scan_step k CHR 0x80) t"
    using first [of s "CHR 0x80"] assms(2,4) by (cases "json_compact k s") auto
  have k: "scan_step k CHR 0x80 = k" using assms(1) by (cases k) (simp add: scan_expect_def less_eq_char_def)
  have "take 1 (json_compact k t) = [x]" using assms(2) t k by (simp add: numeral_2_eq_2)
  then obtain u where "t = x # u"
    using first [of t x] assms(3,4) t(1) k by (cases "json_compact k t") auto
  with t(1) show ?thesis by simp
qed

lemma compact_skip:
  assumes "fst k = InString"
  shows "json_compact k (u00 c @ r) = u00 c @ json_compact k r"
    and "json_compact k (u202 c @ r) = u202 c @ json_compact k r"
  using assms hexdigit_plain
  by (cases k; simp add: u00_def u202_def html_unsafe_def scan_expect_def is_hex_literals)+

lemma compact_again:
  assumes "lags k k'" and "wf_conf k" and "fst (scan_run k s) \<noteq> ScanError"
  shows "json_compact k' (json_compact k s) = json_compact k s"
  using assms
proof (induction "length s" arbitrary: k k' s rule: less_induct)
  case less
  show ?case
  proof (cases s)
    case (Cons c t)
    have ok: "fst (scan_step k c) \<noteq> ScanError" "fst (scan_run (scan_step k c) t) \<noteq> ScanError"
      using less.prems(3) scan_run_error [of "scan_step k c" t] by (auto simp: Cons)
    have wf: "wf_conf (scan_step k c)" by (rule wf_step [OF less.prems(2)])
    have same: "lags m m" for m by (simp add: lags_def)
    have "fst (scan_run k (c # t)) \<noteq> ScanError" using less.prems(3) Cons by simp
    then show ?thesis
    proof (cases rule: compact_cases)
      case space
      then show ?thesis
        using less.hyps [of t, OF _ lags_space [OF less.prems(1,2) space(1,2) ok(1)] wf ok(2)] by (simp add: Cons)
    next
      case html
      then have "k' = k" using lags_string [OF less.prems(1)] by simp
      then show ?thesis
        using less.hyps [of t k k] ok(2) html less.prems(2) compact_skip(1) [OF html(2), of c] same by (simp add: Cons)
    next
      case (ls x u)
      then have k: "k' = k" using lags_string [OF less.prems(1)] by simp
      have "length u < length s" using ls(2) Cons by simp
      then show ?thesis
        using less.hyps [of u k k] ls(4,5) less.prems(2,3) compact_skip(2) [OF ls(1), of x] same by (simp add: Cons k)
    next
      case plain
      have step: "scan_step k' c = scan_step k c" using lags_step [OF less.prems(1) ok(1)] plain(1) by blast
      have string: "in_string (fst k') \<longleftrightarrow> in_string (fst k)" using less.prems(1) by (auto simp: lags_def)
      have "c = CHR 0xE2 \<Longrightarrow> scan_step k c = k \<and> fst k = InString" using escaped_in_string [of c k] ok(1) by simp
      then have "c = CHR 0xE2 \<Longrightarrow> x = CHR 0xA8 \<or> x = CHR 0xA9 \<Longrightarrow> take 2 (json_compact (scan_step k c) t) \<noteq> [CHR 0x80, x]" for x
        using compact_two [of k t x] plain(3) ok(2) by metis
      then have "json_compact k' (c # json_compact (scan_step k c) t) = c # json_compact (scan_step k c) (json_compact (scan_step k c) t)"
        using plain(1,2) step string by auto
      then show ?thesis
        using less.hyps [of t "scan_step k c" "scan_step k c"] wf ok(2) plain(4) same by (simp add: Cons)
    qed
  qed simp
qed

lemma compact_idem:
  "json_Valid s \<Longrightarrow> json_compact (BeginValue, []) (json_compact (BeginValue, []) s) = json_compact (BeginValue, []) s"
  using compact_again [of "(BeginValue, [])" "(BeginValue, [])" s] valid_end(1) by (simp add: lags_def wf_conf_def)

lemma compact_Valid: "json_Valid s \<Longrightarrow> json_Valid (json_compact (BeginValue, []) s)"
  using compact_text valid_depth value_text_Valid by blast

end
