(* ===== verification/UbiQ_Wire.thy ===== *)
theory UbiQ_Wire
  imports Go_Json_Compact UbiQ_Delivery UbiQ_Secure
begin

text \<open>
  The JSON form of envelopes as the wire between the components: encoding and decoding keep an
  envelope up to the compact form of its payload, and with it its digest; what is published to the
  control store is what a worker claims; a secured publication is accepted at the other end of a
  transport; and the payloads at the decoder's nesting limit for which none of this holds.
\<close>

section \<open>Bytes\<close>

lemma b64_char_plain:
  assumes "c \<in> set (b64_encode b)"
  shows "c \<noteq> BS \<and> of_char c < (128::nat) \<and> c \<noteq> CHR 0x0D \<and> c \<noteq> CHR 0x0A"
proof -
  have "\<forall>c \<in> set (CHR ''='' # b64_alphabet). c \<noteq> BS \<and> of_char c < (128::nat) \<and> c \<noteq> CHR 0x0D \<and> c \<noteq> CHR 0x0A"
    by (simp add: b64_alphabet_def)
  moreover have "b64_char n \<in> set b64_alphabet" for n
    unfolding b64_char_def by (rule nth_mem) (simp add: b64_alphabet_def)
  then have "set (b64_encode b) \<subseteq> set (CHR ''='' # b64_alphabet)"
    by (induction b rule: b64_encode.induct) (auto simp: Let_def)
  ultimately show ?thesis using assms by blast
qed

lemma unquote_ascii_plain:
  "\<forall>c \<in> set s. c \<noteq> BS \<and> of_char c < (128::nat) \<Longrightarrow> unquote_body s = s"
  by (induction s) auto

lemma dec_bytes_json: "dec_bytes (json_bytes b) cur = Inr b"
proof -
  have plain: "\<forall>c \<in> set (b64_encode b). c \<noteq> BS \<and> of_char c < (128::nat) \<and> c \<noteq> CHR 0x0D \<and> c \<noteq> CHR 0x0A"
    using b64_char_plain by blast
  then have "unquote_body (b64_encode b) = b64_encode b" by (intro unquote_ascii_plain) blast
  moreover have "filter (\<lambda>c. c \<noteq> CHR 0x0D \<and> c \<noteq> CHR 0x0A) (b64_encode b) = b64_encode b"
    using plain by (simp add: filter_id_conv)
  ultimately show ?thesis
    by (simp add: dec_bytes_def is_null_def unquote_literal_def json_bytes_def b64_round)
qed

lemma dec_slice_marshal: "dec_slice (marshal_bytes b) cur = Inr b"
  by (cases b) (simp_all add: dec_slice_def marshal_bytes_def is_null_def dec_bytes_json map_result_def, simp add: json_bytes_def)

lemma bytes_option_text [simp]: "value_text n (marshal_bytes b)"
  by (cases b) (simp_all add: marshal_bytes_def)

lemma object_not_null: "\<not> is_null (json_object kvs)"
  by (simp add: is_null_def json_object_def)

section \<open>Proofs of possession\<close>

lemma depth_limit: "n < 10 \<Longrightarrow> n \<le> maxNestingDepth"
  by (simp add: maxNestingDepth_def)

lemma signature_text: "value_text (Suc n) (marshal_HybridSignature s)"
  unfolding marshal_HybridSignature_def by (rule object_text) simp_all

lemma dec_signature:
  "dec_struct strict [''ed25519'', ''mldsa44''] store_HybridSignature (marshal_HybridSignature s) cur = Inr s"
  unfolding marshal_HybridSignature_def
  by (subst dec_struct_object [where n = 0])
    (simp_all add: utf8_len_ascii match_field_def store_HybridSignature_def dec_slice_marshal map_result_def depth_limit)

definition wire_PoP :: "ProofOfPossession \<Rightarrow> bool" where
  "wire_PoP p \<longleftrightarrow> list_all utf8_valid [pop_Holder p, pop_Nonce p, pop_Method p, pop_Target p, pop_EnvelopeHash p]
     \<and> int64_range (pop_CreatedAtMS p)"

lemma pop_text: "value_text (Suc (Suc n)) (marshal_ProofOfPossession p)"
  unfolding marshal_ProofOfPossession_def by (rule object_text) (simp_all add: signature_text)

lemma dec_PoP:
  assumes "wire_PoP p"
  shows "dec_struct strict
           [''holder'', ''created_at_ms'', ''nonce'', ''method'', ''target'', ''envelope_hash'', ''signature'']
           (store_ProofOfPossession strict) (marshal_ProofOfPossession p) cur = Inr p"
  unfolding marshal_ProofOfPossession_def using assms
  by (subst dec_struct_object [where n = 1])
    (simp_all add: utf8_len_ascii match_field_def store_ProofOfPossession_def dec_string_quote dec_int64_int
       signature_text [of 0, simplified] dec_signature map_result_def depth_limit wire_PoP_def)

definition wire_Security :: "MessageSecurity \<Rightarrow> bool" where
  "wire_Security m \<longleftrightarrow> utf8_valid (ms_KeyID m) \<and> wire_PoP (ms_Proof m)"

lemma security_text: "value_text (Suc (Suc (Suc n))) (marshal_MessageSecurity m)"
  unfolding marshal_MessageSecurity_def by (rule object_text) (simp_all add: pop_text)

lemma dec_Security:
  assumes "wire_Security m"
  shows "dec_security strict (marshal_MessageSecurity m) cur = Inr (Some m)"
proof -
  have "dec_struct strict [''key_id'', ''proof''] (store_MessageSecurity strict) (marshal_MessageSecurity m) z = Inr m" for z
    unfolding marshal_MessageSecurity_def using assms
    by (subst dec_struct_object [where n = 2])
      (simp_all add: utf8_len_ascii match_field_def store_MessageSecurity_def dec_string_quote
         pop_text [of 0, simplified] numeral_2_eq_2 dec_PoP map_result_def depth_limit wire_Security_def)
  then show ?thesis
    by (simp add: dec_security_def map_result_def marshal_MessageSecurity_def object_not_null)
qed

section \<open>Envelopes\<close>

text \<open>What the JSON form keeps: well-formed UTF-8 strings, and a payload nested one level below the limit.\<close>

definition wire_Envelope :: "Envelope \<Rightarrow> bool" where
  "wire_Envelope e \<longleftrightarrow>
     list_all utf8_valid [env_ID e, env_Event e, env_CorrelationID e, env_CausationID e, env_IdempotencyKey e,
       env_SchemaID e, env_Guarantee e]
     \<and> int64_range (env_CreatedAtMS e) \<and> (case env_Security e of None \<Rightarrow> True | Some m \<Rightarrow> wire_Security m)
     \<and> json_depth (env_Payload e) < maxNestingDepth"

definition wire_payload :: "bytes \<Rightarrow> bytes" where
  "wire_payload p = json_compact (BeginValue, []) p"

lemma marshal_RawMessage_Valid:
  "p \<noteq> [] \<Longrightarrow> json_Valid p \<Longrightarrow> marshal_RawMessage p = Inr (wire_payload p)"
  by (simp add: marshal_RawMessage_def wire_payload_def)

definition Envelope_members :: "Envelope \<Rightarrow> bytes \<Rightarrow> (string \<times> bytes) list" where
  "Envelope_members e payload =
     [(''id'', json_quote (env_ID e)), (''event'', json_quote (env_Event e)),
      (''correlation_id'', json_quote (env_CorrelationID e)), (''causation_id'', json_quote (env_CausationID e)),
      (''idempotency_key'', json_quote (env_IdempotencyKey e)), (''schema_id'', json_quote (env_SchemaID e)),
      (''payload'', payload), (''guarantee'', json_quote (env_Guarantee e)),
      (''created_at_ms'', int_dec (env_CreatedAtMS e))]
     @ (case env_Security e of None \<Rightarrow> [] | Some m \<Rightarrow> [(''security'', marshal_MessageSecurity m)])"

lemma marshal_Envelope_members:
  assumes "env_Payload e \<noteq> []" and "json_Valid (env_Payload e)"
  shows "marshal_Envelope e = Inr (json_object (Envelope_members e (wire_payload (env_Payload e))))"
  using assms by (simp add: marshal_Envelope_def marshal_RawMessage_Valid Envelope_members_def)

lemma Envelope_members_text:
  assumes "value_text n v" and "3 \<le> n"
  shows "list_all (\<lambda>kv. value_text n (snd kv) \<and> utf8_valid (fst kv)) (Envelope_members e v)"
proof -
  have "value_text n (marshal_MessageSecurity m)" for m
    using security_text [of 0 m] scans_mono assms(2) by (auto simp: value_text_def numeral_3_eq_3)
  then show ?thesis
    using assms by (auto simp: Envelope_members_def utf8_len_ascii split: option.split)
qed

lemma Envelope_members_decode:
  assumes "wire_Envelope e"
  shows "dec_members False Envelope_fields (store_Envelope False) (Envelope_members e v) zero_Envelope None
     = Inr (e\<lparr>env_Payload := v\<rparr>)"
  using assms dec_Security
  by (cases "env_Security e")
    (simp_all add: Envelope_members_def wire_Envelope_def Envelope_fields_def zero_Envelope_def store_Envelope_def
       match_field_def dec_string_quote dec_int64_int dec_raw_def map_result_def)

lemma unmarshal_marshal_Envelope:
  assumes "wire_Envelope e" and "env_Payload e \<noteq> []" and "json_Valid (env_Payload e)" and "marshal_Envelope e = Inr raw"
  shows "unmarshal_Envelope raw = Inr (e\<lparr>env_Payload := wire_payload (env_Payload e)\<rparr>)"
proof -
  define n where "n = max 3 (json_depth (env_Payload e))"
  have depth: "Suc n \<le> maxNestingDepth" using assms(1) by (simp add: n_def wire_Envelope_def maxNestingDepth_def)
  have "value_text (json_depth (env_Payload e)) (wire_payload (env_Payload e))"
    using compact_text [OF assms(3) valid_depth [OF assms(3)]] by (simp add: wire_payload_def)
  then have payload: "value_text n (wire_payload (env_Payload e))"
    using scans_mono by (auto simp: value_text_def n_def)
  have "raw = json_object (Envelope_members e (wire_payload (env_Payload e)))"
    using marshal_Envelope_members [OF assms(2,3)] assms(4) by simp
  moreover have "Envelope_members e v \<noteq> []" for v by (simp add: Envelope_members_def)
  moreover have "3 \<le> n" by (simp add: n_def)
  ultimately show ?thesis
    unfolding unmarshal_Envelope_def
    by (simp only: Unmarshal_object [OF _ Envelope_members_text [OF payload] depth] Envelope_members_decode [OF assms(1)]
      simp_thms)
qed

section \<open>The received envelope\<close>

definition received_form :: "Envelope \<Rightarrow> Envelope" where
  "received_form e = e\<lparr>env_Payload := wire_payload (env_Payload e)\<rparr>"

lemma wire_payload_Valid:
  assumes "json_Valid p"
  shows "wire_payload p \<noteq> []" and "json_Valid (wire_payload p)" and "wire_payload (wire_payload p) = wire_payload p"
  using compact_text [OF assms valid_depth [OF assms]] compact_Valid [OF assms] compact_idem [OF assms]
  by (simp_all add: wire_payload_def value_text_def trimmed_def)

lemma received_Validate:
  assumes "Envelope_Validate e = Inr ()"
  shows "Envelope_Validate (received_form e) = Inr ()"
  using assms wire_payload_Valid(1,2) [of "env_Payload e"]
  by (auto simp: received_form_def Envelope_Validate_def Envelope_State_def Let_def split: if_splits sum.splits)

lemma received_marshal:
  assumes "Envelope_Validate e = Inr ()"
  shows "marshal_Envelope (received_form e\<lparr>env_Security := m\<rparr>) = marshal_Envelope (e\<lparr>env_Security := m\<rparr>)"
proof -
  have v: "env_Payload e \<noteq> []" "json_Valid (env_Payload e)" using Validate_payload assms by blast+
  note w = wire_payload_Valid [OF v(2)]
  have "marshal_RawMessage (wire_payload (env_Payload e)) = marshal_RawMessage (env_Payload e)"
    using v w by (simp add: marshal_RawMessage_Valid)
  then show ?thesis by (simp add: marshal_Envelope_def received_form_def cong: sum.case_cong)
qed

lemma received_Digest:
  assumes "Envelope_Validate e = Inr ()"
  shows "DigestHex sha256 (received_form e\<lparr>env_Security := m\<rparr>) = DigestHex sha256 (e\<lparr>env_Security := m\<rparr>)"
  using assms received_Validate [OF assms] received_marshal [OF assms, of None]
  by (simp add: DigestHex_def Digest_def CanonicalBytes_def)

lemma encode_decode:
  assumes "encodeEnvelope e = Inr raw" and "wire_Envelope e"
  shows "decodeEnvelope raw = Inr (received_form e)"
proof -
  have v: "Envelope_Validate e = Inr ()" and raw: "marshal_Envelope e = Inr raw"
    using assms(1) by (auto simp: encodeEnvelope_def split: sum.splits)
  have p: "env_Payload e \<noteq> []" "json_Valid (env_Payload e)" using Validate_payload v by blast+
  show ?thesis
    using unmarshal_marshal_Envelope [OF assms(2) p raw] received_Validate [OF v]
    by (simp add: decodeEnvelope_def received_form_def)
qed

text \<open>
  C13: The wire keeps envelopes. An envelope that can be encoded, whose strings are well-formed UTF-8,
  whose timestamp is a 64-bit integer and whose payload is nested less deep than the decoder's
  limit, is decoded to itself with the payload in compact form. The decoded envelope is valid, has
  the same digest, so that proofs of possession made for the original hold for it, and is encoded
  to the same bytes again.
\<close>

theorem envelope_roundtrip:
  assumes "encodeEnvelope e = Inr raw" and "wire_Envelope e"
  shows "decodeEnvelope raw = Inr (e\<lparr>env_Payload := wire_payload (env_Payload e)\<rparr>)
     \<and> DigestHex sha256 (e\<lparr>env_Payload := wire_payload (env_Payload e)\<rparr>) = DigestHex sha256 e
     \<and> encodeEnvelope (e\<lparr>env_Payload := wire_payload (env_Payload e)\<rparr>) = Inr raw"
proof -
  have v: "Envelope_Validate e = Inr ()" and raw: "marshal_Envelope e = Inr raw"
    using assms(1) by (auto simp: encodeEnvelope_def split: sum.splits)
  have self: "f = f\<lparr>env_Security := env_Security f\<rparr>" for f :: Envelope by simp
  have "DigestHex sha256 (received_form e) = DigestHex sha256 e"
    using received_Digest [OF v, of sha256 "env_Security e"] by (simp add: received_form_def)
  moreover have "encodeEnvelope (received_form e) = Inr raw"
    using received_marshal [OF v, of "env_Security e"] received_Validate [OF v] raw
    by (simp add: encodeEnvelope_def received_form_def)
  ultimately show ?thesis using encode_decode [OF assms] by (simp add: received_form_def)
qed

section \<open>Published and claimed\<close>

lemma published_row:
  assumes "store_reachable s" and "ControlStore_Publish fl now env s = (Inr (env', True), t)"
    and "store_steps t u" and "r \<in> set (events u)" and "er_id r = env_ID env"
  shows "marshal_Envelope env = Inr (er_envelope r)"
proof -
  have t: "store_inv t"
    using store.inv_reachable [OF reachable_step [OF assms(1) Publish_trans [OF assms(2)]]] .
  obtain raw where raw: "marshal_Envelope env = Inr raw" "new_event_row env raw now \<in> set (events t)"
    using Publish_created(2) [OF assms(2)] by blast
  have "row_le (new_event_row env raw now) r"
    using store_row_later [OF t assms(3) raw(2) assms(4)] assms(5) by (simp add: new_event_row_def)
  with raw show ?thesis by (simp add: row_le_def same_identity_def new_event_row_def)
qed

text \<open>
  C14: What is published is what is claimed. Take an envelope whose strings are well-formed UTF-8, whose
  timestamps are 64-bit integers and whose payload is nested less deep than the decoder's limit.
  Once it is stored under a new idempotency key, then whenever its event is next in line, however
  much later and whatever has happened to the store in between, a claim by a named worker with a
  positive lease, whose update does not fail, hands the worker the published envelope, with the
  payload in compact form and the same digest, and a lease on the published identifier.
\<close>

theorem published_envelope_is_claimed:
  assumes "store_reachable s" and "ControlStore_Publish fl now env s = (Inr (env', True), t)"
    and "wire_Envelope env" and "store_steps t u"
    and "claim_candidate (events u) = Some r" and "er_id r = env_ID env"
    and "fl' ClaimUpdate = None" and "w \<noteq> []" and "0 < lease"
  shows "\<exists>c v. ControlStore_Claim fl' now' w lease u = (Inr c, v)
     \<and> ce_Envelope c = env\<lparr>env_Payload := wire_payload (env_Payload env)\<rparr>
     \<and> DigestHex sha256 (ce_Envelope c) = DigestHex sha256 env
     \<and> lease_EventID (ce_Lease c) = env_ID env \<and> lease_WorkerID (ce_Lease c) = w"
proof -
  have m: "marshal_Envelope env = Inr (er_envelope r)"
    using published_row [OF assms(1,2,4) _ assms(6)] claim_candidate_Some [OF assms(5)] by blast
  have "\<exists>x. Envelope_Validate env = Inr x"
    using assms(2) by (cases "Envelope_Validate env") (auto simp: ControlStore_Publish_def)
  then have v: "Envelope_Validate env = Inr ()" by simp
  then have p: "env_Payload env \<noteq> []" "json_Valid (env_Payload env)" using Validate_payload by blast+
  have un: "unmarshal_Envelope (er_envelope r) = Inr (received_form env)"
    using unmarshal_marshal_Envelope [OF assms(3) p m] by (simp add: received_form_def)
  have "DigestHex sha256 (received_form env) = DigestHex sha256 env"
    using received_Digest [OF v, of sha256 "env_Security env"] by (simp add: received_form_def)
  with un show ?thesis
    using assms(5,7-9) by (simp add: ControlStore_Claim_def Let_def lease_row_def received_form_def)
qed

section \<open>Secured publications over the wire\<close>

lemma VerifyPoP_digest:
  assumes "DigestHex (lib_sha256 lib) env = DigestHex (lib_sha256 lib) env'"
  shows "VerifyPoP lib peer pf meth target env now skew p = VerifyPoP lib peer pf meth target env' now skew p"
  using assms by (simp add: VerifyPoP_def)

text \<open>
  C15: Authenticated end to end. An envelope that a provider publishes through the secure wrapper is
  encoded by the inner transport, decoded at the other end and passed to the wrapped handler of a
  subscriber that trusts the provider. Inside the freshness window, at any subscriber whose cache
  has no entry for the provider and this nonce, whatever else it has seen, the proof made for the
  original verifies for what arrives, the application's handler runs once, on the published
  envelope with its payload in compact form and without the attachment, RabbitMQ is acknowledged
  exactly when that handler succeeds, and the nonce is entered. The envelope has well-formed UTF-8
  strings, 64-bit timestamps and a payload nested less deep than the decoder's limit.
\<close>

theorem secure_over_the_wire:
  assumes "signatures_correct lib" and "provider_keys lib p"
    and "st_trust s (cp_keyID p) = Some (Public lib p)" and "st_inner_Name s = st_inner_Name sp"
    and "Secure_Publish lib (\<lambda>e b. (Inr (), b @ [e])) (Inr nonce) now sp p env [] = (Inr (), [sent])"
    and "pop_fresh (st_freshness s) later (UnixMilli now)"
    and "cp_replay v (cp_keyID p @ '':'' @ hex_EncodeToString nonce) = None"
    and "encodeEnvelope sent = Inr raw" and "wire_Envelope sent"
    and "h (env\<lparr>env_Payload := wire_payload (env_Payload env), env_Security := None\<rparr>) w = (res, w')"
  shows "\<exists>v'. Rabbit_on_message (Secure_handler lib later s h) raw (v, w) =
       (if is_ok res then Ack else Requeue, (v', w'))
     \<and> cp_replay v' (cp_keyID p @ '':'' @ hex_EncodeToString nonce) = Some (UnixMilli now)"
proof -
  let ?u = "env\<lparr>env_Security := None\<rparr>"
  let ?r = "env\<lparr>env_Payload := wire_payload (env_Payload env), env_Security := None\<rparr>"
  obtain pf where pf: "NewPoP lib (Inr nonce) p ''PUBLISH'' (Secure_target sp) ?u now = Inr pf"
    and sent: "sent = env\<lparr>env_Security := Some \<lparr>ms_KeyID = pb_KeyID (Public lib p), ms_Proof = pf\<rparr>\<rparr>"
    using assms(5) by (auto simp: Secure_Publish_def Let_def split: sum.splits)
  have key: "pop_key pf = cp_keyID p @ '':'' @ hex_EncodeToString nonce" "pop_CreatedAtMS pf = UnixMilli now"
    using pf by (auto simp: NewPoP_def Let_def pop_key_def split: sum.splits)
  have "Envelope_Validate sent = Inr ()" using assms(8) by (auto simp: encodeEnvelope_def split: sum.splits)
  then have "Envelope_Validate env = Inr ()" by (simp add: sent)
  from received_Digest [OF this, of "lib_sha256 lib" None]
  have dig: "DigestHex (lib_sha256 lib) ?r = DigestHex (lib_sha256 lib) ?u" by (simp add: received_form_def)
  obtain v' where v': "VerifyPoP lib (Public lib p) pf ''PUBLISH'' (Secure_target sp) ?u later (st_freshness s) v = (Inr (), v')"
    using honest_pop_verifies [OF assms(1,2) pf assms(6), of v] assms(7) key(1) by auto
  then have "VerifyPoP lib (Public lib p) pf ''PUBLISH'' (Secure_target s) ?r later (st_freshness s) v = (Inr (), v')"
    using VerifyPoP_digest [OF dig] assms(4) by (simp add: Secure_target_def)
  then have "Secure_handler lib later s h (received_form sent) (v, w) = (res, (v', w'))"
    using assms(3,10)
    by (simp add: Secure_handler_def TrustStore_Resolve_def received_form_def sent Public_def)
  moreover have "cp_replay v' (pop_key pf) = Some (UnixMilli now)"
    using VerifyPoP_ok(2,3) [OF v'] replay_insert_ok key(2) by simp
  ultimately show ?thesis
    using encode_decode [OF assms(8,9)] key(1) by (auto simp: Rabbit_on_message_def)
qed

section \<open>Payloads at the nesting limit\<close>

text \<open>Arrays nested as deep as the scanner allows, around nothing.\<close>

definition deep_payload :: bytes where
  "deep_payload = replicate maxNestingDepth CHR ''['' @ replicate maxNestingDepth CHR '']''"

lemma scan_open:
  assumes "st \<in> {BeginValue, BeginValueOrEmpty}"
  shows "scan_run (st, fs) (replicate n CHR ''['') =
     (if n = 0 then (st, fs) else if length fs + n \<le> maxNestingDepth then (BeginValueOrEmpty, replicate n ParseArrayValue @ fs)
      else scan_fail)"
  using assms
proof (induction n arbitrary: st fs)
  case (Suc n)
  have step: "scan_step (st, fs) CHR ''['' = pushParseState ParseArrayValue fs BeginValueOrEmpty"
    using Suc.prems by (auto simp: beginValue_def)
  have fail: "scan_run scan_fail (replicate n CHR ''['') = scan_fail"
    by (induction n) (simp_all add: scan_fail_def)
  have app: "replicate n ParseArrayValue @ ParseArrayValue # fs = ParseArrayValue # replicate n ParseArrayValue @ fs"
    by (simp add: replicate_app_Cons_same)
  show ?case
  proof (cases "length fs < maxNestingDepth")
    case True
    then show ?thesis
      using Suc.IH [of BeginValueOrEmpty "ParseArrayValue # fs"] step app by (simp add: pushParseState_def del: scan_step.simps)
  next
    case False
    then show ?thesis using step fail by (simp add: pushParseState_def del: scan_step.simps scan_fail_state)
  qed
qed simp

lemma scan_close:
  assumes "st = EndValue \<or> st = BeginValueOrEmpty" and "0 < n"
  shows "scan_run (st, replicate n ParseArrayValue) (replicate n CHR '']'') = (EndTop, [])"
  using assms
proof (induction n arbitrary: st)
  case (Suc n)
  have "scan_step (st, replicate (Suc n) ParseArrayValue) CHR '']'' = popParseState (replicate n ParseArrayValue)"
    using Suc.prems(1) by auto
  then show ?case
    using Suc.IH [of EndValue] by (cases "n = 0") (simp_all add: popParseState_def del: scan_step.simps)
qed simp

lemma deep_Valid: "json_Valid deep_payload"
proof -
  have n: "0 < maxNestingDepth" by (simp add: maxNestingDepth_def)
  have "scan_run (BeginValue, []) deep_payload = (EndTop, [])"
    unfolding deep_payload_def scan_run_append
    using n scan_open [of BeginValue "[]" maxNestingDepth] scan_close [of BeginValueOrEmpty maxNestingDepth] by simp
  then show ?thesis by (simp add: json_Valid_def scan_expect_def is_space_def)
qed

lemma compact_plain:
  "\<forall>c \<in> set s. \<not> is_space c \<and> \<not> html_unsafe c \<and> c \<noteq> CHR 0xE2 \<Longrightarrow> json_compact k s = s"
  by (induction s arbitrary: k) auto

lemma deep_compact: "wire_payload deep_payload = deep_payload"
proof -
  have "set deep_payload \<subseteq> {CHR ''['', CHR '']''}" by (auto simp: deep_payload_def)
  then show ?thesis unfolding wire_payload_def by (intro compact_plain) (auto simp: html_unsafe_def)
qed

subsection \<open>No object with such a member is decoded\<close>

lemma scan_member_comma:
  assumes "scans n (snd kv)" and "length fs + Suc n \<le> maxNestingDepth" and "st \<in> {BeginString, BeginStringOrEmpty}"
  shows "scan_run (st, ParseObjectKey # fs) (json_member kv @ '','') = (BeginString, ParseObjectKey # fs)"
proof -
  obtain st' where "scan_run (st, ParseObjectKey # fs) (json_member kv) = (st', ParseObjectValue # fs)"
    "ends st' (ParseObjectValue # fs)"
    using scan_member [OF assms] by blast
  then show ?thesis by (simp add: scan_run_append ends_def)
qed

lemma scan_members_comma:
  assumes "list_all (\<lambda>kv. scans n (snd kv)) kvs" and "length fs + Suc n \<le> maxNestingDepth"
  shows "scan_run (BeginString, ParseObjectKey # fs) (concat (map (\<lambda>kv. json_member kv @ '','') kvs)) = (BeginString, ParseObjectKey # fs)"
  using assms
proof (induction kvs)
  case (Cons kv kvs)
  have "scan_run (BeginString, ParseObjectKey # fs) (json_member kv @ '','') = (BeginString, ParseObjectKey # fs)"
    using Cons.prems by (intro scan_member_comma) auto
  moreover have "scan_run (BeginString, ParseObjectKey # fs) (concat (map (\<lambda>kv. json_member kv @ '','') kvs)) = (BeginString, ParseObjectKey # fs)"
    using Cons.IH Cons.prems by simp
  ultimately have "scan_run (BeginString, ParseObjectKey # fs)
      ((json_member kv @ '','') @ concat (map (\<lambda>kv. json_member kv @ '','') kvs)) = (BeginString, ParseObjectKey # fs)"
    unfolding scan_run_append [of _ "json_member kv @ '',''"] by simp
  then show ?case by simp
qed simp

lemma join_prefix:
  "\<exists>rest. join_with CHR '','' (map json_member (pre @ kv # post)) =
     concat (map (\<lambda>kv. json_member kv @ '','') pre) @ json_member kv @ rest"
proof (induction pre)
  case Nil
  show ?case by (cases post) auto
next
  case (Cons x pre)
  then obtain rest where "join_with CHR '','' (map json_member (pre @ kv # post)) =
     concat (map (\<lambda>kv. json_member kv @ '','') pre) @ json_member kv @ rest" by blast
  moreover have "\<exists>y ys. map json_member (pre @ kv # post) = y # ys" by (cases pre) auto
  ultimately show ?case by auto
qed

lemma deep_member_invalid:
  assumes "list_all (\<lambda>kv. scans n (snd kv)) (x # pre)" and "Suc n \<le> maxNestingDepth"
  shows "\<not> json_Valid (json_object ((x # pre) @ (k, deep_payload) # post))"
proof -
  let ?s = "(BeginString, [ParseObjectKey])"
  obtain rest where "join_with CHR '','' (map json_member ((x # pre) @ (k, deep_payload) # post)) =
     concat (map (\<lambda>kv. json_member kv @ '','') (x # pre)) @ json_member (k, deep_payload) @ rest"
    using join_prefix by blast
  then have obj: "json_object ((x # pre) @ (k, deep_payload) # post) = CHR ''{'' # (json_member x @ '','')
      @ concat (map (\<lambda>kv. json_member kv @ '','') pre) @ json_member (k, deep_payload) @ rest @ ''}''"
    by (simp add: json_object_def)
  have "scan_run (BeginStringOrEmpty, [ParseObjectKey]) (json_member x @ '','') = ?s"
    using assms by (intro scan_member_comma) auto
  moreover have "scan_run ?s (concat (map (\<lambda>kv. json_member kv @ '','') pre)) = ?s"
    using assms by (intro scan_members_comma) auto
  moreover have "scan_step (BeginValue, []) CHR ''{'' = (BeginStringOrEmpty, [ParseObjectKey])"
    by (simp add: beginValue_def pushParseState_def maxNestingDepth_def)
  moreover have err: "fst (scan_run ?s (json_member (k, deep_payload))) = ScanError"
  proof -
    have "scan_run ?s (json_quote k) = (EndValue, [ParseObjectKey])"
      unfolding json_quote_def by (rule scan_string [OF scan_quote_body]) simp
    moreover have "scan_run (BeginValue, [ParseObjectValue]) (replicate maxNestingDepth CHR ''['') = scan_fail"
      by (subst scan_open) (simp_all add: maxNestingDepth_def)
    moreover have "scan_step (EndValue, [ParseObjectKey]) CHR '':'' = (BeginValue, [ParseObjectValue])" by simp
    ultimately have "scan_run ?s (json_member (k, deep_payload)) = scan_run scan_fail (replicate maxNestingDepth CHR '']'')"
      unfolding json_member_def deep_payload_def fst_conv snd_conv scan_run_append scan_run.simps by simp
    then show ?thesis using scan_run_error [of scan_fail "replicate maxNestingDepth CHR '']''"] by simp
  qed
  ultimately have "scan_run (BeginValue, []) (json_object ((x # pre) @ (k, deep_payload) # post)) =
      scan_run (scan_run ?s (json_member (k, deep_payload))) (rest @ ''}'')"
    unfolding obj scan_run.simps scan_run_append [of _ "json_member x @ '',''"]
      scan_run_append [of _ "concat (map (\<lambda>kv. json_member kv @ '','') pre)"]
      scan_run_append [of _ "json_member (k, deep_payload)"] by simp
  then have "fst (scan_run (BeginValue, []) (json_object ((x # pre) @ (k, deep_payload) # post))) = ScanError"
    using scan_run_error [OF err] by simp
  then show ?thesis
    using scan_run_error [of "scan_run (BeginValue, []) (json_object ((x # pre) @ (k, deep_payload) # post))" "'' ''"]
    by (auto simp: json_Valid_def)
qed

lemma deep_unmarshal:
  assumes "env_Payload e = deep_payload" and "marshal_Envelope e = Inr raw"
  shows "unmarshal_Envelope raw = Inl (LibError ''json: syntax error'')"
proof -
  have "deep_payload \<noteq> []" by (simp add: deep_payload_def maxNestingDepth_def)
  then have "raw = json_object (Envelope_members e deep_payload)"
    using marshal_Envelope_members [of e] assms deep_Valid deep_compact by simp
  moreover have "\<not> json_Valid (json_object (Envelope_members e deep_payload))"
    unfolding Envelope_members_def append_Cons append_Nil
    using deep_member_invalid [where n = 0 and x = "(''id'', json_quote (env_ID e))" and k = "''payload''"
        and pre = "[(''event'', json_quote (env_Event e)), (''correlation_id'', json_quote (env_CorrelationID e)),
          (''causation_id'', json_quote (env_CausationID e)), (''idempotency_key'', json_quote (env_IdempotencyKey e)),
          (''schema_id'', json_quote (env_SchemaID e))]"]
    by (simp add: scans_quote maxNestingDepth_def)
  ultimately show ?thesis by (simp add: unmarshal_Envelope_def json_Unmarshal_def)
qed

text \<open>
  C39: A payload at the nesting limit blocks its event. Arrays nested 10000 deep are valid JSON, so
  such an envelope is accepted and stored; around it the stored envelope is nested one deeper, which
  the decoder refuses. Whenever the event is next in line, a claim leases it to the worker and then
  fails, so that the worker never learns of the lease and the event is never delivered.
\<close>

theorem deep_payload_never_delivered:
  assumes "store_reachable s" and "env_Payload env = deep_payload"
    and "ControlStore_Publish fl now env s = (Inr (env', True), t)" and "store_steps t u"
    and "claim_candidate (events u) = Some r" and "er_id r = env_ID env"
    and "fl' ClaimUpdate = None" and "w \<noteq> []" and "0 < lease"
  shows "\<exists>e v. ControlStore_Claim fl' now' w lease u = (Inl e, v)
     \<and> (\<exists>q \<in> set (events v). er_id q = env_ID env \<and> er_state q = DeliveryLeased \<and> er_owner q = Some w)"
proof -
  have c: "r \<in> set (events u)" using claim_candidate_Some [OF assms(5)] by blast
  have "unmarshal_Envelope (er_envelope r) = Inl (LibError ''json: syntax error'')"
    using deep_unmarshal [OF assms(2) published_row [OF assms(1,3,4) c assms(6)]] .
  then show ?thesis
    using assms(5-9) c by (auto simp: ControlStore_Claim_def Let_def lease_row_def set_sql_update intro!: bexI [of _ "lease_row w (to_int64 (now' + Milliseconds lease)) now' r"])
qed

section \<open>Concrete envelopes\<close>

lemma sample_wire: "wire_Envelope (sample_envelope ''e1'' ''k1'')"
proof -
  have "list_all utf8_valid [''e1'', ''Fin.createInvoice.request'', ''c'', ''a'', ''k1'', ''F@1'', GuaranteeProcessed]"
    by code_simp
  moreover have "json_depth ''{\"n\":1}'' = 1" by code_simp
  ultimately show ?thesis
    by (simp add: wire_Envelope_def sample_envelope_def maxNestingDepth_def int64_range_def)
qed

lemma Validate_payload_update:
  "Envelope_Validate e = Inr () \<Longrightarrow> p \<noteq> [] \<Longrightarrow> json_Valid p \<Longrightarrow> Envelope_Validate (e\<lparr>env_Payload := p\<rparr>) = Inr ()"
  by (auto simp: Envelope_Validate_def Envelope_State_def Let_def split: if_splits sum.splits)

lemma sample_Validate: "Envelope_Validate (sample_envelope ''e1'' ''k1'') = Inr ()"
proof -
  have "\<exists>x. Envelope_Validate (sample_envelope ''e1'' ''k1'') = Inr x"
    using run_publish by (cases "Envelope_Validate (sample_envelope ''e1'' ''k1'')") (auto simp: ControlStore_Publish_def)
  then show ?thesis by simp
qed

lemma encode_ok: "Envelope_Validate e = Inr () \<Longrightarrow> \<exists>raw. encodeEnvelope e = Inr raw"
  using marshal_Envelope_ok by (simp add: encodeEnvelope_def)

theorem envelope_roundtrip_witness:
  "\<exists>raw. encodeEnvelope ((sample_envelope ''e1'' ''k1'')\<lparr>env_Payload := ''{ \"n\" : [1, 2] }''\<rparr>) = Inr raw
     \<and> decodeEnvelope raw = Inr ((sample_envelope ''e1'' ''k1'')\<lparr>env_Payload := ''{\"n\":[1,2]}''\<rparr>)"
proof -
  let ?p = "''{ \"n\" : [1, 2] }''"
  let ?e = "(sample_envelope ''e1'' ''k1'')\<lparr>env_Payload := ?p\<rparr>"
  have p: "json_Valid ?p" "json_depth ?p = 2" "wire_payload ?p = ''{\"n\":[1,2]}''" by code_simp+
  then obtain raw where raw: "encodeEnvelope ?e = Inr raw"
    using encode_ok [OF Validate_payload_update [OF sample_Validate _ p(1)]] by auto
  have wire: "wire_Envelope ?e"
    using sample_wire p(2) by (simp add: wire_Envelope_def maxNestingDepth_def)
  have "env_Payload ?e = ?p" by simp
  with conjunct1 [OF envelope_roundtrip [OF raw wire]] raw show ?thesis by (simp add: p(3))
qed

theorem published_envelope_is_claimed_witness:
  "\<exists>c v. ControlStore_Claim no_faults 10 ''w1'' (10 * Millisecond) run_published = (Inr c, v)
     \<and> ce_Envelope c = sample_envelope ''e1'' ''k1''"
proof -
  obtain r where r: "claim_candidate (events run_published) = Some r" "er_id r = ''e1''"
    using run_candidates(1) by auto
  have "wire_payload ''{\"n\":1}'' = ''{\"n\":1}''" by code_simp
  with published_envelope_is_claimed [OF empty_store_reachable run_publish sample_wire rtranclp.rtrancl_refl r(1),
      of no_faults "''w1''" "10 * Millisecond" 10] r(2)
  show ?thesis by (simp add: no_faults_def Millisecond_def sample_envelope_def) blast
qed

theorem secure_over_the_wire_witness:
  "\<exists>sent raw v'. Secure_Publish sample_lib (\<lambda>e b. (Inr (), b @ [e])) (Inr ''n'') 0
       sample_secure sample_provider (sample_envelope ''e1'' ''k1'') [] = (Inr (), [sent])
     \<and> encodeEnvelope sent = Inr raw
     \<and> Rabbit_on_message (Secure_handler sample_lib Second sample_secure ok_handler) raw
         (sample_provider\<lparr>cp_replay := [''alice:6d'' \<mapsto> 0]\<rparr>, 4) = (Ack, (v', 5))"
proof -
  let ?env = "sample_envelope ''e1'' ''k1''"
  have unsigned: "?env\<lparr>env_Security := None\<rparr> = ?env" by (simp add: sample_envelope_def)
  have sent: "Secure_Publish sample_lib (\<lambda>e b. (Inr (), b @ [e])) (Inr ''n'') 0 sample_secure sample_provider ?env [] =
      (Inr (), [sample_signed])"
    using sample_pop_new [of "''n''" "''ubiq://transport/m''" 0]
    by (simp add: Secure_Publish_def unsigned Secure_target_def sample_secure_def sample_signed_def sample_pop_value
        Public_def sample_provider_def)
  have "Envelope_Validate sample_signed = Inr ()" using sample_Validate by (simp add: sample_signed_def)
  then obtain raw where raw: "encodeEnvelope sample_signed = Inr raw" using encode_ok by blast
  have "wire_Security (the (env_Security sample_signed))" by code_simp
  then have wire: "wire_Envelope sample_signed"
    using sample_wire by (simp add: wire_Envelope_def sample_signed_def)
  have fresh: "pop_fresh (st_freshness sample_secure) Second (UnixMilli 0)"
    unfolding sample_secure_def SecureTransport.select_convs by (rule sample_fresh) (simp_all add: Second_def)
  let ?v = "sample_provider\<lparr>cp_replay := [''alice:6d'' \<mapsto> 0]\<rparr>"
  have trust: "st_trust sample_secure (cp_keyID sample_provider) = Some (Public sample_lib sample_provider)"
    by (simp add: sample_provider_def sample_secure_def)
  have "hex_EncodeToString ''n'' = ''6e''" by code_simp
  then have unseen: "cp_replay ?v (cp_keyID sample_provider @ '':'' @ hex_EncodeToString ''n'') = None"
    by (simp add: sample_provider_def)
  show ?thesis
    using secure_over_the_wire [OF sample_lib_laws(5,6) trust refl sent fresh unseen raw wire,
        of ok_handler 4 "Inr ()" 5] sent raw by (auto simp: ok_handler_def)
qed

definition sample_deep :: Envelope where
  "sample_deep = (sample_envelope ''e1'' ''k1'')\<lparr>env_Payload := deep_payload\<rparr>"

lemma sample_deep_publish:
  obtains t r where "ControlStore_Publish no_faults 5 sample_deep empty_store = (Inr (sample_deep, True), t)"
    and "claim_candidate (events t) = Some r" and "er_id r = env_ID sample_deep"
proof -
  have "Envelope_Validate sample_deep = Inr ()"
    unfolding sample_deep_def using Validate_payload_update [OF sample_Validate _ deep_Valid]
    by (simp add: deep_payload_def maxNestingDepth_def)
  moreover from this obtain raw where "marshal_Envelope sample_deep = Inr raw" using marshal_Envelope_ok by blast
  ultimately show thesis
    using that by (simp add: ControlStore_Publish_def no_faults_def empty_store_def insert_event_def append_history_def
      claim_candidate_def order_limit_def claimable_def new_event_row_def)
qed

theorem deep_payload_never_delivered_witness:
  "\<exists>t. ControlStore_Publish no_faults 5 sample_deep empty_store = (Inr (sample_deep, True), t)
     \<and> (\<exists>e v. ControlStore_Claim no_faults 10 ''w1'' 7 t = (Inl e, v)
          \<and> (\<exists>q \<in> set (events v). er_id q = ''e1'' \<and> er_state q = DeliveryLeased \<and> er_owner q = Some ''w1''))"
proof -
  obtain t r where t: "ControlStore_Publish no_faults 5 sample_deep empty_store = (Inr (sample_deep, True), t)"
    "claim_candidate (events t) = Some r" "er_id r = env_ID sample_deep"
    by (rule sample_deep_publish)
  have "env_Payload sample_deep = deep_payload" "env_ID sample_deep = ''e1''"
    by (simp_all add: sample_deep_def sample_envelope_def)
  with deep_payload_never_delivered [OF empty_store_reachable _ t(1) rtranclp.rtrancl_refl t(2,3), of no_faults "''w1''" 7 10] t(1)
  show ?thesis by (auto simp: no_faults_def)
qed

end
