(* ===== verification/UbiQ_Cluster.thy ===== *)
theory UbiQ_Cluster
  imports UbiQ_Wire "HOL-Library.Multiset"
begin

text \<open>
  The cluster of \<^verbatim>\<open>cluster_raft.go\<close>: the replicated state machine with its JSON commands and
  snapshots, the membership operations over the raft library, rendezvous placement, and replication
  of writes. The raft library is an argument with the law the code relies on (\<open>raft_applies\<close>), and
  \<^verbatim>\<open>sort.Slice\<close> is an argument with its contract (\<open>sort_Slice\<close>).
\<close>

unbundle bit_operations_syntax

section \<open>The replicated state\<close>

record ClusterNode =
  cn_ID :: string
  cn_Address :: string
  cn_Healthy :: bool
  cn_LastHeartbeatMS :: int

record clusterState =
  cs_Epoch :: "64 word"
  cs_Nodes :: "string \<rightharpoonup> ClusterNode"

record clusterCommand =
  cc_Op :: string
  cc_Node :: ClusterNode

definition zero_ClusterNode :: ClusterNode where
  "zero_ClusterNode = \<lparr>cn_ID = [], cn_Address = [], cn_Healthy = False, cn_LastHeartbeatMS = 0\<rparr>"

definition newClusterFSM :: clusterState where
  "newClusterFSM = \<lparr>cs_Epoch = 0, cs_Nodes = Map.empty\<rparr>"

subsection \<open>JSON form of nodes and commands\<close>

definition json_bool :: "bool \<Rightarrow> bytes" where
  "json_bool b = (if b then ''true'' else ''false'')"

definition marshal_ClusterNode :: "ClusterNode \<Rightarrow> bytes" where
  "marshal_ClusterNode n =
     json_object [(''id'', json_quote (cn_ID n)), (''address'', json_quote (cn_Address n)),
       (''healthy'', json_bool (cn_Healthy n)), (''last_heartbeat_ms'', int_dec (cn_LastHeartbeatMS n))]"

definition marshal_clusterCommand :: "clusterCommand \<Rightarrow> bytes" where
  "marshal_clusterCommand c =
     json_object [(''op'', json_quote (cc_Op c)), (''node'', marshal_ClusterNode (cc_Node c))]"

definition ClusterNode_fields :: "string list" where
  "ClusterNode_fields = [''id'', ''address'', ''healthy'', ''last_heartbeat_ms'']"

definition store_ClusterNode :: "string \<Rightarrow> bytes \<Rightarrow> ClusterNode \<Rightarrow> ClusterNode result" where
  "store_ClusterNode f raw n =
     (if f = ''id'' then map_result (\<lambda>v. n\<lparr>cn_ID := v\<rparr>) (dec_string raw (cn_ID n))
      else if f = ''address'' then map_result (\<lambda>v. n\<lparr>cn_Address := v\<rparr>) (dec_string raw (cn_Address n))
      else if f = ''healthy'' then map_result (\<lambda>v. n\<lparr>cn_Healthy := v\<rparr>) (dec_bool raw (cn_Healthy n))
      else map_result (\<lambda>v. n\<lparr>cn_LastHeartbeatMS := v\<rparr>) (dec_int64 raw (cn_LastHeartbeatMS n)))"

definition store_clusterCommand :: "string \<Rightarrow> bytes \<Rightarrow> clusterCommand \<Rightarrow> clusterCommand result" where
  "store_clusterCommand f raw c =
     (if f = ''op'' then map_result (\<lambda>v. c\<lparr>cc_Op := v\<rparr>) (dec_string raw (cc_Op c))
      else map_result (\<lambda>v. c\<lparr>cc_Node := v\<rparr>) (dec_struct False ClusterNode_fields store_ClusterNode raw (cc_Node c)))"

definition unmarshal_clusterCommand :: "bytes \<Rightarrow> clusterCommand result" where
  "unmarshal_clusterCommand raw =
     json_Unmarshal False [''op'', ''node''] store_clusterCommand raw \<lparr>cc_Op = [], cc_Node = zero_ClusterNode\<rparr>"

subsection \<open>The finite state machine\<close>

definition clusterFSM_Apply :: "bytes \<Rightarrow> clusterState \<Rightarrow> unit result \<times> clusterState" where
  "clusterFSM_Apply data s =
     (case unmarshal_clusterCommand data of Inl e \<Rightarrow> (Inl e, s) | Inr cmd \<Rightarrow>
      if cc_Op cmd = ''upsert'' then
        (Inr (), s\<lparr>cs_Nodes := (cs_Nodes s)(cn_ID (cc_Node cmd) \<mapsto> cc_Node cmd), cs_Epoch := cs_Epoch s + 1\<rparr>)
      else if cc_Op cmd = ''delete'' then
        (Inr (), s\<lparr>cs_Nodes := (cs_Nodes s)(cn_ID (cc_Node cmd) := None), cs_Epoch := cs_Epoch s + 1\<rparr>)
      else (Inl (Errorf ''unknown cluster op %q'' [cc_Op cmd]), s))"

text \<open>
  \<^verbatim>\<open>Snapshot\<close> marshals the state; the encoder visits the map in some order \<open>keys\<close> and sorts its keys.
\<close>

definition marshal_nodes :: "string list \<Rightarrow> (string \<rightharpoonup> ClusterNode) \<Rightarrow> bytes" where
  "marshal_nodes keys m = json_object (map (\<lambda>k. (k, marshal_ClusterNode (the (m k)))) (sort keys))"

definition clusterFSM_Snapshot :: "string list \<Rightarrow> clusterState \<Rightarrow> bytes" where
  "clusterFSM_Snapshot keys s =
     json_object [(''epoch'', nat_dec (unat (cs_Epoch s))), (''nodes'', marshal_nodes keys (cs_Nodes s))]"

text \<open>Writing the snapshot to raft's sink: a failed write cancels it.\<close>

record snapshot_sink =
  sink_Write :: "bytes \<Rightarrow> go_error option"
  sink_Close :: "bytes \<Rightarrow> unit result"

definition clusterSnapshot_Persist :: "bytes \<Rightarrow> snapshot_sink \<Rightarrow> unit result \<times> bytes option" where
  "clusterSnapshot_Persist raw sink =
     (case sink_Write sink raw of
        Some e \<Rightarrow> (Inl e, None)
      | None \<Rightarrow> (sink_Close sink raw, if is_ok (sink_Close sink raw) then Some raw else None))"

text \<open>
  Decoding a map: a null gives the nil map, every member is decoded into a zero value and entered
  under its key. A nil \<^verbatim>\<open>Nodes\<close> is replaced by an empty map.
\<close>

fun dec_entries ::
  "(bytes \<Rightarrow> 'e result) \<Rightarrow> (string \<times> bytes) list \<Rightarrow> (string \<rightharpoonup> 'e) \<Rightarrow> go_error option \<Rightarrow> (string \<rightharpoonup> 'e) result" where
  "dec_entries dec [] m err = (case err of None \<Rightarrow> Inr m | Some e \<Rightarrow> Inl e)"
| "dec_entries dec ((k, raw) # ms) m err =
     (case dec raw of
        Inl e \<Rightarrow> dec_entries dec ms m (case err of None \<Rightarrow> Some e | Some e0 \<Rightarrow> Some e0)
      | Inr v \<Rightarrow> dec_entries dec ms (m(k \<mapsto> v)) err)"

definition dec_map :: "(bytes \<Rightarrow> 'e result) \<Rightarrow> bytes \<Rightarrow> (string \<rightharpoonup> 'e) option \<Rightarrow> (string \<rightharpoonup> 'e) option result" where
  "dec_map dec raw cur =
     (if is_null raw then Inr None
      else if raw \<noteq> [] \<and> hd raw = CHR ''{'' then
        map_result Some (dec_entries dec (object_members raw) (case cur of None \<Rightarrow> Map.empty | Some m \<Rightarrow> m) None)
      else Inl (type_error ''map''))"

definition dec_ClusterNode :: "bytes \<Rightarrow> ClusterNode result" where
  "dec_ClusterNode raw = dec_struct False ClusterNode_fields store_ClusterNode raw zero_ClusterNode"

record decodedState =
  ds_Epoch :: nat
  ds_Nodes :: "(string \<rightharpoonup> ClusterNode) option"

definition store_clusterState :: "string \<Rightarrow> bytes \<Rightarrow> decodedState \<Rightarrow> decodedState result" where
  "store_clusterState f raw s =
     (if f = ''epoch'' then map_result (\<lambda>v. s\<lparr>ds_Epoch := v\<rparr>) (dec_uint64 raw (ds_Epoch s))
      else map_result (\<lambda>v. s\<lparr>ds_Nodes := v\<rparr>) (dec_map dec_ClusterNode raw (ds_Nodes s)))"

definition unmarshal_clusterState :: "bytes \<Rightarrow> decodedState result" where
  "unmarshal_clusterState raw =
     json_Unmarshal False [''epoch'', ''nodes''] store_clusterState raw \<lparr>ds_Epoch = 0, ds_Nodes = None\<rparr>"

definition clusterFSM_Restore :: "bytes \<Rightarrow> clusterState \<Rightarrow> unit result \<times> clusterState" where
  "clusterFSM_Restore stream s =
     (case json_first_value stream of None \<Rightarrow> (Inl (LibError ''unexpected EOF''), s) | Some raw \<Rightarrow>
      case unmarshal_clusterState raw of
        Inl e \<Rightarrow> (Inl e, s)
      | Inr d \<Rightarrow>
          (Inr (), \<lparr>cs_Epoch = of_nat (ds_Epoch d),
             cs_Nodes = (case ds_Nodes d of None \<Rightarrow> Map.empty | Some m \<Rightarrow> m)\<rparr>))"

text \<open>A copy of the map with the same entries.\<close>

definition clusterFSM_copyState :: "clusterState \<Rightarrow> clusterState" where
  "clusterFSM_copyState s = \<lparr>cs_Epoch = cs_Epoch s, cs_Nodes = (\<lambda>k. cs_Nodes s k)\<rparr>"

section \<open>Operations on the raft cluster\<close>

text \<open>
  The raft library is an argument: whether the node leads, the servers of the configuration, and
  the three requests that go through the log. \<open>rl_Apply\<close> also returns the entries that the local
  state machine has applied by the time the future resolves.
\<close>

record raft_server =
  srv_ID :: string
  srv_Address :: string

record 'r raft_lib =
  rl_Leading :: "'r \<Rightarrow> bool"
  rl_Leader :: "'r \<Rightarrow> string"
  rl_GetConfiguration :: "'r \<Rightarrow> raft_server list result"
  rl_RemoveServer :: "string \<Rightarrow> 'r \<Rightarrow> unit result \<times> 'r"
  rl_AddVoter :: "string \<Rightarrow> string \<Rightarrow> 'r \<Rightarrow> unit result \<times> 'r"
  rl_Apply :: "bytes \<Rightarrow> 'r \<Rightarrow> unit result \<times> bytes list \<times> 'r"
  rl_Shutdown :: "'r \<Rightarrow> unit result"

record 'r RaftCluster =
  rc_raft :: 'r
  rc_fsm :: clusterState

text \<open>The steps of \<^verbatim>\<open>OpenRaftCluster\<close>, each of which may fail.\<close>

record 'r raft_open =
  ro_MkdirAll :: "unit result"
  ro_LogStore :: "unit result"
  ro_StableStore :: "unit result"
  ro_Snapshots :: "unit result"
  ro_Transport :: "string result"
  ro_NewRaft :: "string \<Rightarrow> clusterState \<Rightarrow> 'r result"
  ro_HasExistingState :: "bool result"
  ro_Bootstrap :: "raft_server list \<Rightarrow> 'r \<Rightarrow> unit result \<times> 'r"

definition OpenRaftCluster :: "'r raft_open \<Rightarrow> string \<Rightarrow> string \<Rightarrow> string \<Rightarrow> bool \<Rightarrow> 'r RaftCluster result" where
  "OpenRaftCluster os nodeID bindAddr dataDir bootstrap =
     (if nodeID = [] \<or> bindAddr = [] \<or> dataDir = []
      then Inl (errors_New ''nodeID, bindAddr and dataDir are required'')
      else case ro_MkdirAll os of Inl e \<Rightarrow> Inl e | Inr _ \<Rightarrow>
      case ro_LogStore os of Inl e \<Rightarrow> Inl e | Inr _ \<Rightarrow>
      case ro_StableStore os of Inl e \<Rightarrow> Inl e | Inr _ \<Rightarrow>
      case ro_Snapshots os of Inl e \<Rightarrow> Inl e | Inr _ \<Rightarrow>
      case ro_Transport os of Inl e \<Rightarrow> Inl e | Inr localAddr \<Rightarrow>
      case ro_NewRaft os nodeID newClusterFSM of Inl e \<Rightarrow> Inl e | Inr r \<Rightarrow>
      case ro_HasExistingState os of Inl e \<Rightarrow> Inl e | Inr hasState \<Rightarrow>
      if bootstrap \<and> \<not> hasState then
        (case ro_Bootstrap os [\<lparr>srv_ID = nodeID, srv_Address = localAddr\<rparr>] r of
           (Inl e, _) \<Rightarrow> Inl e
         | (Inr _, r1) \<Rightarrow> Inr \<lparr>rc_raft = r1, rc_fsm = newClusterFSM\<rparr>)
      else Inr \<lparr>rc_raft = r, rc_fsm = newClusterFSM\<rparr>)"

definition fsm_run :: "bytes list \<Rightarrow> clusterState \<Rightarrow> clusterState" where
  "fsm_run log s = fold (\<lambda>data s. snd (clusterFSM_Apply data s)) log s"

definition raft_Apply :: "'r raft_lib \<Rightarrow> bytes \<Rightarrow> 'r RaftCluster \<Rightarrow> unit result \<times> 'r RaftCluster" where
  "raft_Apply lib raw c =
     (case rl_Apply lib raw (rc_raft c) of (res, entries, r) \<Rightarrow>
        (res, \<lparr>rc_raft = r, rc_fsm = fsm_run entries (rc_fsm c)\<rparr>))"

definition Cluster_Close :: "'r raft_lib \<Rightarrow> 'r RaftCluster \<Rightarrow> unit result" where
  "Cluster_Close lib c = rl_Shutdown lib (rc_raft c)"

definition Cluster_IsLeader :: "'r raft_lib \<Rightarrow> 'r RaftCluster \<Rightarrow> bool" where
  "Cluster_IsLeader lib c = rl_Leading lib (rc_raft c)"

definition Cluster_Leader :: "'r raft_lib \<Rightarrow> 'r RaftCluster \<Rightarrow> string" where
  "Cluster_Leader lib c = rl_Leader lib (rc_raft c)"

definition UpsertNode :: "'r raft_lib \<Rightarrow> ClusterNode \<Rightarrow> 'r RaftCluster \<Rightarrow> unit result \<times> 'r RaftCluster" where
  "UpsertNode lib node c =
     (if \<not> Cluster_IsLeader lib c then (Inl (errors_New ''upsert must be sent to leader''), c)
      else raft_Apply lib (marshal_clusterCommand \<lparr>cc_Op = ''upsert'', cc_Node = node\<rparr>) c)"

definition Heartbeat :: "'r raft_lib \<Rightarrow> instant \<Rightarrow> string \<Rightarrow> string \<Rightarrow> 'r RaftCluster \<Rightarrow> unit result \<times> 'r RaftCluster" where
  "Heartbeat lib now i address c =
     UpsertNode lib \<lparr>cn_ID = i, cn_Address = address, cn_Healthy = True, cn_LastHeartbeatMS = UnixMilli now\<rparr> c"

text \<open>The loop of \<^verbatim>\<open>Join\<close> over the configuration; a value of the option is an early return.\<close>

fun join_servers ::
  "'r raft_lib \<Rightarrow> string \<Rightarrow> string \<Rightarrow> raft_server list \<Rightarrow> 'r RaftCluster \<Rightarrow> unit result option \<times> 'r RaftCluster" where
  "join_servers lib i address [] c = (None, c)"
| "join_servers lib i address (srv # srvs) c =
     (if srv_ID srv = i \<or> srv_Address srv = address then
        (if srv_ID srv = i \<and> srv_Address srv = address then (Some (Inr ()), c)
         else (case rl_RemoveServer lib (srv_ID srv) (rc_raft c) of
                 (Inl e, r) \<Rightarrow> (Some (Inl e), c\<lparr>rc_raft := r\<rparr>)
               | (Inr _, r) \<Rightarrow> join_servers lib i address srvs (c\<lparr>rc_raft := r\<rparr>)))
      else join_servers lib i address srvs c)"

definition Cluster_Join ::
  "'r raft_lib \<Rightarrow> instant \<Rightarrow> string \<Rightarrow> string \<Rightarrow> 'r RaftCluster \<Rightarrow> unit result \<times> 'r RaftCluster" where
  "Cluster_Join lib now i address c =
     (if \<not> Cluster_IsLeader lib c then (Inl (errors_New ''join must be sent to leader''), c)
      else case rl_GetConfiguration lib (rc_raft c) of Inl e \<Rightarrow> (Inl e, c) | Inr servers \<Rightarrow>
      case join_servers lib i address servers c of
        (Some res, c1) \<Rightarrow> (res, c1)
      | (None, c1) \<Rightarrow>
          (case rl_AddVoter lib i address (rc_raft c1) of
             (Inl e, r) \<Rightarrow> (Inl e, c1\<lparr>rc_raft := r\<rparr>)
           | (Inr _, r) \<Rightarrow>
               UpsertNode lib \<lparr>cn_ID = i, cn_Address = address, cn_Healthy = True, cn_LastHeartbeatMS = UnixMilli now\<rparr>
                 (c1\<lparr>rc_raft := r\<rparr>)))"

definition Cluster_Remove :: "'r raft_lib \<Rightarrow> string \<Rightarrow> 'r RaftCluster \<Rightarrow> unit result \<times> 'r RaftCluster" where
  "Cluster_Remove lib i c =
     (if \<not> Cluster_IsLeader lib c then (Inl (errors_New ''remove must be sent to leader''), c)
      else case rl_RemoveServer lib i (rc_raft c) of
        (Inl e, r) \<Rightarrow> (Inl e, c\<lparr>rc_raft := r\<rparr>)
      | (Inr _, r) \<Rightarrow>
          raft_Apply lib (marshal_clusterCommand \<lparr>cc_Op = ''delete'', cc_Node = zero_ClusterNode\<lparr>cn_ID := i\<rparr>\<rparr>)
            (c\<lparr>rc_raft := r\<rparr>))"

fun reap_nodes ::
  "'r raft_lib \<Rightarrow> int \<Rightarrow> ClusterNode list \<Rightarrow> 'r RaftCluster \<Rightarrow> unit result \<times> 'r RaftCluster" where
  "reap_nodes lib cutoff [] c = (Inr (), c)"
| "reap_nodes lib cutoff (n # ns) c =
     (if cn_Healthy n \<and> cn_LastHeartbeatMS n < cutoff then
        (case UpsertNode lib (n\<lparr>cn_Healthy := False\<rparr>) c of
           (Inl e, c1) \<Rightarrow> (Inl e, c1)
         | (Inr _, c1) \<Rightarrow> reap_nodes lib cutoff ns c1)
      else reap_nodes lib cutoff ns c)"

definition ReapStale ::
  "'r raft_lib \<Rightarrow> instant \<Rightarrow> duration \<Rightarrow> string list \<Rightarrow> 'r RaftCluster \<Rightarrow> unit result \<times> 'r RaftCluster" where
  "ReapStale lib now maxAge order c =
     (if \<not> Cluster_IsLeader lib c then (Inl (errors_New ''reap must run on leader''), c)
      else let state = clusterFSM_copyState (rc_fsm c); cutoff = UnixMilli (now + to_int64 (- maxAge)) in
        reap_nodes lib cutoff (List.map_filter (cs_Nodes state) order) c)"

definition Cluster_State :: "string list \<Rightarrow> clusterState \<Rightarrow> 64 word \<times> ClusterNode list" where
  "Cluster_State order s =
     (let c = clusterFSM_copyState s in (cs_Epoch c, sort_key cn_ID (List.map_filter (cs_Nodes c) order)))"

section \<open>Placement\<close>

record ReplicaPlacement =
  rp_Epoch :: "64 word"
  rp_Shard :: "32 word"
  rp_Nodes :: "ClusterNode list"

definition fnv64 :: "string \<Rightarrow> 64 word" where
  "fnv64 s = foldl (\<lambda>h c. (h XOR of_nat (of_char c)) * 1099511628211) 14695981039346656037 s"

definition rendezvousScore :: "string \<Rightarrow> string \<Rightarrow> 64 word" where
  "rendezvousScore key node = fnv64 (key @ CHR 0x00 # node)"

text \<open>\<open>srt\<close> is \<^verbatim>\<open>sort.Slice\<close>, which takes the comparison and leaves the order of equivalent elements open.\<close>

definition Placement ::
  "((ClusterNode \<times> 64 word \<Rightarrow> ClusterNode \<times> 64 word \<Rightarrow> bool) \<Rightarrow>
      (ClusterNode \<times> 64 word) list \<Rightarrow> (ClusterNode \<times> 64 word) list) \<Rightarrow> string list \<Rightarrow> string \<Rightarrow> 32 word \<Rightarrow> int \<Rightarrow>
     clusterState \<Rightarrow> ReplicaPlacement result" where
  "Placement srt order key shardCount replication s =
     (if shardCount = 0 \<or> replication \<le> 0 then Inl (errors_New ''invalid shard/replication values'')
      else case Cluster_State order s of (epoch, nodes) \<Rightarrow>
      let healthy = filter cn_Healthy nodes in
      if int (length healthy) < replication then Inl (errors_New ''not enough healthy nodes'')
      else let scores = map (\<lambda>n. (n, rendezvousScore key (cn_ID n))) healthy in
        Inr \<lparr>rp_Epoch = epoch, rp_Shard = ucast (fnv64 key mod ucast shardCount),
             rp_Nodes = map fst (take (nat replication) (srt (\<lambda>a b. snd a > snd b) scores))\<rparr>)"

section \<open>Replication\<close>

record ReplicaApply =
  ra_Shard :: "32 word"
  ra_Key :: string
  ra_FencingToken :: "64 word"
  ra_Payload :: bytes

definition marshal_ReplicaApply :: "ReplicaApply \<Rightarrow> bytes result" where
  "marshal_ReplicaApply a =
     map_result (\<lambda>payload. json_object [(''shard'', nat_dec (unat (ra_Shard a))), (''key'', json_quote (ra_Key a)),
         (''fencing_token'', nat_dec (unat (ra_FencingToken a))), (''payload'', payload)])
       (marshal_RawMessage (ra_Payload a))"

definition replica_key :: "ReplicaApply \<Rightarrow> string" where
  "replica_key a = ''replica:'' @ nat_dec (unat (ra_Shard a)) @ '':'' @ ra_Key a @ '':'' @ nat_dec (unat (ra_FencingToken a))"

definition replica_envelope :: "instant \<Rightarrow> instant \<Rightarrow> bytes \<Rightarrow> string \<Rightarrow> ReplicaApply \<Rightarrow> Envelope" where
  "replica_envelope now1 now2 raw correlation a =
     \<lparr>env_ID = ''replica-'' @ int_dec (to_int64 now1) @ ''-'' @ nat_dec (unat (ra_Shard a)),
      env_Event = ''System.Replica.apply.request'', env_CorrelationID = correlation, env_CausationID = correlation,
      env_IdempotencyKey = replica_key a, env_SchemaID = ''System.Replica.apply.request@1'', env_Payload = raw,
      env_Guarantee = GuaranteeProcessed, env_CreatedAtMS = UnixMilli now2, env_Security = None\<rparr>"

definition Replicate ::
  "(Envelope \<Rightarrow> 'b \<Rightarrow> unit result \<times> 'b) \<Rightarrow> instant \<Rightarrow> instant \<Rightarrow> ReplicaApply \<Rightarrow> string \<Rightarrow> 'b \<Rightarrow> unit result \<times> 'b" where
  "Replicate t_Publish now1 now2 a correlation b =
     (case marshal_ReplicaApply a of Inl e \<Rightarrow> (Inl e, b) | Inr raw \<Rightarrow>
      t_Publish (replica_envelope now1 now2 raw correlation a) b)"

section \<open>JSON round trips\<close>

definition wire_node :: "ClusterNode \<Rightarrow> bool" where
  "wire_node n \<longleftrightarrow> utf8_valid (cn_ID n) \<and> utf8_valid (cn_Address n) \<and> int64_range (cn_LastHeartbeatMS n)"

lemma bool_text [simp]: "value_text n (json_bool b)"
  by (simp add: json_bool_def)

lemma dec_bool_json: "dec_bool (json_bool b) cur = Inr b"
  by (simp add: dec_bool_def json_bool_def is_null_def)

lemma node_text: "value_text (Suc n) (marshal_ClusterNode nd)"
  unfolding marshal_ClusterNode_def by (rule object_text) simp_all

lemma dec_node:
  assumes "wire_node nd"
  shows "dec_struct False ClusterNode_fields store_ClusterNode (marshal_ClusterNode nd) cur = Inr nd"
  unfolding marshal_ClusterNode_def ClusterNode_fields_def using assms
  by (subst dec_struct_object [where n = 0])
    (simp_all add: utf8_len_ascii match_field_def store_ClusterNode_def dec_string_quote dec_int64_int dec_bool_json
       map_result_def depth_limit wire_node_def)

lemma command_roundtrip:
  assumes "utf8_valid (cc_Op c)" and "wire_node (cc_Node c)"
  shows "unmarshal_clusterCommand (marshal_clusterCommand c) = Inr c"
  unfolding marshal_clusterCommand_def unmarshal_clusterCommand_def using assms node_text [of 0]
  by (subst Unmarshal_object [where n = 1])
    (simp_all add: utf8_len_ascii match_field_def store_clusterCommand_def dec_string_quote dec_node map_result_def
       maxNestingDepth_def)

lemma ops_valid [simp]: "utf8_valid ''upsert''" "utf8_valid ''delete''"
  by (simp_all add: utf8_len_ascii)

subsection \<open>Maps\<close>

lemma empty_object:
  "value_text (Suc n) (json_object [])" "object_members (json_object []) = []"
proof -
  have "scans (Suc n) (json_object [])"
    unfolding scans_def
  proof (intro allI impI)
    fix fs :: "jframe list" assume "length fs + Suc n \<le> maxNestingDepth"
    then have "scan_run (BeginValue, fs) (json_object []) = popParseState fs"
      by (simp add: json_object_def beginValue_def pushParseState_def)
    with popParseState_ends [of fs]
    show "\<exists>st. scan_run (BeginValue, fs) (json_object []) = (st, fs) \<and> ends st fs" by simp
  qed
  then show "value_text (Suc n) (json_object [])" by (simp add: value_text_def trimmed_def json_object_def)
  show "object_members (json_object []) = []"
    by (simp add: object_members_def json_object_def json_trim_def)
qed

lemma members_any_object:
  assumes "list_all (\<lambda>kv. value_text n (snd kv) \<and> utf8_valid (fst kv)) kvs" and "n \<le> maxNestingDepth"
  shows "object_members (json_object kvs) = kvs"
  using members_object [OF _ assms] empty_object(2) by (cases "kvs = []") auto

lemma dec_entries_all:
  "\<forall>k \<in> set ks. dec (f k) = Inr (g k) \<Longrightarrow>
     dec_entries dec (map (\<lambda>k. (k, f k)) ks) m None = Inr (\<lambda>k. if k \<in> set ks then Some (g k) else m k)"
proof (induction ks arbitrary: m)
  case (Cons k ks)
  have "(\<lambda>x. if x \<in> set ks then Some (g x) else (m(k \<mapsto> g k)) x) = (\<lambda>x. if x \<in> set (k # ks) then Some (g x) else m x)"
    by auto
  with Cons show ?case by simp
qed simp

definition wire_state :: "clusterState \<Rightarrow> bool" where
  "wire_state s \<longleftrightarrow> (\<forall>k n. cs_Nodes s k = Some n \<longrightarrow> utf8_valid k \<and> wire_node n)"

lemma nodes_text: "value_text (Suc (Suc n)) (marshal_nodes keys m)"
proof (cases "keys = []")
  case True
  then show ?thesis using empty_object(1) by (simp add: marshal_nodes_def)
next
  case False
  then have "sort keys \<noteq> []" by (metis set_empty set_sort)
  then show ?thesis
    unfolding marshal_nodes_def by (intro object_text) (auto simp: list_all_iff node_text)
qed

lemma dec_nodes:
  assumes "set keys = dom m" and "\<forall>k n. m k = Some n \<longrightarrow> utf8_valid k \<and> wire_node n"
  shows "dec_map dec_ClusterNode (marshal_nodes keys m) None = Inr (Some m)"
proof -
  have "list_all (\<lambda>kv. value_text 1 (snd kv) \<and> utf8_valid (fst kv)) (map (\<lambda>k. (k, marshal_ClusterNode (the (m k)))) (sort keys))"
    using assms node_text [of 0] by (auto simp: list_all_iff)
  from members_any_object [OF this]
  have "object_members (marshal_nodes keys m) = map (\<lambda>k. (k, marshal_ClusterNode (the (m k)))) (sort keys)"
    by (simp add: marshal_nodes_def maxNestingDepth_def)
  moreover have "\<forall>k \<in> set (sort keys). dec_ClusterNode (marshal_ClusterNode (the (m k))) = Inr (the (m k))"
    using assms dec_node by (auto simp: dec_ClusterNode_def)
  from dec_entries_all [where f = "\<lambda>k. marshal_ClusterNode (the (m k))" and g = "\<lambda>k. the (m k)", OF this, of Map.empty]
  have "dec_entries dec_ClusterNode (map (\<lambda>k. (k, marshal_ClusterNode (the (m k)))) (sort keys)) Map.empty None = Inr m"
    using assms(1) by (auto simp: fun_eq_iff dom_def)
  moreover have "hd (marshal_nodes keys m) = CHR ''{''" "marshal_nodes keys m \<noteq> []" "\<not> is_null (marshal_nodes keys m)"
    by (simp_all add: marshal_nodes_def json_object_def is_null_def)
  ultimately show ?thesis by (simp add: dec_map_def map_result_def)
qed

lemma state_roundtrip:
  assumes "wire_state s" and "set keys = dom (cs_Nodes s)"
  shows "unmarshal_clusterState (clusterFSM_Snapshot keys s) = Inr \<lparr>ds_Epoch = unat (cs_Epoch s), ds_Nodes = Some (cs_Nodes s)\<rparr>"
proof -
  have "unat (cs_Epoch s) < 2 ^ 64" using unsigned_less [of "cs_Epoch s"] by simp
  moreover have "dec_map dec_ClusterNode (marshal_nodes keys (cs_Nodes s)) None = Inr (Some (cs_Nodes s))"
    using assms by (intro dec_nodes) (auto simp: wire_state_def)
  ultimately show ?thesis
    unfolding clusterFSM_Snapshot_def unmarshal_clusterState_def using nodes_text [of 0]
    by (subst Unmarshal_object [where n = 2])
      (simp_all add: utf8_len_ascii match_field_def store_clusterState_def dec_uint64_nat map_result_def
         maxNestingDepth_def numeral_2_eq_2)
qed

text \<open>Of a stream that is one object, the decoder reads exactly that object.\<close>

definition closed :: "jconf \<Rightarrow> bool" where
  "closed k \<longleftrightarrow> snd k \<noteq> [] \<or> fst k = EndTop \<or> fst k = ScanError"

lemma closed_step:
  assumes "closed k"
  shows "closed (scan_step k c)"
proof -
  obtain st fs where k: "k = (st, fs)" by fastforce
  have e: "closed (endValue gs d)" for gs d
    by (cases "(gs, d)" rule: endValue.cases) (auto simp: popParseState_def closed_def)
  show ?thesis
  proof (cases "fs = []")
    case True
    then have "st = EndTop \<or> st = ScanError" using assms by (simp add: k closed_def)
    then show ?thesis using True by (cases "is_space c") (auto simp: k closed_def scan_expect_def)
  next
    case False
    then have same: "closed (st', fs)" for st' by (simp add: closed_def)
    have "closed scan_fail" "closed (pushParseState f fs st')" for f st' by (simp_all add: closed_def pushParseState_def)
    with same show ?thesis
      by (cases st) (simp_all add: k e beginValue_def beginString_def scan_expect_def del: endValue.simps scan_fail_state)
  qed
qed

lemma closed_run: "closed k \<Longrightarrow> closed (scan_run k s)"
  by (induction s arbitrary: k) (simp_all add: closed_step)

lemma EndTop_run: "fst (scan_run (EndTop, fs) s) \<noteq> ScanError \<Longrightarrow> list_all is_space s"
proof (induction s)
  case (Cons c s)
  then show ?case
    using scan_run_error [of scan_fail s] by (cases "is_space c") (auto simp: scan_expect_def)
qed simp

lemma first_value_object:
  assumes "json_Valid (json_object kvs)"
  shows "json_first_value (json_object kvs) = Some (json_object kvs)"
proof -
  let ?o = "json_object kvs"
  have open_stack: "scan_run (BeginValue, []) (CHR ''{'' # t) = scan_run (BeginStringOrEmpty, [ParseObjectKey]) t" for t
    by (simp add: beginValue_def pushParseState_def maxNestingDepth_def)
  have prefix_invalid: "\<not> json_Valid (take k ?o)" if "k < length ?o" for k
  proof
    assume v: "json_Valid (take k ?o)"
    have "\<not> json_Valid []" by (simp add: json_Valid_def beginValue_def is_space_def)
    with v have "k \<noteq> 0" by (cases "k = 0") auto
    then obtain t where t: "take k ?o = CHR ''{'' # t" by (cases k) (auto simp: json_object_def)
    have "closed (scan_run (BeginValue, []) (take k ?o))"
      unfolding t open_stack by (rule closed_run) (simp add: closed_def)
    then have top: "scan_run (BeginValue, []) (take k ?o) = (EndTop, [])"
      using valid_end(1,2) [OF v] by (simp add: closed_def prod_eq_iff)
    have "fst (scan_run (BeginValue, []) (take k ?o @ drop k ?o)) \<noteq> ScanError"
      using valid_end(1) [OF assms] by simp
    then have "list_all is_space (drop k ?o)"
      unfolding scan_run_append top by (rule EndTop_run)
    moreover have "drop k ?o \<noteq> []" "last (drop k ?o) = CHR ''}''"
      using that by (auto simp: json_object_def)
    ultimately show False using last_in_set [of "drop k ?o"] by (auto simp: list_all_iff)
  qed
  have "find (\<lambda>k. json_Valid (take k ?o)) [0..<Suc (length ?o)] = Some (length ?o)"
  proof -
    have "find (\<lambda>k. json_Valid (take k ?o)) [0..<length ?o] = None"
      using prefix_invalid by (auto simp: find_None_iff)
    moreover have "find P (xs @ [x]) = (case find P xs of None \<Rightarrow> if P x then Some x else None | Some y \<Rightarrow> Some y)"
      for P :: "nat \<Rightarrow> bool" and xs x by (induction xs) auto
    ultimately show ?thesis using assms by simp
  qed
  then show ?thesis by (simp add: json_first_value_def)
qed

lemma Restore_Snapshot:
  assumes "wire_state s" and "set keys = dom (cs_Nodes s)"
  shows "clusterFSM_Restore (clusterFSM_Snapshot keys s) s0 = (Inr (), s)"
proof -
  have "value_text (Suc 2) (clusterFSM_Snapshot keys s)"
    unfolding clusterFSM_Snapshot_def using nodes_text [of 0] by (intro object_text) (simp_all add: numeral_2_eq_2)
  then have "json_Valid (clusterFSM_Snapshot keys s)"
    by (rule value_text_Valid) (simp add: maxNestingDepth_def)
  then have "json_first_value (clusterFSM_Snapshot keys s) = Some (clusterFSM_Snapshot keys s)"
    unfolding clusterFSM_Snapshot_def by (rule first_value_object)
  then show ?thesis
    using state_roundtrip [OF assms] by (simp add: clusterFSM_Restore_def)
qed

section \<open>The log and its snapshots\<close>

definition valid_command :: "clusterCommand \<Rightarrow> bool" where
  "valid_command c \<longleftrightarrow> (cc_Op c = ''upsert'' \<or> cc_Op c = ''delete'') \<and> wire_node (cc_Node c)"

abbreviation cluster_log :: "clusterCommand list \<Rightarrow> bytes list" where
  "cluster_log cmds \<equiv> map marshal_clusterCommand cmds"

lemma Apply_command:
  assumes "valid_command c"
  shows "clusterFSM_Apply (marshal_clusterCommand c) s = (Inr (), s\<lparr>cs_Nodes := (cs_Nodes s)(cn_ID (cc_Node c) :=
      (if cc_Op c = ''upsert'' then Some (cc_Node c) else None)), cs_Epoch := cs_Epoch s + 1\<rparr>)"
proof -
  have "utf8_valid (cc_Op c)" using assms ops_valid unfolding valid_command_def by metis
  then have "unmarshal_clusterCommand (marshal_clusterCommand c) = Inr c"
    using assms command_roundtrip by (simp add: valid_command_def)
  then show ?thesis using assms by (auto simp: clusterFSM_Apply_def valid_command_def)
qed

lemma fsm_run_simps [simp]:
  "fsm_run [] s = s" "fsm_run (data # log) s = fsm_run log (snd (clusterFSM_Apply data s))"
  "fsm_run (log @ log') s = fsm_run log' (fsm_run log s)"
  by (simp_all add: fsm_run_def)

definition last_command :: "string \<Rightarrow> clusterCommand list \<Rightarrow> clusterCommand option" where
  "last_command k cmds = find (\<lambda>c. cn_ID (cc_Node c) = k) (rev cmds)"

lemma last_command_snoc:
  "last_command k (cmds @ [c]) = (if cn_ID (cc_Node c) = k then Some c else last_command k cmds)"
  by (simp add: last_command_def)

lemma fsm_run_last:
  assumes "\<forall>c \<in> set cmds. valid_command c"
  shows "cs_Nodes (fsm_run (cluster_log cmds) newClusterFSM) k =
      (case last_command k cmds of None \<Rightarrow> None
       | Some c \<Rightarrow> if cc_Op c = ''upsert'' then Some (cc_Node c) else None)
    \<and> cs_Epoch (fsm_run (cluster_log cmds) newClusterFSM) = of_nat (length cmds)"
  using assms
proof (induction cmds rule: rev_induct)
  case Nil
  then show ?case by (simp add: newClusterFSM_def last_command_def)
next
  case (snoc c cmds)
  then show ?case using Apply_command [of c] by (simp add: last_command_snoc)
qed

lemma fsm_run_wire:
  assumes "\<forall>c \<in> set cmds. valid_command c"
  shows "wire_state (fsm_run (cluster_log cmds) newClusterFSM)"
  using assms
proof (induction cmds rule: rev_induct)
  case Nil
  then show ?case by (simp add: newClusterFSM_def wire_state_def)
next
  case (snoc c cmds)
  then have "wire_node (cc_Node c)" by (simp add: valid_command_def)
  with snoc show ?case
    using Apply_command [of c] by (auto simp: wire_state_def wire_node_def)
qed

text \<open>
  C28: Every replica reaches the state of the log. After any log of upserts and deletes of nodes with
  well-formed UTF-8 strings and 64-bit heartbeats, a node is known exactly when the last command
  about it was an upsert, with the data of that command, and the epoch counts the commands modulo
  2 to the 64. A replica that restores a snapshot taken after a prefix of the log
  and applies the rest reaches the same state, whatever it held before.
\<close>

theorem cluster_log_replay:
  assumes "\<forall>c \<in> set cmds. valid_command c"
    and "set keys = dom (cs_Nodes (fsm_run (cluster_log (take j cmds)) newClusterFSM))"
  shows "cs_Nodes (fsm_run (cluster_log cmds) newClusterFSM) k =
      (case last_command k cmds of None \<Rightarrow> None
       | Some c \<Rightarrow> if cc_Op c = ''upsert'' then Some (cc_Node c) else None)
    \<and> cs_Epoch (fsm_run (cluster_log cmds) newClusterFSM) = of_nat (length cmds)
    \<and> (\<exists>s. clusterFSM_Restore (clusterFSM_Snapshot keys (fsm_run (cluster_log (take j cmds)) newClusterFSM)) s0 = (Inr (), s)
         \<and> fsm_run (cluster_log (drop j cmds)) s = fsm_run (cluster_log cmds) newClusterFSM)"
proof -
  have "\<forall>c \<in> set (take j cmds). valid_command c" using assms(1) by (meson in_set_takeD)
  from Restore_Snapshot [OF fsm_run_wire [OF this] assms(2), of s0]
  have "clusterFSM_Restore (clusterFSM_Snapshot keys (fsm_run (cluster_log (take j cmds)) newClusterFSM)) s0 =
      (Inr (), fsm_run (cluster_log (take j cmds)) newClusterFSM)" .
  moreover have "fsm_run (cluster_log (drop j cmds)) (fsm_run (cluster_log (take j cmds)) newClusterFSM) =
      fsm_run (cluster_log cmds) newClusterFSM"
    by (simp flip: fsm_run_simps(3) map_append)
  ultimately show ?thesis using fsm_run_last [OF assms(1), of k] by blast
qed

subsection \<open>Reachable states\<close>

text \<open>Whatever the entries of the log are, a node stands under its own identifier.\<close>

definition fsm_init :: "clusterState \<Rightarrow> bool" where
  "fsm_init s \<longleftrightarrow> s = newClusterFSM"

definition fsm_trans :: "clusterState \<Rightarrow> clusterState \<Rightarrow> bool" where
  "fsm_trans s t \<longleftrightarrow> (\<exists>data. t = snd (clusterFSM_Apply data s))"

definition ids_agree :: "clusterState \<Rightarrow> bool" where
  "ids_agree s \<longleftrightarrow> (\<forall>k n. cs_Nodes s k = Some n \<longrightarrow> cn_ID n = k)"

interpretation cluster: invariant_system fsm_init fsm_trans ids_agree
proof unfold_locales
  show "fsm_init s \<Longrightarrow> ids_agree s" for s by (simp add: fsm_init_def ids_agree_def newClusterFSM_def)
  fix s t assume s: "ids_agree s" and "fsm_trans s t"
  then obtain data where t: "t = snd (clusterFSM_Apply data s)" by (auto simp: fsm_trans_def)
  show "ids_agree t"
    using s unfolding t
    by (cases "unmarshal_clusterCommand data") (auto simp: ids_agree_def clusterFSM_Apply_def split: if_splits)
qed

lemma fsm_run_reachable: "reachable fsm_init fsm_trans s \<Longrightarrow> reachable fsm_init fsm_trans (fsm_run log s)"
proof (induction log arbitrary: s)
  case (Cons data log)
  have "fsm_trans s (snd (clusterFSM_Apply data s))" by (auto simp: fsm_trans_def)
  then show ?case using Cons.IH reachable_step [OF Cons.prems] by simp
qed simp

section \<open>Placement\<close>

text \<open>
  The contract of \<^verbatim>\<open>sort.Slice\<close>: for a comparison that is a strict weak order, the elements are
  permuted so that none comes after one it is less than.
\<close>

definition sort_Slice :: "(('e \<Rightarrow> 'e \<Rightarrow> bool) \<Rightarrow> 'e list \<Rightarrow> 'e list) \<Rightarrow> bool" where
  "sort_Slice srt \<longleftrightarrow>
     (\<forall>lt xs. (\<forall>a b. lt a b \<longrightarrow> \<not> lt b a) \<and> (\<forall>a b c. lt a c \<longrightarrow> lt a b \<or> lt b c) \<longrightarrow>
        mset (srt lt xs) = mset xs \<and> sorted_wrt (\<lambda>a b. \<not> lt b a) (srt lt xs))"

lemma sort_by_score:
  fixes srt :: "('a \<times> 64 word \<Rightarrow> 'a \<times> 64 word \<Rightarrow> bool) \<Rightarrow> ('a \<times> 64 word) list \<Rightarrow> ('a \<times> 64 word) list"
  assumes "sort_Slice srt"
  shows "mset (srt (\<lambda>a b. snd a > snd b) xs) = mset xs"
    and "sorted_wrt (\<lambda>a b. snd b \<le> snd a) (srt (\<lambda>a b. snd a > snd b) xs)"
proof -
  have "mset (srt (\<lambda>a b. snd a > snd b) xs) = mset xs
      \<and> sorted_wrt (\<lambda>a b. \<not> snd a < snd b) (srt (\<lambda>a b. snd a > snd b) xs)"
    using assms [unfolded sort_Slice_def, rule_format, of "\<lambda>a b. snd a > snd b" xs] by force
  then show "mset (srt (\<lambda>a b. snd a > snd b) xs) = mset xs"
    "sorted_wrt (\<lambda>a b. snd b \<le> snd a) (srt (\<lambda>a b. snd a > snd b) xs)"
    by (simp_all add: not_less)
qed

text \<open>An order in which a range loop visits each entry of the map once.\<close>

definition enumerates :: "string list \<Rightarrow> clusterState \<Rightarrow> bool" where
  "enumerates order s \<longleftrightarrow> distinct order \<and> set order = dom (cs_Nodes s)"

definition visits :: "string list \<Rightarrow> clusterState \<Rightarrow> bool" where
  "visits order s \<longleftrightarrow> distinct order \<and> set order = dom (cs_Nodes s) \<and> ids_agree s"

lemma visits_reachable:
  "reachable fsm_init fsm_trans s \<Longrightarrow> enumerates order s \<Longrightarrow> visits order s"
  using cluster.inv_reachable by (simp add: visits_def enumerates_def)

definition healthy_nodes :: "clusterState \<Rightarrow> ClusterNode set" where
  "healthy_nodes s = {n \<in> ran (cs_Nodes s). cn_Healthy n}"

lemma visited_nodes:
  assumes "visits order s"
  shows "set (List.map_filter (cs_Nodes s) order) = ran (cs_Nodes s)"
    and "distinct (map cn_ID (List.map_filter (cs_Nodes s) order))"
proof -
  show "set (List.map_filter (cs_Nodes s) order) = ran (cs_Nodes s)"
    using assms by (force simp: visits_def List.map_filter_def ran_def dom_def)
  have "cn_ID (the (cs_Nodes s k)) = k" if "k \<in> set (filter (\<lambda>k. cs_Nodes s k \<noteq> None) order)" for k
    using assms that by (auto simp: visits_def ids_agree_def)
  then have "map (cn_ID \<circ> (the \<circ> cs_Nodes s)) (filter (\<lambda>k. cs_Nodes s k \<noteq> None) order) = filter (\<lambda>k. cs_Nodes s k \<noteq> None) order"
    by (intro map_idI) (simp only: comp_apply)
  then have "map cn_ID (List.map_filter (cs_Nodes s) order) = filter (\<lambda>k. cs_Nodes s k \<noteq> None) order"
    unfolding List.map_filter_def by (simp only: map_map comp_assoc)
  then show "distinct (map cn_ID (List.map_filter (cs_Nodes s) order))"
    using assms by (simp add: visits_def)
qed

lemma sorted_take_top:
  assumes "sorted_wrt (\<lambda>a b. snd b \<le> snd a) xs" and "x \<in> set (take k xs)" and "y \<in> set xs - set (take k xs)"
  shows "snd y \<le> (snd x :: 64 word)"
proof -
  have "y \<in> set (drop k xs)" using assms(3) by (metis Diff_iff Un_iff append_take_drop_id set_append)
  moreover have "sorted_wrt (\<lambda>a b. snd b \<le> snd a) (take k xs @ drop k xs)" using assms(1) by simp
  ultimately show ?thesis using assms(2) by (auto simp only: sorted_wrt_append)
qed

lemma Placement_ok:
  assumes "sort_Slice srt" and "visits order s" and "Placement srt order key shardCount replication s = Inr p"
  shows "shardCount \<noteq> 0" and "0 < replication"
    and "distinct (map cn_ID (rp_Nodes p))" and "length (rp_Nodes p) = nat replication"
    and "set (rp_Nodes p) \<subseteq> healthy_nodes s"
    and "n \<in> set (rp_Nodes p) \<Longrightarrow> m \<in> healthy_nodes s - set (rp_Nodes p) \<Longrightarrow>
      rendezvousScore key (cn_ID m) \<le> rendezvousScore key (cn_ID n)"
    and "rp_Epoch p = cs_Epoch s" and "rp_Shard p = ucast (fnv64 key mod ucast shardCount)"
proof -
  let ?nodes = "sort_key cn_ID (List.map_filter (cs_Nodes s) order)"
  let ?score = "\<lambda>n. (n, rendezvousScore key (cn_ID n))"
  define healthy where "healthy = filter cn_Healthy ?nodes"
  define scores where "scores = srt (\<lambda>a b. snd a > snd b) (map ?score healthy)"
  have p: "shardCount \<noteq> 0" "0 < replication" "replication \<le> int (length healthy)"
    "p = \<lparr>rp_Epoch = cs_Epoch s, rp_Shard = ucast (fnv64 key mod ucast shardCount),
          rp_Nodes = map fst (take (nat replication) scores)\<rparr>"
    using assms(3)
    by (auto simp: Placement_def Cluster_State_def clusterFSM_copyState_def Let_def healthy_def scores_def split: if_splits)
  have srt: "mset scores = mset (map ?score healthy)" "sorted_wrt (\<lambda>a b. snd b \<le> snd a) scores"
    using sort_by_score [OF assms(1)] by (simp_all add: scores_def)
  have H: "set healthy = healthy_nodes s"
    using visited_nodes(1) [OF assms(2)] by (auto simp: healthy_def healthy_nodes_def)
  have "distinct (map cn_ID ?nodes)"
    using visited_nodes(2) [OF assms(2)] by (metis distinct_map distinct_sort set_sort)
  then have d: "distinct (map cn_ID healthy)" by (simp add: healthy_def distinct_map_filter)
  have "mset (map (cn_ID \<circ> fst) scores) = mset (map cn_ID healthy)"
    using arg_cong [OF srt(1), of "image_mset (cn_ID \<circ> fst)"] by (simp add: comp_def flip: mset_map)
  then have ds: "distinct (map (cn_ID \<circ> fst) scores)" using d by (metis mset_eq_imp_distinct_iff)
  have set: "set scores = ?score ` healthy_nodes s" using H srt(1) by (metis list.set_map mset_eq_setD)
  have len: "length scores = length healthy" using srt(1) by (metis length_map mset_eq_length)
  show "shardCount \<noteq> 0" "0 < replication" "rp_Epoch p = cs_Epoch s" "rp_Shard p = ucast (fnv64 key mod ucast shardCount)"
    using p by simp_all
  show "length (rp_Nodes p) = nat replication" using p len by simp
  show "distinct (map cn_ID (rp_Nodes p))"
    using p ds by (simp add: take_map [symmetric] distinct_take)
  show sub: "set (rp_Nodes p) \<subseteq> healthy_nodes s"
    using p set set_take_subset [of "nat replication" scores] by auto
  assume n: "n \<in> set (rp_Nodes p)" and m: "m \<in> healthy_nodes s - set (rp_Nodes p)"
  have "?score n \<in> set (take (nat replication) scores)"
    using n p set set_take_subset [of "nat replication" scores] by auto
  moreover have "?score m \<in> set scores - set (take (nat replication) scores)" using m p set by force
  ultimately show "rendezvousScore key (cn_ID m) \<le> rendezvousScore key (cn_ID n)"
    using sorted_take_top [OF srt(2), of "?score n" "nat replication" "?score m"] by simp
qed

lemma healthy_length:
  assumes "visits order s"
  shows "length (filter cn_Healthy (sort_key cn_ID (List.map_filter (cs_Nodes s) order))) = card (healthy_nodes s)"
proof -
  have "distinct (filter cn_Healthy (sort_key cn_ID (List.map_filter (cs_Nodes s) order)))"
    using visited_nodes(2) [OF assms] by (simp add: distinct_map)
  from distinct_card [OF this] show ?thesis
    using visited_nodes(1) [OF assms] by (simp add: healthy_nodes_def Collect_conj_eq Int_commute)
qed

lemma shard_number:
  fixes h :: "64 word" and n :: "32 word"
  assumes "n \<noteq> 0"
  shows "unat (ucast (h mod ucast n) :: 32 word) = unat h mod unat n"
proof -
  have n: "0 < unat n" "unat n < 2 ^ 32" using assms unsigned_less [of n] by (simp_all add: unat_gt_0)
  have "unat (h mod ucast n) = unat h mod unat n"
    using n by (simp add: unat_mod_distrib unsigned_ucast_eq take_bit_nat_eq_self)
  moreover have "unat h mod unat n < 2 ^ 32" using n by (meson less_trans mod_less_divisor)
  ultimately show ?thesis by (simp add: unsigned_ucast_eq take_bit_nat_eq_self)
qed

text \<open>
  C29: A placement is what rendezvous hashing promises. In every reachable state, in whatever order the
  map is visited and whatever sort.Slice does with equal scores: the shard number is below the shard count, and
  the placement names exactly the requested number of replicas, all different, all healthy members
  of the state whose epoch it carries, and none of the healthy members left out scores higher for
  the key than one that was taken. It is refused exactly for a zero shard count, a replication
  below one, or too few healthy nodes.
\<close>

theorem placement_spec:
  assumes "sort_Slice srt" and "reachable fsm_init fsm_trans s" and "enumerates order s"
  shows "case Placement srt order key shardCount replication s of
      Inl e \<Rightarrow> shardCount = 0 \<or> replication \<le> 0 \<or> int (card (healthy_nodes s)) < replication
    | Inr p \<Rightarrow> unat (rp_Shard p) < unat shardCount \<and> unat (rp_Shard p) = unat (fnv64 key) mod unat shardCount
        \<and> rp_Epoch p = cs_Epoch s
        \<and> length (rp_Nodes p) = nat replication \<and> 0 < replication \<and> distinct (map cn_ID (rp_Nodes p))
        \<and> set (rp_Nodes p) \<subseteq> healthy_nodes s
        \<and> (\<forall>n \<in> set (rp_Nodes p). \<forall>m \<in> healthy_nodes s - set (rp_Nodes p).
             rendezvousScore key (cn_ID m) \<le> rendezvousScore key (cn_ID n))"
proof (cases "Placement srt order key shardCount replication s")
  case (Inl e)
  then show ?thesis
    using healthy_length [OF visits_reachable [OF assms(2,3)]]
    by (auto simp: Placement_def Cluster_State_def clusterFSM_copyState_def Let_def split: if_splits)
next
  case (Inr p)
  note P = Placement_ok [OF assms(1) visits_reachable [OF assms(2,3)] Inr]
  have "0 < unat shardCount" using P(1) by (simp add: unat_gt_0)
  then show ?thesis
    using P(2-7) shard_number [OF P(1), of "fnv64 key"] P(8) by (auto simp: Inr)
qed

text \<open>
  Removing a node moves only its own replicas. When the scores of the healthy nodes for a key are
  different, the placement of the key after a node has been removed keeps every replica that was
  not on that node, and the shard stays.
\<close>

theorem placement_stability:
  assumes "sort_Slice srt" and "reachable fsm_init fsm_trans s" and "enumerates order s" and "enumerates order' s'"
    and "cs_Nodes s' = (cs_Nodes s)(x := None)"
    and "Placement srt order key shardCount replication s = Inr p"
    and "Placement srt order' key shardCount replication s' = Inr p'"
    and "inj_on (\<lambda>n. rendezvousScore key (cn_ID n)) (healthy_nodes s)"
    and "n \<in> set (rp_Nodes p)" and "cn_ID n \<noteq> x"
  shows "n \<in> set (rp_Nodes p') \<and> rp_Shard p' = rp_Shard p"
proof -
  have v: "visits order s" by (rule visits_reachable [OF assms(2,3)])
  then have v': "visits order' s'"
    using assms(4,5) by (auto simp: visits_def enumerates_def ids_agree_def)
  note P = Placement_ok [OF assms(1) v assms(6)] and P' = Placement_ok [OF assms(1) v' assms(7)]
  obtain k where k: "cs_Nodes s k = Some n" "cn_Healthy n" using P(5) assms(9) by (auto simp: healthy_nodes_def ran_def)
  then have "k \<noteq> x" using v assms(10) by (auto simp: visits_def ids_agree_def)
  with k assms(5) have H': "healthy_nodes s' \<subseteq> healthy_nodes s" "n \<in> healthy_nodes s'"
    by (auto simp: healthy_nodes_def ran_def split: if_splits)
  have "n \<in> set (rp_Nodes p')"
  proof (rule ccontr)
    assume out: "n \<notin> set (rp_Nodes p')"
    have "m \<in> set (rp_Nodes p)" if m: "m \<in> set (rp_Nodes p')" for m
    proof (rule ccontr)
      assume "m \<notin> set (rp_Nodes p)"
      moreover have "m \<in> healthy_nodes s" using P'(5) H'(1) m by blast
      ultimately have "rendezvousScore key (cn_ID m) \<le> rendezvousScore key (cn_ID n)" using P(6) assms(9) by blast
      moreover have "rendezvousScore key (cn_ID n) \<le> rendezvousScore key (cn_ID m)" using P'(6) m H'(2) out by blast
      ultimately have "m = n"
        using inj_onD [OF assms(8), of m n] \<open>m \<in> healthy_nodes s\<close> H' by auto
      with m out show False by simp
    qed
    then have "set (rp_Nodes p') \<subseteq> set (rp_Nodes p) - {n}" using out by blast
    then have "card (set (rp_Nodes p')) \<le> card (set (rp_Nodes p) - {n})" by (intro card_mono) auto
    also have "\<dots> < card (set (rp_Nodes p))" using assms(9) by (intro psubset_card_mono) auto
    finally show False
      using distinct_card [of "rp_Nodes p"] distinct_card [of "rp_Nodes p'"] P(3,4) P'(3,4) by (simp add: distinct_map)
  qed
  then show ?thesis using P(8) P'(8) by simp
qed

section \<open>Membership through the log\<close>

text \<open>
  What the code relies on of \<^verbatim>\<open>raft.Apply\<close>: when its future reports no error, the local state machine
  has applied the command, after the entries that were committed before it.
\<close>

definition raft_applies :: "'r raft_lib \<Rightarrow> bool" where
  "raft_applies lib \<longleftrightarrow>
     (\<forall>raw r entries r'. rl_Apply lib raw r = (Inr (), entries, r') \<longrightarrow> (\<exists>es. entries = es @ [raw]))"

lemma raft_Apply_command:
  assumes "raft_applies lib" and "raft_Apply lib (marshal_clusterCommand cmd) c = (Inr (), c')" and "valid_command cmd"
  shows "cs_Nodes (rc_fsm c') (cn_ID (cc_Node cmd)) = (if cc_Op cmd = ''upsert'' then Some (cc_Node cmd) else None)"
proof -
  obtain entries r where r: "rl_Apply lib (marshal_clusterCommand cmd) (rc_raft c) = (Inr (), entries, r)"
    "c' = \<lparr>rc_raft = r, rc_fsm = fsm_run entries (rc_fsm c)\<rparr>"
    using assms(2) by (auto simp: raft_Apply_def split: prod.splits)
  then obtain es where "entries = es @ [marshal_clusterCommand cmd]" using assms(1) unfolding raft_applies_def by blast
  then show ?thesis using r Apply_command [OF assms(3)] by simp
qed

lemma raft_Apply_reachable:
  "reachable fsm_init fsm_trans (rc_fsm c) \<Longrightarrow> reachable fsm_init fsm_trans (rc_fsm (snd (raft_Apply lib raw c)))"
  by (auto simp: raft_Apply_def fsm_run_reachable split: prod.splits)

lemma UpsertNode_ok:
  assumes "raft_applies lib" and "UpsertNode lib node c = (Inr (), c')" and "wire_node node"
  shows "Cluster_IsLeader lib c \<and> cs_Nodes (rc_fsm c') (cn_ID node) = Some node"
  using raft_Apply_command [OF assms(1), of "\<lparr>cc_Op = ''upsert'', cc_Node = node\<rparr>" c c'] assms(2,3)
  by (auto simp: UpsertNode_def valid_command_def split: if_splits)

text \<open>
  C30: Membership changes take effect. Only a leader changes the membership; every operation on another
  node is refused and changes nothing. With a raft library that reports success only once the local
  state machine has applied the command, for identifiers and addresses in well-formed UTF-8 and a
  64-bit time: after a successful heartbeat the node is known as healthy
  under its address and the time of the heartbeat, after a successful removal it is unknown, and
  after a successful join the node is known as healthy, unless the configuration already had that
  very server.
\<close>

theorem membership_takes_effect:
  assumes "raft_applies lib" and "utf8_valid i" and "utf8_valid address" and "int64_range (UnixMilli now)"
  shows "(\<not> Cluster_IsLeader lib c \<longrightarrow> (\<forall>res c'. (res, c') \<in> {UpsertNode lib node c, Heartbeat lib now i address c,
              Cluster_Join lib now i address c, Cluster_Remove lib i c, ReapStale lib now maxAge order c} \<longrightarrow>
            \<not> is_ok res \<and> c' = c))
     \<and> (Heartbeat lib now i address c = (Inr (), c') \<longrightarrow> cs_Nodes (rc_fsm c') i =
          Some \<lparr>cn_ID = i, cn_Address = address, cn_Healthy = True, cn_LastHeartbeatMS = UnixMilli now\<rparr>)
     \<and> (Cluster_Remove lib i c = (Inr (), c') \<longrightarrow> cs_Nodes (rc_fsm c') i = None)
     \<and> (Cluster_Join lib now i address c = (Inr (), c') \<longrightarrow>
          cs_Nodes (rc_fsm c') i =
            Some \<lparr>cn_ID = i, cn_Address = address, cn_Healthy = True, cn_LastHeartbeatMS = UnixMilli now\<rparr>
          \<or> (\<exists>servers. rl_GetConfiguration lib (rc_raft c) = Inr servers
               \<and> \<lparr>srv_ID = i, srv_Address = address\<rparr> \<in> set servers))"
proof (intro conjI impI)
  let ?node = "\<lparr>cn_ID = i, cn_Address = address, cn_Healthy = True, cn_LastHeartbeatMS = UnixMilli now\<rparr>"
  have wire: "wire_node ?node" using assms(2-4) by (simp add: wire_node_def)
  show "\<forall>res c'. (res, c') \<in> {UpsertNode lib node c, Heartbeat lib now i address c,
              Cluster_Join lib now i address c, Cluster_Remove lib i c, ReapStale lib now maxAge order c} \<longrightarrow>
            \<not> is_ok res \<and> c' = c" if "\<not> Cluster_IsLeader lib c"
    using that by (auto simp: UpsertNode_def Heartbeat_def Cluster_Join_def Cluster_Remove_def ReapStale_def)
  show "cs_Nodes (rc_fsm c') i = Some ?node" if "Heartbeat lib now i address c = (Inr (), c')"
    using UpsertNode_ok [OF assms(1) _ wire] that by (auto simp: Heartbeat_def)
  show "cs_Nodes (rc_fsm c') i = None" if "Cluster_Remove lib i c = (Inr (), c')"
  proof -
    have "valid_command \<lparr>cc_Op = ''delete'', cc_Node = zero_ClusterNode\<lparr>cn_ID := i\<rparr>\<rparr>"
      using assms(2) by (simp add: valid_command_def wire_node_def zero_ClusterNode_def int64_range_def)
    from raft_Apply_command [OF assms(1) _ this] show ?thesis
      using that by (auto simp: Cluster_Remove_def zero_ClusterNode_def split: if_splits prod.splits sum.splits)
  qed
  have early: "\<lparr>srv_ID = i, srv_Address = address\<rparr> \<in> set servers"
    if "join_servers lib i address servers c0 = (Some (Inr u), c1)" for servers c0 c1 u
    using that by (induction servers arbitrary: c0) (auto split: if_splits prod.splits sum.splits)
  show "cs_Nodes (rc_fsm c') i = Some ?node
     \<or> (\<exists>servers. rl_GetConfiguration lib (rc_raft c) = Inr servers \<and> \<lparr>srv_ID = i, srv_Address = address\<rparr> \<in> set servers)"
    if "Cluster_Join lib now i address c = (Inr (), c')"
    using that early UpsertNode_ok [OF assms(1) _ wire]
    by (auto simp: Cluster_Join_def split: if_splits sum.splits prod.splits option.splits)
qed

subsection \<open>Reaping\<close>

text \<open>A raft node that leads throughout and whose requests are committed alone.\<close>

definition raft_alone :: "'r raft_lib \<Rightarrow> bool" where
  "raft_alone lib \<longleftrightarrow> (\<forall>raw r. rl_Leading lib r \<and> (\<exists>r'. rl_Apply lib raw r = (Inr (), [raw], r')))"

definition reaped :: "int \<Rightarrow> ClusterNode \<Rightarrow> ClusterNode" where
  "reaped cutoff n = (if cn_Healthy n \<and> cn_LastHeartbeatMS n < cutoff then n\<lparr>cn_Healthy := False\<rparr> else n)"

lemma UpsertNode_alone:
  assumes "raft_alone lib" and "wire_node node"
  shows "\<exists>r'. UpsertNode lib node c = (Inr (), \<lparr>rc_raft = r',
     rc_fsm = (rc_fsm c)\<lparr>cs_Nodes := (cs_Nodes (rc_fsm c))(cn_ID node \<mapsto> node), cs_Epoch := cs_Epoch (rc_fsm c) + 1\<rparr>\<rparr>)"
proof -
  obtain r' where "rl_Leading lib (rc_raft c)"
    "rl_Apply lib (marshal_clusterCommand \<lparr>cc_Op = ''upsert'', cc_Node = node\<rparr>) (rc_raft c) =
      (Inr (), [marshal_clusterCommand \<lparr>cc_Op = ''upsert'', cc_Node = node\<rparr>], r')"
    using assms(1) unfolding raft_alone_def by blast
  then show ?thesis
    using Apply_command [of "\<lparr>cc_Op = ''upsert'', cc_Node = node\<rparr>" "rc_fsm c"] assms(2)
    by (simp add: UpsertNode_def Cluster_IsLeader_def raft_Apply_def valid_command_def)
qed

lemma reap_nodes_alone:
  assumes "raft_alone lib" and "\<forall>n \<in> set ns. wire_node n" and "distinct (map cn_ID ns)"
    and "\<forall>n \<in> set ns. cs_Nodes (rc_fsm c) (cn_ID n) = Some n"
  shows "\<exists>c'. reap_nodes lib cutoff ns c = (Inr (), c')
     \<and> (\<forall>k. cs_Nodes (rc_fsm c') k = (if k \<in> cn_ID ` set ns then map_option (reaped cutoff) (cs_Nodes (rc_fsm c) k)
          else cs_Nodes (rc_fsm c) k))"
  using assms(2-4)
proof (induction ns arbitrary: c)
  case (Cons n ns)
  have n: "reaped cutoff n = (if cn_Healthy n \<and> cn_LastHeartbeatMS n < cutoff then n\<lparr>cn_Healthy := False\<rparr> else n)"
    by (simp add: reaped_def)
  obtain c1 where c1: "reap_nodes lib cutoff (n # ns) c = reap_nodes lib cutoff ns c1"
    "cs_Nodes (rc_fsm c1) = (cs_Nodes (rc_fsm c))(cn_ID n \<mapsto> reaped cutoff n)"
  proof (cases "cn_Healthy n \<and> cn_LastHeartbeatMS n < cutoff")
    case True
    have "wire_node (n\<lparr>cn_Healthy := False\<rparr>)" using Cons.prems(1) by (simp add: wire_node_def)
    from UpsertNode_alone [OF assms(1) this, of c] show thesis using that True n by auto
  next
    case False
    then have "reaped cutoff n = n" using n by simp
    then show thesis using that [of c] False Cons.prems(3) by (simp add: map_upd_triv)
  qed
  have fresh: "cn_ID n \<notin> cn_ID ` set ns" using Cons.prems(2) by simp
  then have "\<forall>m \<in> set ns. cs_Nodes (rc_fsm c1) (cn_ID m) = Some m"
    using Cons.prems(3) c1(2) by (metis fun_upd_other image_eqI list.set_intros(2))
  then obtain c' where c': "reap_nodes lib cutoff ns c1 = (Inr (), c')"
    "cs_Nodes (rc_fsm c') k = (if k \<in> cn_ID ` set ns then map_option (reaped cutoff) (cs_Nodes (rc_fsm c1) k)
          else cs_Nodes (rc_fsm c1) k)" for k
    using Cons.IH [of c1] Cons.prems(1,2) by auto
  have "cs_Nodes (rc_fsm c') k = (if k \<in> cn_ID ` set (n # ns) then map_option (reaped cutoff) (cs_Nodes (rc_fsm c) k)
          else cs_Nodes (rc_fsm c) k)" for k
    using c'(2) [of k] fresh c1(2) Cons.prems(3) by (cases "k = cn_ID n") simp_all
  then show ?case using c'(1) c1(1) by metis
qed simp

text \<open>
  Reaping marks exactly the stale nodes. On a leader whose requests are committed alone, reaping
  succeeds, and afterwards a node is unhealthy if it was so before or if its last heartbeat is
  older than the given age; no other field of any node changes and no node appears or disappears.
\<close>

theorem ReapStale_exact:
  assumes "raft_alone lib" and "reachable fsm_init fsm_trans (rc_fsm c)" and "wire_state (rc_fsm c)"
    and "enumerates order (rc_fsm c)" and "int64_range (- maxAge)"
  shows "\<exists>c'. ReapStale lib now maxAge order c = (Inr (), c')
     \<and> cs_Nodes (rc_fsm c') = (\<lambda>k. map_option
          (\<lambda>n. if cn_Healthy n \<and> cn_LastHeartbeatMS n < UnixMilli (now - maxAge) then n\<lparr>cn_Healthy := False\<rparr> else n)
          (cs_Nodes (rc_fsm c) k))"
proof -
  let ?ns = "List.map_filter (cs_Nodes (rc_fsm c)) order"
  have v: "visits order (rc_fsm c)" by (rule visits_reachable [OF assms(2,4)])
  note vs = visited_nodes [OF v]
  have ids: "ids_agree (rc_fsm c)" using v by (simp add: visits_def)
  have wire: "\<forall>n \<in> set ?ns. wire_node n" using assms(3) vs(1) by (auto simp: wire_state_def ran_def)
  have at: "\<forall>n \<in> set ?ns. cs_Nodes (rc_fsm c) (cn_ID n) = Some n" using ids vs(1) by (auto simp: ids_agree_def ran_def)
  obtain c' where c': "reap_nodes lib (UnixMilli (now - maxAge)) ?ns c = (Inr (), c')"
    "cs_Nodes (rc_fsm c') k = (if k \<in> cn_ID ` set ?ns then map_option (reaped (UnixMilli (now - maxAge))) (cs_Nodes (rc_fsm c) k)
          else cs_Nodes (rc_fsm c) k)" for k
    using reap_nodes_alone [OF assms(1) wire vs(2) at] by blast
  have "cs_Nodes (rc_fsm c') k = map_option (reaped (UnixMilli (now - maxAge))) (cs_Nodes (rc_fsm c) k)" for k
  proof (cases "cs_Nodes (rc_fsm c) k")
    case (Some n)
    then have "n \<in> set ?ns" "cn_ID n = k" using vs(1) ids by (auto simp: ran_def ids_agree_def)
    then have "k \<in> cn_ID ` set ?ns" by blast
    then show ?thesis using c'(2) [of k] by simp
  qed (use c'(2) [of k] in simp)
  moreover have "Cluster_IsLeader lib c" using assms(1) by (simp add: raft_alone_def Cluster_IsLeader_def)
  ultimately show ?thesis
    using c'(1) assms(5) by (auto simp: ReapStale_def clusterFSM_copyState_def Let_def reaped_def fun_eq_iff cong: map_option_cong)
qed

text \<open>
  A heartbeat can be undone by the reaper. \<^verbatim>\<open>ReapStale\<close> decides on a copy of the state and upserts the
  whole node: when a heartbeat of that node is committed between the copy and the upsert, the upsert
  overwrites it, and the node ends unhealthy with its old heartbeat although it has just reported.
\<close>

theorem reap_overwrites_heartbeat:
  assumes "wire_node n" and "cs_Nodes (rc_fsm c) (cn_ID n) = Some n" and "dom (cs_Nodes (rc_fsm c)) = {cn_ID n}"
    and "cn_Healthy n" and "cn_LastHeartbeatMS n < UnixMilli (now - maxAge)" and "int64_range (- maxAge)"
    and "rl_Leading lib (rc_raft c)"
    and "beat = n\<lparr>cn_LastHeartbeatMS := UnixMilli now\<rparr>" and "int64_range (UnixMilli now)"
    and "\<forall>raw. rl_Apply lib raw (rc_raft c) =
           (Inr (), [marshal_clusterCommand \<lparr>cc_Op = ''upsert'', cc_Node = beat\<rparr>, raw], r')"
  shows "\<exists>c'. ReapStale lib now maxAge [cn_ID n] c = (Inr (), c')
     \<and> cs_Nodes (rc_fsm c') (cn_ID n) = Some (n\<lparr>cn_Healthy := False\<rparr>)"
proof -
  have cmds: "valid_command \<lparr>cc_Op = ''upsert'', cc_Node = beat\<rparr>"
    "valid_command \<lparr>cc_Op = ''upsert'', cc_Node = n\<lparr>cn_Healthy := False\<rparr>\<rparr>"
    using assms(1,8,9) by (simp_all add: valid_command_def wire_node_def)
  have "List.map_filter (cs_Nodes (rc_fsm c)) [cn_ID n] = [n]" using assms(2) by (simp add: List.map_filter_simps)
  then have reap: "ReapStale lib now maxAge [cn_ID n] c = reap_nodes lib (UnixMilli (now - maxAge)) [n] c"
    using assms(6,7) by (simp add: ReapStale_def clusterFSM_copyState_def Let_def Cluster_IsLeader_def del: List.map_filter_simps)
  show ?thesis
    unfolding reap using assms(4-7,10) Apply_command [OF cmds(1)] Apply_command [OF cmds(2)]
    by (simp add: UpsertNode_def Cluster_IsLeader_def raft_Apply_def)
qed

section \<open>Replicated writes\<close>

lemma split_at_colon:
  assumes "CHR '':'' \<notin> set a" and "CHR '':'' \<notin> set b" and "a @ CHR '':'' # s = b @ CHR '':'' # t"
  shows "a = b \<and> s = t"
  using assms
proof (induction a arbitrary: b)
  case Nil
  then show ?case by (cases b) auto
next
  case (Cons x a)
  then show ?case by (cases b) auto
qed

lemma split_at_last_colon:
  assumes "CHR '':'' \<notin> set a" and "CHR '':'' \<notin> set b" and "s @ CHR '':'' # a = t @ CHR '':'' # b"
  shows "s = t \<and> a = b"
proof -
  have "rev a @ CHR '':'' # rev s = rev b @ CHR '':'' # rev t"
    using arg_cong [OF assms(3), of rev] by simp
  from split_at_colon [OF _ _ this] assms(1,2) show ?thesis by simp
qed

lemma nat_dec_no_colon: "CHR '':'' \<notin> set (nat_dec n)"
  using nat_dec_digits [of n] by (auto simp: list_all_iff)

lemma nat_dec_inj: "nat_dec m = nat_dec n \<longleftrightarrow> m = n"
  by (metis dec_nat_nat_dec)

lemma replica_key_eq:
  "replica_key a = replica_key b \<longleftrightarrow>
     ra_Shard a = ra_Shard b \<and> ra_Key a = ra_Key b \<and> ra_FencingToken a = ra_FencingToken b"
proof
  assume "replica_key a = replica_key b"
  then have "nat_dec (unat (ra_Shard a)) @ CHR '':'' # (ra_Key a @ CHR '':'' # nat_dec (unat (ra_FencingToken a))) =
      nat_dec (unat (ra_Shard b)) @ CHR '':'' # (ra_Key b @ CHR '':'' # nat_dec (unat (ra_FencingToken b)))"
    by (simp add: replica_key_def)
  from split_at_colon [OF nat_dec_no_colon nat_dec_no_colon this]
  have "nat_dec (unat (ra_Shard a)) = nat_dec (unat (ra_Shard b))"
    "ra_Key a @ CHR '':'' # nat_dec (unat (ra_FencingToken a)) = ra_Key b @ CHR '':'' # nat_dec (unat (ra_FencingToken b))"
    by simp_all
  with split_at_last_colon [OF nat_dec_no_colon nat_dec_no_colon this(2)]
  show "ra_Shard a = ra_Shard b \<and> ra_Key a = ra_Key b \<and> ra_FencingToken a = ra_FencingToken b"
    by (simp add: nat_dec_inj word_unat_eq_iff)
qed (simp add: replica_key_def)

lemma Envelope_State_event: "env_Event e = env_Event f \<Longrightarrow> Envelope_State e = Envelope_State f"
  unfolding Envelope_State_def by simp

lemma replica_event: "Envelope_State (replica_envelope now1 now2 raw correlation a) = Inr ''request''"
proof -
  have "is_ok (Envelope_State (zero_Envelope\<lparr>env_Event := ''System.Replica.apply.request''\<rparr>))
      \<and> last (strings_Split ''System.Replica.apply.request'' CHR ''.'') = ''request''" by code_simp
  then have "Envelope_State (zero_Envelope\<lparr>env_Event := ''System.Replica.apply.request''\<rparr>) = Inr ''request''"
    unfolding Envelope_State_def Let_def by (simp del: strings_Split.simps split: if_split_asm)
  moreover have "env_Event (replica_envelope now1 now2 raw correlation a) = env_Event (zero_Envelope\<lparr>env_Event := ''System.Replica.apply.request''\<rparr>)"
    by (simp add: replica_envelope_def)
  ultimately show ?thesis using Envelope_State_event by metis
qed

lemma marshal_ReplicaApply_ok:
  assumes "json_Valid (ra_Payload a)" and "ra_Payload a \<noteq> []" and "json_depth (ra_Payload a) < maxNestingDepth"
  shows "\<exists>raw. marshal_ReplicaApply a = Inr raw \<and> raw \<noteq> [] \<and> json_Valid raw"
proof -
  let ?kvs = "[(''shard'', nat_dec (unat (ra_Shard a))), (''key'', json_quote (ra_Key a)),
         (''fencing_token'', nat_dec (unat (ra_FencingToken a))), (''payload'', wire_payload (ra_Payload a))]"
  have "value_text (json_depth (ra_Payload a)) (wire_payload (ra_Payload a))"
    using compact_text [OF assms(1) valid_depth [OF assms(1)]] by (simp add: wire_payload_def)
  then have "value_text (Suc (json_depth (ra_Payload a))) (json_object ?kvs)"
    by (intro object_text) simp_all
  then have "json_Valid (json_object ?kvs)" using value_text_Valid assms(3) by simp
  then show ?thesis
    using marshal_RawMessage_Valid [OF assms(2,1)]
    by (simp add: marshal_ReplicaApply_def map_result_def) (simp add: json_object_def)
qed

lemma replica_Validate:
  assumes "correlation \<noteq> []" and "raw \<noteq> []" and "json_Valid raw"
  shows "Envelope_Validate (replica_envelope now1 now2 raw correlation a) = Inr ()"
  using assms replica_event [of now1 now2 raw correlation a]
  by (simp add: Envelope_Validate_def) (simp add: replica_envelope_def replica_key_def)

text \<open>
  C31: A replicated write is stored once. The idempotency key of a write is the same for two writes
  exactly when shard, key and fencing token agree. So when a write has been replicated into a
  control store, replicating a write with the same shard, key and token again, at any later time,
  whatever its payload and correlation and whichever statements fail, leaves the store unchanged.
\<close>

theorem replicated_once:
  assumes "store_reachable s"
    and "marshal_ReplicaApply a = Inr raw"
    and "ControlStore_Publish fl now (replica_envelope now1 now2 raw correlation a) s = (Inr (e, True), t)"
    and "store_steps t u"
  shows "(replica_key a = replica_key b \<longleftrightarrow>
            ra_Shard a = ra_Shard b \<and> ra_Key a = ra_Key b \<and> ra_FencingToken a = ra_FencingToken b)
     \<and> (ra_Shard a = ra_Shard b \<and> ra_Key a = ra_Key b \<and> ra_FencingToken a = ra_FencingToken b \<longrightarrow>
          snd (Replicate (\<lambda>env st. map_prod (map_result (\<lambda>_. ())) id (ControlStore_Publish fl' now' env st))
             now3 now4 b correlation' u) = u)"
proof (intro conjI impI)
  show "replica_key a = replica_key b \<longleftrightarrow>
            ra_Shard a = ra_Shard b \<and> ra_Key a = ra_Key b \<and> ra_FencingToken a = ra_FencingToken b"
    by (rule replica_key_eq)
  assume same: "ra_Shard a = ra_Shard b \<and> ra_Key a = ra_Key b \<and> ra_FencingToken a = ra_FencingToken b"
  let ?old = "replica_envelope now1 now2 raw correlation a" and ?new = "\<lambda>raw'. replica_envelope now3 now4 raw' correlation' b"
  have invt: "store_inv t"
    using store.inv_reachable [OF reachable_step [OF assms(1) Publish_trans [OF assms(3)]]] .
  obtain old where "new_event_row ?old old now \<in> set (events t)"
    using Publish_created(2) [OF assms(3)] by blast
  from store_row_exists [OF invt assms(4) this] obtain q where q: "q \<in> set (events u)"
    "row_le (new_event_row ?old old now) q" .
  then have key: "er_idempotency_key q = env_IdempotencyKey (?new raw')" for raw'
    using same replica_key_eq [of a b] by (simp add: row_le_def same_identity_def new_event_row_def replica_envelope_def)
  have "snd (ControlStore_Publish fl' now' (?new raw') u) = u" for raw'
  proof (cases "Envelope_Validate (?new raw')")
    case (Inl err)
    then show ?thesis by (simp add: ControlStore_Publish_def)
  next
    case (Inr x)
    then show ?thesis using Publish_known_key(1) [OF store.inv_steps [OF assms(4) invt] q(1) key] by simp
  qed
  then show "snd (Replicate (\<lambda>env st. map_prod (map_result (\<lambda>_. ())) id (ControlStore_Publish fl' now' env st))
       now3 now4 b correlation' u) = u"
    by (simp add: Replicate_def split: sum.split)
qed

section \<open>A concrete cluster\<close>

definition sample_node :: "string \<Rightarrow> bool \<Rightarrow> ClusterNode" where
  "sample_node i up = \<lparr>cn_ID = i, cn_Address = ''h:1'', cn_Healthy = up, cn_LastHeartbeatMS = 7\<rparr>"

definition sample_command :: "string \<Rightarrow> string \<Rightarrow> clusterCommand" where
  "sample_command oper i = \<lparr>cc_Op = oper, cc_Node = sample_node i True\<rparr>"

definition sample_cluster :: clusterState where
  "sample_cluster = fsm_run (cluster_log [sample_command ''upsert'' ''a'', sample_command ''upsert'' ''b'']) newClusterFSM"

lemma sample_node_wire: "wire_node (sample_node ''a'' up)" "wire_node (sample_node ''b'' up)"
  by (simp_all add: wire_node_def sample_node_def utf8_len_ascii int64_range_def)

lemma sample_command_valid:
  "oper = ''upsert'' \<or> oper = ''delete'' \<Longrightarrow> i = ''a'' \<or> i = ''b'' \<Longrightarrow> valid_command (sample_command oper i)"
  using sample_node_wire by (auto simp: valid_command_def sample_command_def)

lemma sample_cluster_nodes:
  "sample_cluster = \<lparr>cs_Epoch = 2, cs_Nodes = [''a'' \<mapsto> sample_node ''a'' True, ''b'' \<mapsto> sample_node ''b'' True]\<rparr>"
proof -
  have "valid_command (sample_command ''upsert'' ''a'')" "valid_command (sample_command ''upsert'' ''b'')"
    by (rule sample_command_valid; simp)+
  then show ?thesis
    by (simp add: sample_cluster_def Apply_command newClusterFSM_def) (simp add: sample_command_def sample_node_def)
qed

lemma sample_cluster_reachable: "reachable fsm_init fsm_trans sample_cluster"
  unfolding sample_cluster_def by (intro fsm_run_reachable reachable_init) (simp add: fsm_init_def)

lemma sample_enumerates: "enumerates [''a'', ''b''] sample_cluster"
  by (auto simp: enumerates_def sample_cluster_nodes)

text \<open>Insertion sort meets the contract.\<close>

fun insert_by :: "('e \<Rightarrow> 'e \<Rightarrow> bool) \<Rightarrow> 'e \<Rightarrow> 'e list \<Rightarrow> 'e list" where
  "insert_by lt x [] = [x]"
| "insert_by lt x (y # ys) = (if lt y x then y # insert_by lt x ys else x # y # ys)"

definition sample_sort :: "('e \<Rightarrow> 'e \<Rightarrow> bool) \<Rightarrow> 'e list \<Rightarrow> 'e list" where
  "sample_sort lt xs = foldr (insert_by lt) xs []"

lemma insert_by_mset [simp]: "mset (insert_by lt x ys) = add_mset x (mset ys)"
  by (induction ys) auto

lemma insert_by_set [simp]: "set (insert_by lt x ys) = insert x (set ys)"
  by (induction ys) auto

lemma sample_sorts: "sort_Slice sample_sort"
  unfolding sort_Slice_def
proof (intro allI impI conjI)
  fix lt :: "'a \<Rightarrow> 'a \<Rightarrow> bool" and xs
  assume order: "(\<forall>a b. lt a b \<longrightarrow> \<not> lt b a) \<and> (\<forall>a b c. lt a c \<longrightarrow> lt a b \<or> lt b c)"
  then have neg: "\<not> lt a b \<Longrightarrow> \<not> lt b c \<Longrightarrow> \<not> lt a c" and asym: "lt a b \<Longrightarrow> \<not> lt b a" for a b c by blast+
  have ins: "sorted_wrt (\<lambda>a b. \<not> lt b a) ys \<Longrightarrow> sorted_wrt (\<lambda>a b. \<not> lt b a) (insert_by lt x ys)" for x ys
  proof (induction ys)
    case (Cons y ys)
    then show ?case using neg [of _ y x] asym [of y x] by (cases "lt y x") auto
  qed simp
  show "mset (sample_sort lt xs) = mset xs" by (induction xs) (simp_all add: sample_sort_def)
  show "sorted_wrt (\<lambda>a b. \<not> lt b a) (sample_sort lt xs)" by (induction xs) (simp_all add: sample_sort_def ins)
qed

lemma sample_healthy: "healthy_nodes sample_cluster = {sample_node ''a'' True, sample_node ''b'' True}"
proof -
  have "ran (cs_Nodes sample_cluster) = {sample_node ''a'' True, sample_node ''b'' True}"
    unfolding sample_cluster_nodes by (simp add: ran_map_upd insert_commute)
  moreover have "cn_Healthy (sample_node i True)" for i by (simp add: sample_node_def)
  ultimately show ?thesis by (auto simp: healthy_nodes_def)
qed

theorem cluster_log_replay_witness:
  "\<exists>s. clusterFSM_Restore (clusterFSM_Snapshot [''b'', ''a''] sample_cluster) newClusterFSM = (Inr (), s)
     \<and> cs_Nodes (fsm_run (cluster_log [sample_command ''delete'' ''a'']) s) ''a'' = None
     \<and> cs_Epoch (fsm_run (cluster_log [sample_command ''delete'' ''a'']) s) = 3"
proof -
  let ?cmds = "[sample_command ''upsert'' ''a'', sample_command ''upsert'' ''b'', sample_command ''delete'' ''a'']"
  have valid: "\<forall>c \<in> set ?cmds. valid_command c" using sample_command_valid by simp
  have cut: "take 2 ?cmds = [sample_command ''upsert'' ''a'', sample_command ''upsert'' ''b'']"
    "drop 2 ?cmds = [sample_command ''delete'' ''a'']" by simp_all
  have keys: "set [''b'', ''a''] = dom (cs_Nodes (fsm_run (cluster_log (take 2 ?cmds)) newClusterFSM))"
    unfolding cut sample_cluster_def [symmetric] by (auto simp: sample_cluster_nodes)
  have last: "last_command ''a'' ?cmds = Some (sample_command ''delete'' ''a'')"
    by (simp add: last_command_def sample_command_def sample_node_def)
  have oper: "cc_Op (sample_command ''delete'' ''a'') \<noteq> ''upsert''" by (simp add: sample_command_def)
  show ?thesis
    using cluster_log_replay [OF valid keys, of "''a''" newClusterFSM] last oper
    unfolding cut sample_cluster_def by auto
qed

theorem placement_spec_witness:
  "\<exists>p. Placement sample_sort [''a'', ''b''] ''k'' 8 1 sample_cluster = Inr p \<and> unat (rp_Shard p) < 8 \<and> length (rp_Nodes p) = 1"
proof -
  have card: "card (healthy_nodes sample_cluster) = 2" by (simp add: sample_healthy sample_node_def)
  show ?thesis
  proof (cases "Placement sample_sort [''a'', ''b''] ''k'' 8 1 sample_cluster")
    case (Inl e)
    then show ?thesis
      using placement_spec [OF sample_sorts sample_cluster_reachable sample_enumerates, where key = "''k''" and shardCount = 8 and replication = 1] card by simp
  next
    case (Inr p)
    then show ?thesis
      using placement_spec [OF sample_sorts sample_cluster_reachable sample_enumerates, where key = "''k''" and shardCount = 8 and replication = 1] by simp
  qed
qed

lemma sample_scores: "rendezvousScore ''k'' ''a'' \<noteq> rendezvousScore ''k'' ''b''"
  by code_simp

definition sample_smaller :: clusterState where
  "sample_smaller = \<lparr>cs_Epoch = 3, cs_Nodes = (cs_Nodes sample_cluster)(''b'' := None)\<rparr>"

lemma sample_smaller_enumerates: "enumerates [''a''] sample_smaller"
  by (auto simp: enumerates_def sample_smaller_def sample_cluster_nodes)

lemma Placement_defined:
  assumes "visits order s" and "shardCount \<noteq> 0" and "0 < replication" and "replication \<le> int (card (healthy_nodes s))"
  shows "\<exists>p. Placement srt order key shardCount replication s = Inr p"
  using assms healthy_length [OF assms(1)]
  by (simp add: Placement_def Cluster_State_def clusterFSM_copyState_def Let_def)

lemma sample_placements:
  "\<exists>p. Placement sample_sort [''a'', ''b''] ''k'' 8 1 sample_cluster = Inr p \<and> rp_Nodes p \<noteq> []"
  "\<exists>p. Placement sample_sort [''a''] ''k'' 8 1 sample_smaller = Inr p"
proof -
  have v: "visits [''a'', ''b''] sample_cluster" by (rule visits_reachable [OF sample_cluster_reachable sample_enumerates])
  then have v': "visits [''a''] sample_smaller"
    using sample_smaller_enumerates by (auto simp: visits_def enumerates_def ids_agree_def sample_smaller_def)
  have "card (healthy_nodes sample_cluster) = 2" by (simp add: sample_healthy sample_node_def)
  then obtain p where p: "Placement sample_sort [''a'', ''b''] ''k'' 8 1 sample_cluster = Inr p"
    using Placement_defined [OF v, where shardCount = 8 and replication = 1] by auto
  with Placement_ok(4) [OF sample_sorts v p]
  show "\<exists>p. Placement sample_sort [''a'', ''b''] ''k'' 8 1 sample_cluster = Inr p \<and> rp_Nodes p \<noteq> []" by auto
  have "cn_Healthy (sample_node ''a'' True)" by (simp add: sample_node_def)
  then have "healthy_nodes sample_smaller = {sample_node ''a'' True}"
    by (auto simp: healthy_nodes_def sample_smaller_def sample_cluster_nodes ran_def split: if_splits)
  then show "\<exists>p. Placement sample_sort [''a''] ''k'' 8 1 sample_smaller = Inr p"
    using Placement_defined [OF v', where shardCount = 8 and replication = 1] by simp
qed

theorem placement_stability_witness:
  "\<exists>p p'. Placement sample_sort [''a'', ''b''] ''k'' 8 1 sample_cluster = Inr p
     \<and> Placement sample_sort [''a''] ''k'' 8 1 sample_smaller = Inr p'
     \<and> (\<forall>n \<in> set (rp_Nodes p). cn_ID n = ''a'' \<longrightarrow> n \<in> set (rp_Nodes p')) \<and> rp_Nodes p \<noteq> []"
proof -
  obtain p p' where p: "Placement sample_sort [''a'', ''b''] ''k'' 8 1 sample_cluster = Inr p" "rp_Nodes p \<noteq> []"
    "Placement sample_sort [''a''] ''k'' 8 1 sample_smaller = Inr p'"
    using sample_placements by blast
  have "cs_Nodes sample_smaller = (cs_Nodes sample_cluster)(''b'' := None)" by (simp add: sample_smaller_def)
  moreover have "inj_on (\<lambda>n. rendezvousScore ''k'' (cn_ID n)) (healthy_nodes sample_cluster)"
    using sample_scores by (simp add: sample_healthy inj_on_def) (simp add: sample_node_def)
  ultimately show ?thesis
    using placement_stability [OF sample_sorts sample_cluster_reachable sample_enumerates sample_smaller_enumerates _ p(1,3)] p
    by (intro exI [of _ p] exI [of _ p'] conjI ballI impI) auto
qed

definition sample_raft :: "unit raft_lib" where
  "sample_raft =
     \<lparr>rl_Leading = (\<lambda>_. True), rl_Leader = (\<lambda>_. ''h:1''), rl_GetConfiguration = (\<lambda>_. Inr []),
      rl_RemoveServer = (\<lambda>_ r. (Inr (), r)), rl_AddVoter = (\<lambda>_ _ r. (Inr (), r)),
      rl_Apply = (\<lambda>raw r. (Inr (), [raw], r)), rl_Shutdown = (\<lambda>_. Inr ())\<rparr>"

theorem membership_takes_effect_witness:
  "cs_Nodes (rc_fsm (snd (Cluster_Remove sample_raft ''a'' \<lparr>rc_raft = (), rc_fsm = sample_cluster\<rparr>))) ''a'' = None
   \<and> cs_Nodes (rc_fsm (snd (Heartbeat sample_raft 0 ''a'' ''h:2'' \<lparr>rc_raft = (), rc_fsm = sample_cluster\<rparr>))) ''a'' =
       Some \<lparr>cn_ID = ''a'', cn_Address = ''h:2'', cn_Healthy = True, cn_LastHeartbeatMS = 0\<rparr>"
proof -
  let ?c = "\<lparr>rc_raft = (), rc_fsm = sample_cluster\<rparr>"
  have lib: "raft_applies sample_raft" by (simp add: raft_applies_def sample_raft_def)
  have ok: "utf8_valid ''a''" "utf8_valid ''h:2''" "int64_range (UnixMilli 0)"
    by (simp_all add: utf8_len_ascii int64_range_def UnixMilli_def)
  have "fst (Cluster_Remove sample_raft ''a'' ?c) = Inr ()" "fst (Heartbeat sample_raft 0 ''a'' ''h:2'' ?c) = Inr ()"
    by (simp_all add: Cluster_Remove_def Heartbeat_def UpsertNode_def Cluster_IsLeader_def raft_Apply_def sample_raft_def)
  then have "Cluster_Remove sample_raft ''a'' ?c = (Inr (), snd (Cluster_Remove sample_raft ''a'' ?c))"
    "Heartbeat sample_raft 0 ''a'' ''h:2'' ?c = (Inr (), snd (Heartbeat sample_raft 0 ''a'' ''h:2'' ?c))"
    by (metis prod.collapse)+
  then show ?thesis
    using membership_takes_effect [OF lib ok, of ?c undefined undefined undefined "snd (Cluster_Remove sample_raft ''a'' ?c)"]
      membership_takes_effect [OF lib ok, of ?c undefined undefined undefined "snd (Heartbeat sample_raft 0 ''a'' ''h:2'' ?c)"]
    by (simp add: UnixMilli_def)
qed

theorem ReapStale_exact_witness:
  "\<exists>c'. ReapStale sample_raft (100 * Millisecond) (50 * Millisecond) [''a'', ''b''] \<lparr>rc_raft = (), rc_fsm = sample_cluster\<rparr> = (Inr (), c')
     \<and> cs_Nodes (rc_fsm c') ''a'' = Some (sample_node ''a'' False)"
proof -
  let ?c = "\<lparr>rc_raft = (), rc_fsm = sample_cluster\<rparr>"
  have lib: "raft_alone sample_raft" by (simp add: raft_alone_def sample_raft_def)
  have r: "reachable fsm_init fsm_trans (rc_fsm ?c)" "enumerates [''a'', ''b''] (rc_fsm ?c)"
    using sample_cluster_reachable sample_enumerates by simp_all
  have w: "wire_state (rc_fsm ?c)"
    using fsm_run_wire [of "[sample_command ''upsert'' ''a'', sample_command ''upsert'' ''b'']"] sample_command_valid
    by (simp add: sample_cluster_def del: fsm_run_simps)
  have n: "cs_Nodes sample_cluster ''a'' = Some (sample_node ''a'' True)" by (simp add: sample_cluster_nodes)
  have "int64_range (- (50 * Millisecond))" "UnixMilli (100 * Millisecond - 50 * Millisecond) = 50"
    by (simp_all add: int64_range_def Millisecond_def UnixMilli_def)
  with ReapStale_exact [OF lib r(1) w r(2), of "50 * Millisecond" "100 * Millisecond"] n show ?thesis
    by (auto simp: sample_node_def)
qed

definition sample_busy_raft :: "unit raft_lib" where
  "sample_busy_raft = sample_raft\<lparr>rl_Apply := (\<lambda>raw r. (Inr (), [marshal_clusterCommand
     \<lparr>cc_Op = ''upsert'', cc_Node = (sample_node ''a'' True)\<lparr>cn_LastHeartbeatMS := UnixMilli (100 * Millisecond)\<rparr>\<rparr>, raw], r))\<rparr>"

theorem reap_overwrites_heartbeat_witness:
  "\<exists>c'. ReapStale sample_busy_raft (100 * Millisecond) (50 * Millisecond) [''a'']
       \<lparr>rc_raft = (), rc_fsm = \<lparr>cs_Epoch = 1, cs_Nodes = [''a'' \<mapsto> sample_node ''a'' True]\<rparr>\<rparr> = (Inr (), c')
     \<and> cs_Nodes (rc_fsm c') ''a'' = Some (sample_node ''a'' False)"
proof -
  let ?n = "sample_node ''a'' True"
  let ?c = "\<lparr>rc_raft = (), rc_fsm = \<lparr>cs_Epoch = 1, cs_Nodes = [''a'' \<mapsto> ?n]\<rparr>\<rparr>"
  have i: "cn_ID ?n = ''a''" "cn_Healthy ?n" "cn_LastHeartbeatMS ?n = 7" "?n\<lparr>cn_Healthy := False\<rparr> = sample_node ''a'' False"
    by (simp_all add: sample_node_def)
  show ?thesis
    using reap_overwrites_heartbeat [OF sample_node_wire(1) [of True], of ?c "100 * Millisecond" "50 * Millisecond"
        sample_busy_raft "?n\<lparr>cn_LastHeartbeatMS := UnixMilli (100 * Millisecond)\<rparr>" "()"] i
    by (simp add: int64_range_def Millisecond_def UnixMilli_def sample_busy_raft_def sample_raft_def)
qed

lemma publish_empty_store:
  assumes "Envelope_Validate env = Inr ()"
  obtains t where "ControlStore_Publish no_faults now env empty_store = (Inr (env, True), t)"
proof -
  obtain raw where "marshal_Envelope env = Inr raw" using assms marshal_Envelope_ok by blast
  with assms that show thesis
    by (simp add: ControlStore_Publish_def no_faults_def empty_store_def insert_event_def)
qed

theorem replicated_once_witness:
  "\<exists>t. snd (Replicate (\<lambda>env st. map_prod (map_result (\<lambda>_. ())) id (ControlStore_Publish no_faults 9 env st)) 3 4
       \<lparr>ra_Shard = 1, ra_Key = ''k'', ra_FencingToken = 5, ra_Payload = ''2''\<rparr> ''d'' t) = t \<and> events t \<noteq> []"
proof -
  let ?a = "\<lparr>ra_Shard = 1, ra_Key = ''k'', ra_FencingToken = 5, ra_Payload = ''1''\<rparr>"
  let ?b = "\<lparr>ra_Shard = 1, ra_Key = ''k'', ra_FencingToken = 5, ra_Payload = ''2''\<rparr>"
  have p: "json_Valid ''1''" "json_Valid ''2''" "json_depth ''1'' = 0" "json_depth ''2'' = 0" by code_simp+
  then obtain raw where raw: "marshal_ReplicaApply ?a = Inr raw" "raw \<noteq> []" "json_Valid raw"
    using marshal_ReplicaApply_ok [of ?a] by (auto simp: maxNestingDepth_def)
  let ?env = "replica_envelope 1 2 raw ''c'' ?a"
  obtain t where t: "ControlStore_Publish no_faults 5 ?env empty_store = (Inr (?env, True), t)"
    using publish_empty_store [OF replica_Validate [OF _ raw(2,3)]] by blast
  have "events t \<noteq> []" using Publish_created(2) [OF t] by auto
  moreover have "snd (Replicate (\<lambda>env st. map_prod (map_result (\<lambda>_. ())) id (ControlStore_Publish no_faults 9 env st)) 3 4 ?b ''d'' t) = t"
    using replicated_once [OF empty_store_reachable raw(1) t rtranclp.rtrancl_refl, of ?b no_faults 9 3 4 "''d''"]
    by simp
  ultimately show ?thesis by blast
qed

end
