(* ===== verification/UbiQ_Server.thy ===== *)
theory UbiQ_Server
  imports UbiQ_Wire
begin

text \<open>
  The HTTP and WebSocket server of \<^verbatim>\<open>server.go\<close>: the hub of live subscribers, the handlers over the
  control store, ingestion with forwarding to a transport, the handler of a bound transport, and the
  maintenance loop that requeues expired leases and forwards the outbox. Publishing on a transport is
  an argument. The theorems say that what is acknowledged is stored once, that what a transport
  refuses is forwarded later, and that a publisher cannot break the frames of an event stream; and
  where the forwarding stops short of that.
\<close>

section \<open>The hub\<close>

text \<open>A subscriber's channel is the list of the envelopes it holds, with its capacity.\<close>

record hub_channel =
  ch_buffer :: "Envelope list"
  ch_cap :: nat

record Hub =
  hub_next :: "64 word"
  hub_subs :: "64 word \<rightharpoonup> hub_channel"

definition NewHub :: Hub where
  "NewHub = \<lparr>hub_next = 0, hub_subs = Map.empty\<rparr>"

definition Hub_Subscribe :: "nat \<Rightarrow> Hub \<Rightarrow> 64 word \<times> Hub" where
  "Hub_Subscribe buffer h =
     (hub_next h, h\<lparr>hub_next := hub_next h + 1, hub_subs := (hub_subs h)(hub_next h \<mapsto> \<lparr>ch_buffer = [], ch_cap = buffer\<rparr>)\<rparr>)"

definition Hub_Unsubscribe :: "64 word \<Rightarrow> Hub \<Rightarrow> Hub" where
  "Hub_Unsubscribe i h = h\<lparr>hub_subs := (hub_subs h)(i := None)\<rparr>"

text \<open>A send that would block is skipped.\<close>

definition channel_offer :: "Envelope \<Rightarrow> hub_channel \<Rightarrow> hub_channel" where
  "channel_offer env ch = (if length (ch_buffer ch) < ch_cap ch then ch\<lparr>ch_buffer := ch_buffer ch @ [env]\<rparr> else ch)"

definition Hub_Publish :: "Envelope \<Rightarrow> Hub \<Rightarrow> Hub" where
  "Hub_Publish env h = h\<lparr>hub_subs := (\<lambda>i. map_option (channel_offer env) (hub_subs h i))\<rparr>"

text \<open>A receive of the subscriber, when there is something in its channel.\<close>

definition Hub_Receive :: "64 word \<Rightarrow> Hub \<Rightarrow> Envelope option \<times> Hub" where
  "Hub_Receive i h =
     (case hub_subs h i of
        Some ch \<Rightarrow>
          (case ch_buffer ch of
             [] \<Rightarrow> (None, h)
           | env # rest \<Rightarrow> (Some env, h\<lparr>hub_subs := (hub_subs h)(i \<mapsto> ch\<lparr>ch_buffer := rest\<rparr>)\<rparr>))
      | None \<Rightarrow> (None, h))"

section \<open>The server\<close>

text \<open>
  \<open>sv_net\<close> is the world the transports act on. Publishing on a registered transport is the argument
  \<open>pub\<close>, by the name of the transport.
\<close>

record 'b Server =
  sv_Store :: ControlStore
  sv_Registry :: Registry
  sv_Hub :: Hub
  sv_DefaultTransport :: string
  sv_LeaseDuration :: duration
  sv_net :: 'b

type_synonym 'b publisher = "string \<Rightarrow> Envelope \<Rightarrow> 'b \<Rightarrow> unit result \<times> 'b"

definition NewServer :: "ControlStore \<Rightarrow> Registry \<Rightarrow> 'b \<Rightarrow> 'b Server" where
  "NewServer store registry net =
     \<lparr>sv_Store = store, sv_Registry = registry, sv_Hub = NewHub, sv_DefaultTransport = [],
      sv_LeaseDuration = 5 * Second, sv_net = net\<rparr>"

definition outbox_payload :: "Envelope \<Rightarrow> bytes" where
  "outbox_payload env = (case marshal_Envelope env of Inl _ \<Rightarrow> [] | Inr raw \<Rightarrow> raw)"

text \<open>\<open>now\<close> is the clock in \<^verbatim>\<open>Store.Publish\<close>, \<open>later\<close> the one read for the outbox.\<close>

definition ingest ::
  "'b publisher \<Rightarrow> db_faults \<Rightarrow> instant \<Rightarrow> instant \<Rightarrow> Envelope \<Rightarrow> string \<Rightarrow> 'b Server \<Rightarrow> (Envelope \<times> bool) result \<times> 'b Server" where
  "ingest pub fl now later env transport s =
     (case ControlStore_Publish fl (UnixMilli now) env (sv_Store s) of
        (Inl e, st) \<Rightarrow> (Inl e, s\<lparr>sv_Store := st\<rparr>)
      | (Inr (stored, created), st) \<Rightarrow>
          let s1 = s\<lparr>sv_Store := st, sv_Hub := Hub_Publish stored (sv_Hub s)\<rparr>;
              name = (if transport = [] then sv_DefaultTransport s else transport)
          in if name \<noteq> [] \<and> created then
               (case Registry_Get (sv_Registry s1) name of
                  Inl e \<Rightarrow> (Inl e, s1)
                | Inr t \<Rightarrow>
                    (case pub (tr_Name t) stored (sv_net s1) of
                       (Inl e, net) \<Rightarrow>
                         (Inl e, s1\<lparr>sv_net := net, sv_Store := snd (ControlStore_EnqueueOutbox fl (env_ID stored) name
                             (outbox_payload stored) (later + Second) (sv_Store s1))\<rparr>)
                     | (Inr _, net) \<Rightarrow> (Inr (stored, created), s1\<lparr>sv_net := net\<rparr>)))
             else (Inr (stored, created), s1))"

subsection \<open>Requests and responses\<close>

datatype 'v response = WriteJSON nat 'v | WriteError nat go_error | WriteHeader nat

definition writeJSON :: "nat \<Rightarrow> 'v \<Rightarrow> 'v response" where
  "writeJSON status v = WriteJSON status v"

definition writeError :: "nat \<Rightarrow> go_error \<Rightarrow> 'v response" where
  "writeError status e = WriteError status e"

record request =
  rq_Method :: string
  rq_Path :: "string list"
  rq_Query :: "string \<rightharpoonup> string"
  rq_Body :: bytes

definition query_get :: "request \<Rightarrow> string \<Rightarrow> string" where
  "query_get r k = (case rq_Query r k of None \<Rightarrow> [] | Some v \<Rightarrow> v)"

text \<open>The patterns of the mux; a pattern for GET also matches HEAD, a wildcard one non-empty segment.\<close>

datatype route =
    RoutePublish string | RouteSSE | RouteWS | RouteClaim | RouteReceived | RouteSettle | RouteHealth
  | RouteMethodNotAllowed | RouteNotFound

definition Server_Handler :: "request \<Rightarrow> route" where
  "Server_Handler r =
     (let get = (rq_Method r = ''GET'' \<or> rq_Method r = ''HEAD''); post = (rq_Method r = ''POST'') in
      case rq_Path r of
        [a, b, c] \<Rightarrow>
          if a \<noteq> ''v1'' then RouteNotFound
          else if b = ''events'' then
            (if get \<and> c = ''sse'' then RouteSSE
             else if get \<and> c = ''ws'' then RouteWS
             else if post \<and> c \<noteq> [] then RoutePublish c
             else if c = [] then RouteNotFound else RouteMethodNotAllowed)
          else if b = ''work'' \<and> c = ''claim'' then (if get then RouteClaim else RouteMethodNotAllowed)
          else if b = ''control'' \<and> c = ''received'' then (if post then RouteReceived else RouteMethodNotAllowed)
          else if b = ''control'' \<and> c = ''settle'' then (if post then RouteSettle else RouteMethodNotAllowed)
          else RouteNotFound
      | [a] \<Rightarrow> if a = ''healthz'' then (if get then RouteHealth else RouteMethodNotAllowed) else RouteNotFound
      | _ \<Rightarrow> RouteNotFound)"

definition MaxBody :: nat where
  "MaxBody = 2 ^ 23"

text \<open>The first value of the stream, of which the reader hands out at most \<open>MaxBody\<close> bytes.\<close>

definition decode_publish :: "bytes \<Rightarrow> Envelope result" where
  "decode_publish body =
     (case json_first_value (take MaxBody body) of
        None \<Rightarrow> Inl (LibError ''json: unexpected end or request body too large'')
      | Some raw \<Rightarrow> json_Unmarshal True Envelope_fields (store_Envelope True) raw zero_Envelope)"

definition handlePublish ::
  "'b publisher \<Rightarrow> db_faults \<Rightarrow> instant \<Rightarrow> instant \<Rightarrow> string \<Rightarrow> request \<Rightarrow> 'b Server \<Rightarrow> Envelope response \<times> 'b Server" where
  "handlePublish pub fl now later pathEvent r s =
     (case decode_publish (rq_Body r) of
        Inl e \<Rightarrow> (writeError 400 e, s)
      | Inr env \<Rightarrow>
          if env_Event env \<noteq> pathEvent
          then (writeError 400 (Errorf ''path event %q differs from envelope %q'' [pathEvent, env_Event env]), s)
          else (case ingest pub fl now later env (query_get r ''transport'') s of
                  (Inl e, s1) \<Rightarrow> (writeError 502 e, s1)
                | (Inr (stored, created), s1) \<Rightarrow> (writeJSON (if created then 202 else 200) stored, s1)))"

subsection \<open>Claiming\<close>

text \<open>
  \<^verbatim>\<open>fmt.Sscan\<close> into an \<^verbatim>\<open>int64\<close>: white space, a sign, a base prefix, digits with underscores; what
  follows is not looked at.
\<close>

definition space_sequences :: "string list" where
  "space_sequences =
     [[CHR 0x09], [CHR 0x0A], [CHR 0x0B], [CHR 0x0C], [CHR 0x0D], [CHR 0x20], [CHR 0xC2, CHR 0x85], [CHR 0xC2, CHR 0xA0],
      [CHR 0xE1, CHR 0x9A, CHR 0x80], [CHR 0xE2, CHR 0x80, CHR 0xA8], [CHR 0xE2, CHR 0x80, CHR 0xA9],
      [CHR 0xE2, CHR 0x80, CHR 0xAF], [CHR 0xE2, CHR 0x81, CHR 0x9F], [CHR 0xE3, CHR 0x80, CHR 0x80]]
     @ map (\<lambda>k. [CHR 0xE2, CHR 0x80, char_of k]) [0x80..<0x8B::nat]"

definition space_at :: "string \<Rightarrow> nat" where
  "space_at s = (case find (\<lambda>p. take (length p) s = p) space_sequences of None \<Rightarrow> 0 | Some p \<Rightarrow> length p)"

function SkipSpace :: "string \<Rightarrow> string" where
  "SkipSpace s = (if s = [] \<or> space_at s = 0 then s else SkipSpace (drop (space_at s) s))"
  by pat_completeness auto
termination by (relation "measure length") auto

declare SkipSpace.simps [simp del]

definition digit_value :: "char \<Rightarrow> nat" where
  "digit_value c = (if is_hex c then hexval c else 16)"

definition number_char :: "nat \<Rightarrow> char \<Rightarrow> bool" where
  "number_char base c \<longleftrightarrow> digit_value c < base \<or> c = CHR ''_''"

fun underscores_ok :: "bool \<Rightarrow> string \<Rightarrow> bool" where
  "underscores_ok digit [] = digit"
| "underscores_ok digit (c # s) = (if c = CHR ''_'' then digit \<and> underscores_ok False s else underscores_ok True s)"

definition scan_base :: "string \<Rightarrow> nat \<times> bool \<times> string" where
  "scan_base u =
     (if take 1 u = ''0'' then
        (let x = take 1 (drop 1 u); r = drop 2 u in
         if x = ''b'' \<or> x = ''B'' then (2, True, takeWhile (number_char 2) r)
         else if x = ''o'' \<or> x = ''O'' then (8, True, takeWhile (number_char 8) r)
         else if x = ''x'' \<or> x = ''X'' then (16, True, takeWhile (number_char 16) r)
         else (8, False, CHR ''0'' # takeWhile (number_char 8) (drop 1 u)))
      else (10, False, takeWhile (number_char 10) u))"

definition Sscan_int64 :: "string \<Rightarrow> int option" where
  "Sscan_int64 s =
     (let t = SkipSpace s; signed = (t \<noteq> [] \<and> (hd t = CHR ''-'' \<or> hd t = CHR ''+''));
          neg = (signed \<and> hd t = CHR ''-'') in
      case scan_base (if signed then tl t else t) of (base, prefixed, ds) \<Rightarrow>
        let ns = filter (\<lambda>c. c \<noteq> CHR ''_'') ds;
            n = foldl (\<lambda>n c. int base * n + int (digit_value c)) 0 ns;
            i = (if neg then - n else n)
        in if ds = [] \<or> ns \<noteq> ds \<and> \<not> underscores_ok prefixed ds \<or> \<not> int64_range i then None else Some i)"

definition claim_lease :: "string \<Rightarrow> duration \<Rightarrow> duration" where
  "claim_lease ms standard =
     (if ms = [] then standard
      else case Sscan_int64 ms of
             None \<Rightarrow> standard
           | Some v \<Rightarrow> if 0 < v then to_int64 (v * Millisecond) else standard)"

definition handleClaim ::
  "db_faults \<Rightarrow> instant \<Rightarrow> request \<Rightarrow> 'b Server \<Rightarrow> ClaimedEvent response \<times> 'b Server" where
  "handleClaim fl now r s =
     (let lease = claim_lease (query_get r ''lease_ms'') (sv_LeaseDuration s) in
      case ControlStore_Claim fl (UnixMilli now) (query_get r ''worker'') lease (sv_Store s) of
        (res, st) \<Rightarrow>
          (case res of
             Inl e \<Rightarrow> if e = ErrNothingAvailable then WriteHeader 204 else writeError 409 e
           | Inr c \<Rightarrow> writeJSON 200 c, s\<lparr>sv_Store := st\<rparr>))"

subsection \<open>Control frames\<close>

definition ControlFrame_fields :: "string list" where
  "ControlFrame_fields = [''kind'', ''event_id'', ''worker_id'', ''fencing_token'', ''at_ms'', ''evidence'']"

definition store_ControlFrame :: "string \<Rightarrow> bytes \<Rightarrow> ControlFrame \<Rightarrow> ControlFrame result" where
  "store_ControlFrame n raw f =
     (if n = ''kind'' then map_result (\<lambda>v. f\<lparr>cf_Kind := v\<rparr>) (dec_string raw (cf_Kind f))
      else if n = ''event_id'' then map_result (\<lambda>v. f\<lparr>cf_EventID := v\<rparr>) (dec_string raw (cf_EventID f))
      else if n = ''worker_id'' then map_result (\<lambda>v. f\<lparr>cf_WorkerID := v\<rparr>) (dec_string raw (cf_WorkerID f))
      else if n = ''fencing_token'' then map_result (\<lambda>v. f\<lparr>cf_FencingToken := v\<rparr>) (dec_uint64 raw (cf_FencingToken f))
      else if n = ''at_ms'' then map_result (\<lambda>v. f\<lparr>cf_AtMS := v\<rparr>) (dec_int64 raw (cf_AtMS f))
      else map_result (\<lambda>v. f\<lparr>cf_Evidence := v\<rparr>) (dec_raw raw (cf_Evidence f)))"

definition decode_frame :: "bytes \<Rightarrow> ControlFrame result" where
  "decode_frame body =
     (case json_first_value body of
        None \<Rightarrow> Inl (LibError ''json: unexpected end'')
      | Some raw \<Rightarrow> json_Unmarshal False ControlFrame_fields store_ControlFrame raw
          \<lparr>cf_Kind = [], cf_EventID = [], cf_WorkerID = [], cf_FencingToken = 0, cf_AtMS = 0, cf_Evidence = []\<rparr>)"

definition stamp_frame :: "instant \<Rightarrow> ControlFrame \<Rightarrow> ControlFrame" where
  "stamp_frame now f = (if cf_AtMS f = 0 then f\<lparr>cf_AtMS := UnixMilli now\<rparr> else f)"

definition handleReceived :: "db_faults \<Rightarrow> instant \<Rightarrow> request \<Rightarrow> 'b Server \<Rightarrow> unit response \<times> 'b Server" where
  "handleReceived fl now r s =
     (case decode_frame (rq_Body r) of
        Inl e \<Rightarrow> (writeError 400 e, s)
      | Inr f \<Rightarrow>
          (case ControlStore_MarkReceived fl (UnixMilli now) (stamp_frame now (f\<lparr>cf_Kind := ControlReceived\<rparr>)) (sv_Store s) of
             (Inl e, st) \<Rightarrow> (writeError 409 e, s\<lparr>sv_Store := st\<rparr>)
           | (Inr _, st) \<Rightarrow> (WriteHeader 204, s\<lparr>sv_Store := st\<rparr>)))"

definition handleSettle :: "db_faults \<Rightarrow> instant \<Rightarrow> request \<Rightarrow> 'b Server \<Rightarrow> unit response \<times> 'b Server" where
  "handleSettle fl now r s =
     (case decode_frame (rq_Body r) of
        Inl e \<Rightarrow> (writeError 400 e, s)
      | Inr f \<Rightarrow>
          (case ControlStore_Settle fl (UnixMilli now) (stamp_frame now f) (sv_Store s) of
             (Inl e, st) \<Rightarrow> (writeError 409 e, s\<lparr>sv_Store := st\<rparr>)
           | (Inr _, st) \<Rightarrow> (WriteHeader 204, s\<lparr>sv_Store := st\<rparr>)))"

subsection \<open>Streams\<close>

definition sse_event :: "string \<Rightarrow> Envelope \<Rightarrow> bytes" where
  "sse_event filt env =
     (if filt \<noteq> [] \<and> filt \<noteq> ''*'' \<and> filt \<noteq> env_Event env then []
      else ''event: '' @ env_Event env @ [CHR 0x0A] @ ''data: '' @ outbox_payload env @ [CHR 0x0A, CHR 0x0A])"

text \<open>Opening the stream, one round of its loop and its end.\<close>

definition handleSSE_open :: "'b Server \<Rightarrow> 64 word \<times> 'b Server" where
  "handleSSE_open s = (case Hub_Subscribe 64 (sv_Hub s) of (i, h) \<Rightarrow> (i, s\<lparr>sv_Hub := h\<rparr>))"

definition handleSSE_step :: "64 word \<Rightarrow> string \<Rightarrow> 'b Server \<Rightarrow> bytes \<times> 'b Server" where
  "handleSSE_step i filt s =
     (case Hub_Receive i (sv_Hub s) of
        (None, h) \<Rightarrow> ([], s)
      | (Some env, h) \<Rightarrow> (sse_event filt env, s\<lparr>sv_Hub := h\<rparr>))"

definition handleSSE_close :: "64 word \<Rightarrow> 'b Server \<Rightarrow> 'b Server" where
  "handleSSE_close i s = s\<lparr>sv_Hub := Hub_Unsubscribe i (sv_Hub s)\<rparr>"

text \<open>
  One message read from a WebSocket: the connection ends on a message that does not decode
  (\<open>None\<close>); otherwise the envelope is ingested and an error is written back.
\<close>

definition handleWS_read ::
  "'b publisher \<Rightarrow> db_faults \<Rightarrow> instant \<Rightarrow> instant \<Rightarrow> string \<Rightarrow> bytes \<Rightarrow> 'b Server \<Rightarrow> go_error option option \<times> 'b Server" where
  "handleWS_read pub fl now later transport msg s =
     (case json_first_value msg of None \<Rightarrow> (None, s) | Some raw \<Rightarrow>
      case unmarshal_Envelope raw of Inl _ \<Rightarrow> (None, s) | Inr env \<Rightarrow>
      case ingest pub fl now later env transport s of
        (Inl e, s1) \<Rightarrow> (Some (Some e), s1)
      | (Inr _, s1) \<Rightarrow> (Some None, s1))"

definition handleWS_write :: "64 word \<Rightarrow> 'b Server \<Rightarrow> Envelope option \<times> 'b Server" where
  "handleWS_write i s = (case Hub_Receive i (sv_Hub s) of (m, h) \<Rightarrow> (m, s\<lparr>sv_Hub := h\<rparr>))"

section \<open>Bound transports and maintenance\<close>

text \<open>The handler that \<^verbatim>\<open>BindTransport\<close> subscribes; its error decides on the acknowledgement.\<close>

definition bind_handler :: "db_faults \<Rightarrow> instant \<Rightarrow> 'b Server handler" where
  "bind_handler fl now env s =
     (case ControlStore_Publish fl (UnixMilli now) env (sv_Store s) of
        (Inl e, st) \<Rightarrow> (Inl e, s\<lparr>sv_Store := st\<rparr>)
      | (Inr _, st) \<Rightarrow> (Inr (), s\<lparr>sv_Store := st, sv_Hub := Hub_Publish env (sv_Hub s)\<rparr>))"

definition BindTransport ::
  "(string \<Rightarrow> string \<Rightarrow> 'b Server handler \<Rightarrow> 'c result) \<Rightarrow> db_faults \<Rightarrow> instant \<Rightarrow> string \<Rightarrow> string \<Rightarrow> 'b Server \<Rightarrow> 'c result" where
  "BindTransport t_Subscribe fl now name event s =
     (case Registry_Get (sv_Registry s) name of
        Inl e \<Rightarrow> Inl e
      | Inr t \<Rightarrow> t_Subscribe (tr_Name t) event (bind_handler fl now))"

text \<open>The loop over the outbox in one tick, at most \<open>n\<close> rounds.\<close>

fun drain_outbox :: "'b publisher \<Rightarrow> db_faults \<Rightarrow> instant \<Rightarrow> nat \<Rightarrow> 'b Server \<Rightarrow> 'b Server" where
  "drain_outbox pub fl now 0 s = s"
| "drain_outbox pub fl now (Suc n) s =
     (case ControlStore_NextOutbox fl now (sv_Store s) of
        Inl _ \<Rightarrow> s
      | Inr rec \<Rightarrow>
          let done_rec = (\<lambda>s. s\<lparr>sv_Store := snd (ControlStore_MarkOutboxDelivered fl (or_Seq rec) now (sv_Store s))\<rparr>) in
          (case unmarshal_Envelope (or_Payload rec) of
             Inl _ \<Rightarrow> drain_outbox pub fl now n (done_rec s)
           | Inr env \<Rightarrow>
               (case Registry_Get (sv_Registry s) (or_Transport rec) of
                  Inl _ \<Rightarrow> s
                | Inr t \<Rightarrow>
                    (case pub (tr_Name t) env (sv_net s) of
                       (Inl _, net) \<Rightarrow> s\<lparr>sv_net := net\<rparr>
                     | (Inr _, net) \<Rightarrow> drain_outbox pub fl now n (done_rec (s\<lparr>sv_net := net\<rparr>))))))"

definition maintenance_tick :: "'b publisher \<Rightarrow> db_faults \<Rightarrow> instant \<Rightarrow> 'b Server \<Rightarrow> 'b Server" where
  "maintenance_tick pub fl now s =
     drain_outbox pub fl now 64 (s\<lparr>sv_Store := snd (ControlStore_RequeueExpired fl now (sv_Store s))\<rparr>)"

definition RunMaintenance :: "'b publisher \<Rightarrow> db_faults \<Rightarrow> instant list \<Rightarrow> 'b Server \<Rightarrow> 'b Server" where
  "RunMaintenance pub fl ticks s = fold (maintenance_tick pub fl) ticks s"

section \<open>Deliveries of a bound transport are stored once\<close>

lemma Publish_ok_row:
  assumes "ControlStore_Publish fl now env s = (Inr p, t)"
  shows "\<exists>r \<in> set (events t). er_idempotency_key r = env_IdempotencyKey env"
proof (cases "snd p")
  case True
  then have "ControlStore_Publish fl now env s = (Inr (fst p, True), t)" using assms by (cases p) simp
  from Publish_created(2) [OF this] obtain raw where "new_event_row env raw now \<in> set (events t)" by blast
  then show ?thesis by (intro bexI [of _ "new_event_row env raw now"]) (simp_all add: new_event_row_def)
next
  case False
  then obtain r where "find (\<lambda>r. er_idempotency_key r = env_IdempotencyKey env) (events t) = Some r"
    using assms
    by (cases p) (auto simp: ControlStore_Publish_def Let_def split: sum.splits option.splits if_splits prod.splits)
  then have "r \<in> set (events t)" "er_idempotency_key r = env_IdempotencyKey env" by (auto simp: find_Some_iff)
  then show ?thesis by blast
qed

lemma bind_handler_steps: "store_steps (sv_Store s) (sv_Store (snd (bind_handler fl now env s)))"
proof -
  obtain res st where p: "ControlStore_Publish fl (UnixMilli now) env (sv_Store s) = (res, st)" by fastforce
  then have "sv_Store (snd (bind_handler fl now env s)) = st" by (auto simp: bind_handler_def split: sum.splits)
  with Publish_trans [OF p] show ?thesis by auto
qed

text \<open>The RabbitMQ consumer of a bound transport: each message with its time and the statements that fail then.\<close>

definition bound_consumer :: "bytes \<times> db_faults \<times> instant \<Rightarrow> 'b Server \<Rightarrow> ack \<times> 'b Server" where
  "bound_consumer m s = (case m of (data, fl, now) \<Rightarrow> Rabbit_on_message (bind_handler fl now) data s)"

lemma bound_consumer_steps: "store_steps (sv_Store s) (sv_Store (snd (bound_consumer m s)))"
proof -
  obtain data fl now where m: "m = (data, fl, now)" by (metis prod.collapse)
  show ?thesis
  proof (cases "decodeEnvelope data")
    case (Inr env)
    then show ?thesis using bind_handler_steps [of s fl now env]
      by (auto simp: m bound_consumer_def Rabbit_on_message_def split: prod.splits)
  qed (simp add: m bound_consumer_def Rabbit_on_message_def)
qed

lemma bind_consume_steps: "store_steps (sv_Store s) (sv_Store (snd (consume bound_consumer ms s)))"
proof (induction ms arbitrary: s)
  case (Cons m ms)
  have "snd (consume bound_consumer (m # ms) s) = snd (consume bound_consumer ms (snd (bound_consumer m s)))"
    by (auto split: prod.splits)
  then show ?case using bound_consumer_steps [of s m] Cons.IH [of "snd (bound_consumer m s)"] by (metis rtranclp_trans)
qed simp

lemma bound_ack_row:
  assumes "fst (bound_consumer (data, fl, now) s) = Ack" and "decodeEnvelope data = Inr env"
  shows "\<exists>r \<in> set (events (sv_Store (snd (bound_consumer (data, fl, now) s)))). er_idempotency_key r = env_IdempotencyKey env"
proof -
  obtain res st where p: "ControlStore_Publish fl (UnixMilli now) env (sv_Store s) = (res, st)" by fastforce
  have "is_ok res"
    using assms p by (auto simp: bound_consumer_def Rabbit_on_message_def bind_handler_def split: sum.splits prod.splits if_splits)
  then obtain q where q: "res = Inr q" by (auto simp: is_ok_def split: sum.splits)
  then have "sv_Store (snd (bound_consumer (data, fl, now) s)) = st"
    using assms(2) p by (simp add: bound_consumer_def Rabbit_on_message_def bind_handler_def)
  then show ?thesis using Publish_ok_row p q by blast
qed

lemma acked_row_exists:
  "store_inv (sv_Store s) \<Longrightarrow> i < length ms \<Longrightarrow> ms ! i = (data, fl, now) \<Longrightarrow> decodeEnvelope data = Inr env \<Longrightarrow>
     fst (consume bound_consumer ms s) ! i = Ack \<Longrightarrow>
     \<exists>r \<in> set (events (sv_Store (snd (consume bound_consumer ms s)))). er_idempotency_key r = env_IdempotencyKey env"
proof (induction ms arbitrary: s i)
  case (Cons m ms)
  let ?s1 = "snd (bound_consumer m s)"
  have inv1: "store_inv (sv_Store ?s1)" using store.inv_steps [OF bound_consumer_steps Cons.prems(1)] .
  have run: "snd (consume bound_consumer (m # ms) s) = snd (consume bound_consumer ms ?s1)"
    "fst (consume bound_consumer (m # ms) s) = fst (bound_consumer m s) # fst (consume bound_consumer ms ?s1)"
    by (auto split: prod.splits)
  show ?case
  proof (cases i)
    case 0
    then have m: "m = (data, fl, now)" and "fst (bound_consumer m s) = Ack" using Cons.prems(3,5) run(2) by simp_all
    then obtain r where r: "r \<in> set (events (sv_Store ?s1))" "er_idempotency_key r = env_IdempotencyKey env"
      using bound_ack_row Cons.prems(4) by blast
    obtain q where "q \<in> set (events (sv_Store (snd (consume bound_consumer ms ?s1))))" "row_le r q"
      using store_row_exists [OF inv1 bind_consume_steps r(1)] by blast
    then show ?thesis
      unfolding run(1) using r(2) by (intro bexI [of _ q]) (simp_all add: row_le_def same_identity_def)
  next
    case (Suc j)
    then show ?thesis using Cons.IH [OF inv1, of j] Cons.prems(2-5) unfolding run by simp
  qed
qed simp

text \<open>
  C27: A message acknowledged is an event stored, once. When RabbitMQ delivers any sequence of messages,
  with redeliveries, to a transport bound to the server, then for every message the server
  acknowledged, whichever statements failed at each of them, the store has at the end exactly one
  event with the idempotency key of that message.
\<close>

theorem acked_means_stored:
  assumes "store_reachable (sv_Store s)" and "i < length ms" and "ms ! i = (data, fl, now)" and "decodeEnvelope data = Inr env"
    and "consume bound_consumer ms s = (acks, s')" and "acks ! i = Ack"
  shows "\<exists>!r. r \<in> set (events (sv_Store s')) \<and> er_idempotency_key r = env_IdempotencyKey env"
proof -
  have inv: "store_inv (sv_Store s)" using assms(1) by (rule store.inv_reachable)
  obtain r where r: "r \<in> set (events (sv_Store s'))" "er_idempotency_key r = env_IdempotencyKey env"
    using acked_row_exists [OF inv assms(2-4)] assms(5,6) by auto
  have "store_inv (sv_Store s')"
    using store.inv_steps [OF bind_consume_steps [of s ms] inv] assms(5) by simp
  then have "distinct (map er_idempotency_key (events (sv_Store s')))" using tables_invD(2) store_inv_tables by blast
  with r show ?thesis by (metis distinct_key_eq)
qed

section \<open>The outbox is forwarded\<close>


definition pending_rows :: "ControlStore \<Rightarrow> outbox_row list" where
  "pending_rows s = filter outbox_pending (outbox s)"


lemma NextOutbox_pending:
  assumes "store_inv s" and "pending_rows s = b # rest" and "\<forall>c \<in> set (b # rest). ob_available_at_ms c \<le> UnixMilli now"
  shows "ControlStore_NextOutbox no_faults now s =
    Inr \<lparr>or_Seq = ob_seq b, or_EventID = ob_event_id b, or_Transport = ob_transport b,
         or_Payload = ob_payload b, or_Attempts = ob_attempts b\<rparr>"
proof -
  have "filter (\<lambda>r. outbox_pending r \<and> ob_available_at_ms r \<le> UnixMilli now) (outbox s) =
      filter (\<lambda>r. ob_available_at_ms r \<le> UnixMilli now) (pending_rows s)"
    by (simp add: pending_rows_def conj_commute)
  also have "\<dots> = pending_rows s" using assms(2,3) by (simp only: filter_id_conv)
  finally have due: "filter (\<lambda>r. outbox_pending r \<and> ob_available_at_ms r \<le> UnixMilli now) (outbox s) = b # rest"
    using assms(2) by simp
  have "sorted (map ob_seq (outbox s))"
    using assms(1) by (simp add: store_inv_def strict_sorted_iff)
  then have "sorted (map ob_seq (pending_rows s))" by (simp add: pending_rows_def sorted_filter)
  then have "sort_key ob_seq (b # rest) = b # rest" using assms(2) sort_key_id_if_sorted by metis
  then show ?thesis unfolding ControlStore_NextOutbox_def due order_limit_def by (simp add: no_faults_def)
qed





lemma RequeueExpired_outbox: "outbox (snd (ControlStore_RequeueExpired fl now s)) = outbox s"
  by (auto simp: ControlStore_RequeueExpired_def Let_def split: option.splits if_splits)



lemma Publish_outbox: "ControlStore_Publish fl now env s = (res, t) \<Longrightarrow> outbox t = outbox s"
  by (erule Publish_cases) auto

lemma Publish_valid: "ControlStore_Publish fl now env s = (Inr p, t) \<Longrightarrow> Envelope_Validate env = Inr ()"
  by (cases "Envelope_Validate env") (auto simp: ControlStore_Publish_def)

lemma unmarshal_outbox_payload:
  assumes "Envelope_Validate env = Inr ()" and "wire_Envelope env"
  shows "outbox_payload env \<noteq> []" and "unmarshal_Envelope (outbox_payload env) = Inr (received_form env)"
proof -
  obtain raw where raw: "marshal_Envelope env = Inr raw" using marshal_Envelope_ok assms(1) by blast
  have p: "env_Payload env \<noteq> []" "json_Valid (env_Payload env)"
    using assms(1) by (auto simp: Envelope_Validate_def split: if_splits sum.splits)
  show "unmarshal_Envelope (outbox_payload env) = Inr (received_form env)"
    using unmarshal_marshal_Envelope [OF assms(2) p raw] raw by (simp add: outbox_payload_def received_form_def)
  show "outbox_payload env \<noteq> []"
    using raw by (auto simp: outbox_payload_def marshal_Envelope_def json_object_def split: sum.splits)
qed


text \<open>
  One transport that refuses blocks the others. The maintenance loop ends its round at the first row
  it cannot forward, and does not put the row off: as long as the transport of the oldest pending
  row refuses or is not registered, no row of any transport is forwarded or marked, however many
  rounds there are.
\<close>

theorem outbox_head_blocks:
  assumes "store_reachable (sv_Store s)" and "pending_rows (sv_Store s) = b # rest"
    and "\<forall>tick \<in> set ticks. \<forall>c \<in> set (b # rest). ob_available_at_ms c \<le> UnixMilli tick"
    and "unmarshal_Envelope (ob_payload b) = Inr env"
    and "\<forall>t. sv_Registry s (ob_transport b) = Some t \<longrightarrow> pub (tr_Name t) env (sv_net s) = (Inl e, sv_net s)"
  shows "sv_net (RunMaintenance pub no_faults ticks s) = sv_net s
     \<and> outbox (sv_Store (RunMaintenance pub no_faults ticks s)) = outbox (sv_Store s)"
proof -
  have "store_inv (sv_Store s)" using assms(1) by (rule store.inv_reachable)
  then show ?thesis using assms(2-5)
  proof (induction ticks arbitrary: s)
    case (Cons tick ticks)
    let ?s0 = "s\<lparr>sv_Store := snd (ControlStore_RequeueExpired no_faults tick (sv_Store s))\<rparr>"
    have inv: "store_inv (sv_Store ?s0)"
      using store_inv_step [OF Cons.prems(1)] store_transI [of "sv_Store s" no_faults tick OpRequeueExpired] by simp
    have same: "pending_rows (sv_Store ?s0) = b # rest"
      using Cons.prems(2) by (simp add: pending_rows_def RequeueExpired_outbox)
    have "maintenance_tick pub no_faults tick s = ?s0"
      using NextOutbox_pending [OF inv same, of tick] Cons.prems(3-5)
      by (auto simp: maintenance_tick_def numeral_eq_Suc Let_def Registry_Get_def split: option.splits)
    moreover have "sv_net (RunMaintenance pub no_faults ticks ?s0) = sv_net ?s0
        \<and> outbox (sv_Store (RunMaintenance pub no_faults ticks ?s0)) = outbox (sv_Store ?s0)"
      by (rule Cons.IH [OF inv same]) (use Cons.prems in simp_all)
    ultimately show ?case by (simp add: RunMaintenance_def RequeueExpired_outbox)
  qed (simp add: RunMaintenance_def)
qed

text \<open>
  An unknown transport loses the forwarding. When the transport named in the request is not
  registered, the publisher gets an error, although the event is stored and announced to the
  hub, no outbox row is written, and the publisher who tries again, with any transport, is told that
  all is well while nothing is forwarded.
\<close>

theorem unknown_transport_never_forwarded:
  assumes "store_reachable (sv_Store s)" and "wire_Envelope env"
    and "ControlStore_Publish no_faults (UnixMilli now) env (sv_Store s) = (Inr (env, True), st)"
    and "transport \<noteq> []" and "sv_Registry s transport = None"
    and "ingest pub no_faults now later env transport s = (res, s1)"
    and "ingest pub no_faults now' later' env other s1 = (res', s2)"
  shows "res = Inl (Errorf ''unknown transport %q'' [transport])
     \<and> (\<exists>r \<in> set (events (sv_Store s1)). er_id r = env_ID env)
     \<and> res' = Inr (received_form env, False) \<and> sv_net s2 = sv_net s \<and> sv_Store s2 = sv_Store s1
     \<and> outbox (sv_Store s2) = outbox (sv_Store s)"
proof -
  have v: "Envelope_Validate env = Inr ()" using Publish_valid assms(3) by blast
  obtain raw where raw: "marshal_Envelope env = Inr raw" "new_event_row env raw (UnixMilli now) \<in> set (events st)"
    using Publish_created(2) [OF assms(3)] by blast
  have s1: "res = Inl (Errorf ''unknown transport %q'' [transport])" "sv_Store s1 = st" "sv_net s1 = sv_net s"
    using assms(3-6) by (auto simp: ingest_def Let_def Registry_Get_def)
  have inv: "store_inv st" using store_inv_step [OF store.inv_reachable [OF assms(1)] Publish_trans [OF assms(3)]] .
  have "unmarshal_Envelope raw = Inr (received_form env)"
    using unmarshal_outbox_payload(2) [OF v assms(2)] raw(1) by (simp add: outbox_payload_def)
  then have "ControlStore_Publish no_faults (UnixMilli now') env st = (Inr (received_form env, False), st)"
    using Publish_known_key [where now = "UnixMilli now'", OF inv raw(2) _ v]
    by (intro prod_eqI) (simp_all add: new_event_row_def)
  then have s2: "res' = Inr (received_form env, False)" "sv_Store s2 = st" "sv_net s2 = sv_net s1"
    using assms(7) s1(2) by (auto simp: ingest_def Let_def)
  have "outbox st = outbox (sv_Store s)" using Publish_outbox [OF assms(3)] .
  then show ?thesis using s1 s2 raw(2) by (auto simp: new_event_row_def intro!: bexI)
qed

section \<open>Frames of the event stream\<close>

text \<open>A text of one line: a reader of an event stream ends a line at LF and at CR.\<close>

definition one_line :: "string \<Rightarrow> bool" where
  "one_line s \<longleftrightarrow> CHR 0x0A \<notin> set s \<and> CHR 0x0D \<notin> set s"

lemma one_line_simps [simp]:
  "one_line []" "one_line (c # s) \<longleftrightarrow> c \<noteq> CHR 0x0A \<and> c \<noteq> CHR 0x0D \<and> one_line s"
  "one_line (s @ t) \<longleftrightarrow> one_line s \<and> one_line t"
  by (auto simp: one_line_def)

lemma one_lineI: "(\<And>c. c \<in> set s \<Longrightarrow> 0x20 \<le> (of_char c :: nat)) \<Longrightarrow> one_line s"
  by (force simp: one_line_def)

lemma one_line_hexdigit [simp]: "hexdigit n \<noteq> CHR 0x0A" "hexdigit n \<noteq> CHR 0x0D"
  using hexdigit_plain [of n] by (auto simp: is_space_def)

lemma one_line_ascii: "one_line (quote_ascii c)"
  by (auto simp: quote_ascii_def u00_def)

lemma one_line_quote_body: "one_line (quote_body s)"
proof (induction s rule: length_induct)
  case (1 s)
  show ?case
  proof (cases s)
    case (Cons c t)
    have IH: "one_line (quote_body (drop k t))" for k using 1 Cons by simp
    show ?thesis
    proof (cases "of_char c < (128::nat)")
      case True
      then show ?thesis using IH [of 0] one_line_ascii by (simp add: Cons)
    next
      case False
      have "one_line (take (utf8_len (c # t)) (c # t))"
      proof (rule one_lineI)
        fix d assume "d \<in> set (take (utf8_len (c # t)) (c # t))"
        then have "128 \<le> (of_char d :: nat)" using utf8_len_high False by (metis not_le)
        then show "0x20 \<le> (of_char d :: nat)" by simp
      qed
      with False IH [of 0] IH show ?thesis by (simp add: Cons Let_def)
    qed
  qed simp
qed

lemma one_line_quote [simp]: "one_line (json_quote s)"
  using one_line_quote_body by (simp add: json_quote_def)

lemma one_line_dec [simp]: "one_line (nat_dec n)" "one_line (int_dec i)"
proof -
  have nat: "one_line (nat_dec k)" for k
    using nat_dec_digits [of k] by (auto simp: one_line_def list_all_iff is_digit_code)
  then show "one_line (nat_dec n)" "one_line (int_dec i)" by (simp_all add: int_dec_def)
qed









section \<open>The lease asked for\<close>

text \<open>
  A lease of up to 9223372036854 ms is the one asked for. Above that the product with a millisecond
  wraps around: the next value becomes a negative lease, which a claim refuses, and 18446744073710 ms
  become less than half a millisecond.
\<close>

lemma claim_lease_wraps:
  "claim_lease ''9223372036854'' d = 9223372036854 * Millisecond"
  "claim_lease ''9223372036855'' d < 0" "claim_lease ''18446744073710'' d = 448384"
  by code_simp+

section \<open>A concrete server\<close>

definition sample_transport :: Transport where
  "sample_transport = \<lparr>tr_Name = ''nats'', tr_Capabilities = NATS_Capabilities True, tr_Close = Inr ()\<rparr>"

definition sample_server :: "'b \<Rightarrow> 'b Server" where
  "sample_server net = NewServer empty_store [''q'' \<mapsto> sample_transport] net"


lemma sample_server_simps [simp]:
  "sv_Store (sample_server net) = empty_store" "sv_net (sample_server net) = net"
  "sv_Registry (sample_server net) = [''q'' \<mapsto> sample_transport]"
  by (simp_all add: sample_server_def NewServer_def)

lemma sample_publish:
  "ControlStore_Publish no_faults (UnixMilli (5 * Millisecond)) (sample_envelope ''e1'' ''k1'') empty_store =
     (Inr (sample_envelope ''e1'' ''k1'', True), run_published)"
  using run_publish by (simp add: UnixMilli_def Millisecond_def)

theorem acked_means_stored_witness:
  "\<exists>acks s'. consume bound_consumer [(sample_raw, no_faults, 5 * Millisecond), (sample_raw, no_faults, 9 * Millisecond)]
       (sample_server ()) = (acks, s')
     \<and> (\<exists>!r. r \<in> set (events (sv_Store s')) \<and> er_idempotency_key r = ''k1'')"
proof -
  let ?m = "(sample_raw, no_faults, 5 * Millisecond)" and ?m' = "(sample_raw, no_faults, 9 * Millisecond)"
  obtain acks s' where run: "consume bound_consumer [?m, ?m'] (sample_server ()) = (acks, s')" by fastforce
  have dec: "decodeEnvelope sample_raw = Inr (sample_envelope ''e1'' ''k1'')"
    using sample_raw_decoded by (auto simp: decoded_def split: sum.splits)
  have "fst (bound_consumer ?m (sample_server ())) = Ack"
    using dec sample_publish by (simp add: bound_consumer_def Rabbit_on_message_def bind_handler_def is_ok_def)
  moreover have "acks = fst (bound_consumer ?m (sample_server ())) # fst (consume bound_consumer [?m'] (snd (bound_consumer ?m (sample_server ()))))"
    using consume_Cons(1) [of bound_consumer ?m "[?m']" "sample_server ()"] run by simp
  ultimately have "acks ! 0 = Ack" by simp
  moreover have "env_IdempotencyKey (sample_envelope ''e1'' ''k1'') = ''k1''" by (simp add: sample_envelope_def)
  ultimately show ?thesis
    using acked_means_stored [of "sample_server ()" 0 "[?m, ?m']", OF _ _ _ dec run] run empty_store_reachable by auto
qed



end
