(* ===== verification/Spec2Isabelle.thy ===== *)
theory Spec2Isabelle
  imports UbiQ_Delivery UbiQ_Secure UbiQ_DPoP UbiQ_Shard UbiQ_Cluster UbiQ_Server
begin

text \<open>
  UbiQ is a zero-trust message queue. This development models its Go runtime
  (\<^verbatim>\<open>src/runtime/go/ubiq\<close> and the daemon \<^verbatim>\<open>src/runtime/go/cmd/ubiqd\<close>) and proves what its parts
  promise to each other.

  \<^bold>\<open>The program.\<close> A publisher posts an envelope to the server, which validates it and records it in
  the control store under its idempotency key, shows it to live subscribers, and forwards it to a
  transport, or to the outbox if the transport refuses it. Workers claim events from the store
  under a lease with a fencing token, and settle them with control frames; leases that run out are
  requeued. Transports carry encoded envelopes; the secure wrapper signs each envelope with a proof
  of possession and lets a subscriber's handler see only envelopes with a valid proof it has not
  seen. The daemon puts a DPoP check in front of the server. Documents are moved between shards by
  a migration protocol, and the members of the cluster are replicated by raft.

  \<^bold>\<open>The theories.\<close> Definitions have the names of the code, a method with its receiver's name in
  front (\<open>ControlStore_Claim\<close>); \<^verbatim>\<open>model.go\<close> stands for \<^verbatim>\<open>src/runtime/go/ubiq/model.go\<close>, and so on.
  \<^item> \<open>UbiQ_Prelude\<close>: Go values, errors and results, SQL statements on lists of rows; the contracts
    \<open>invariant_system\<close> and \<open>progress_system\<close> for reachability, invariants and monotone runs.
  \<^item> \<open>Go_Regexp\<close>, \<open>Go_Json\<close>, \<open>Go_Json_Text\<close>, \<open>Go_Json_Struct\<close>, \<open>Go_Json_Compact\<close>: the parts of
    \<^verbatim>\<open>regexp\<close>, \<^verbatim>\<open>strings\<close> and \<^verbatim>\<open>encoding/json\<close> the runtime uses (scanner, compaction, strings,
    numbers, base64, structs), with their round trips.
  \<^item> \<open>UbiQ_Model\<close> (\<^verbatim>\<open>model.go\<close>): envelopes, leases, control frames, validation, JSON form, digests.
  \<^item> \<open>UbiQ_Store\<close> (\<^verbatim>\<open>store.go\<close>): the four tables as a record of row lists, every operation with a
    failure of any of its statements, and the invariant. \<open>UbiQ_Delivery\<close>: what holds along runs of the
    store. It refines a delivery protocol; old fencing tokens are refused; settlements are final and
    all or nothing; unsettled events become claimable; the outbox delivers at most once.
  \<^item> \<open>UbiQ_Transport\<close> (\<^verbatim>\<open>transport.go\<close>): capabilities, registry and routes (\<open>name_registry\<close>).
  \<^item> \<open>UbiQ_Brokers\<close> (\<^verbatim>\<open>transports_broker.go\<close>): names, messages and consumers of NATS, Kafka, RabbitMQ,
    Redis Streams and MQTT; acknowledgement and handling (\<open>settling_consumer\<close>).
  \<^item> \<open>UbiQ_Handlers\<close> (\<^verbatim>\<open>transports_broker.go\<close>, \<^verbatim>\<open>tcp.go\<close>, \<^verbatim>\<open>quic.go\<close>, \<^verbatim>\<open>grpc.go\<close>): the transports that
    call handlers in the process, framing, and the lifecycle of subscriptions (\<open>subscription_table\<close>).
  \<^item> \<open>UbiQ_Replay\<close>: the replay caches of \<^verbatim>\<open>crypto.go\<close> and \<^verbatim>\<open>dpop.go\<close> and why pruning is safe
    (\<open>replay_window\<close>).
  \<^item> \<open>UbiQ_Crypto\<close> (\<^verbatim>\<open>crypto.go\<close>): signatures, sessions and proofs of possession; key buffers are cells of
    a store, so that wiping them is visible. Proofs are accepted exactly if both signatures, the
    binding, the window and the cache agree; no replay; both ends of a session agree.
  \<^item> \<open>UbiQ_Secure\<close> (\<^verbatim>\<open>secure_transport.go\<close>): trust store and wrapper; zero trust at the subscriber.
  \<^item> \<open>UbiQ_DPoP\<close> (\<^verbatim>\<open>dpop.go\<close>, and the middleware of \<^verbatim>\<open>cmd/ubiqd/main.go\<close>).
  \<^item> \<open>UbiQ_ShardBackend\<close> (\<^verbatim>\<open>shard_sql.go\<close>, \<^verbatim>\<open>shard_mongo.go\<close>): both backends under one contract
    (\<open>shard_backend\<close>, \<open>healthy_backend\<close>). \<open>UbiQ_Shard\<close> (\<^verbatim>\<open>shard.go\<close>): the coordinator; backfills
    end and are complete, documents disappear only where a migration says so.
  \<^item> \<open>UbiQ_Wire\<close>: encoding, store, security and transport composed: what is published is what is claimed
    and what a trusting subscriber handles.
  \<^item> \<open>UbiQ_Cluster\<close> (\<^verbatim>\<open>cluster_raft.go\<close>): the replicated state machine, membership, rendezvous placement
    and replication; every replica reaches the state of the log, also from a snapshot.
  \<^item> \<open>UbiQ_Server\<close> (\<^verbatim>\<open>server.go\<close>): hub, handlers, ingestion, bound transports and maintenance;
    acknowledged messages are stored once, refused ones are forwarded later.

  \<^bold>\<open>How the code is read.\<close> Strings and byte slices are lists of bytes; \<^verbatim>\<open>int64\<close> is an integer wrapped
  by \<open>to_int64\<close> where the code computes, \<^verbatim>\<open>uint64\<close> and \<^verbatim>\<open>uint32\<close> of the cluster and the hub are machine
  words; instants and durations are nanoseconds, and the clock is an argument. An operation returns a
  result or an error and the new state. Iteration over a Go map takes the order as an argument.
  Handlers are functions on the state of the application. Operations are atomic: the mutexes and
  transactions of the code are what makes them so, except that a backfill step and a reaping, which
  the code does not guard as a whole, are one step here unless a theorem says otherwise.

  \<^bold>\<open>Bounds.\<close> Fencing tokens, attempts and sequence numbers of the store are unbounded. No replay needs a
  freshness window of at most 2 to the 61 ns. Round trips need well-formed UTF-8, 64-bit times and
  payloads nested less than 10000 deep; \<open>deep_payload_never_delivered\<close> shows what happens at the limit.
  A migration of fewer than n times the batch size documents ends within n backfill steps. The
  maintenance loop handles 64 outbox rows in a round, so that k rounds empty an outbox of up to 64 k
  due rows. Keys of SQL rows are compared as bytes of their text form.

  \<^bold>\<open>Arguments.\<close> Code outside the repository is an argument with its documented behaviour as hypothesis:
  the cryptographic primitives (\<open>crypto_lib\<close>), the JOSE library, the row and document codecs, the raft
  library (\<open>raft_applies\<close>), \<^verbatim>\<open>sort.Slice\<close> (\<open>sort_Slice\<close>), and the networks behind the transports.

  \<^bold>\<open>Not modelled.\<close> Connecting to brokers, listening, accepting and shutting down (library calls and
  goroutines without state of their own); flags, environment and TLS files of the daemon; the upgrade
  of a WebSocket and the flushing of a response; the generated adapter interface, of which the
  repository has no implementation; and the Zig sources, which the Go runtime does not call.
\<close>

end
